(* ===== verification/CF_Prelude.thy ===== *)
theory CF_Prelude
  imports Main "HOL-Library.Word" "HOL-Library.Finite_Map"
begin

unbundle bit_operations_syntax

text \<open>
  Shared vocabulary of the development: the machine-integer types of the C++ sources, the
  named collections of simplification rules the component proofs use, and the generic facts on
  64-bit words, finite maps and lists that several components need.

  A \<open>std::uint64_t\<close> is a \<open>64 word\<close> (addition, subtraction and multiplication wrap); a
  \<open>std::size_t\<close> that counts elements of a container is a \<open>nat\<close>.
\<close>

type_synonym u8 = "8 word"
type_synonym u16 = "16 word"
type_synonym u32 = "32 word"
type_synonym u64 = "64 word"
type_synonym bytes = "8 word list"

named_theorems cf_defs \<open>definitions of small operations that proofs unfold together\<close>
named_theorems word_facts \<open>facts that move comparisons and arithmetic from words to naturals\<close>
named_theorems frame_simps \<open>which fields an operation leaves unchanged\<close>

subsection \<open>64-bit words read as naturals\<close>

definition u64_max :: u64 where
  "u64_max = 0xFFFFFFFFFFFFFFFF"

lemma u64_bound: "unat (a :: u64) < 18446744073709551616"
  using unsigned_less [of a] by simp

lemma unat_u64_max [simp]: "unat u64_max = 18446744073709551615"
  by (simp add: u64_max_def)

lemma u64_le_max [simp]: "a \<le> u64_max"
  using u64_bound [of a] by (simp add: word_le_nat_alt)

lemma unat_add_u64:
  "unat ((a :: u64) + b) =
     (if unat a + unat b < 18446744073709551616 then unat a + unat b
      else unat a + unat b - 18446744073709551616)"
  by (simp add: unat_plus_if')

lemma unat_add_u64_small [word_facts]:
  "unat (a :: u64) + unat b < 18446744073709551616 \<Longrightarrow> unat (a + b) = unat a + unat b"
  by (simp add: unat_add_u64)

lemma unat_sub_u64 [word_facts]: "b \<le> (a :: u64) \<Longrightarrow> unat (a - b) = unat a - unat b"
  by (simp add: unat_sub)

lemma add_wraps_iff: "(a :: u64) + b < a \<longleftrightarrow> 18446744073709551616 \<le> unat a + unat b"
  using u64_bound [of a] u64_bound [of b] by (auto simp: word_less_nat_alt unat_add_u64)

lemma word_eq_iff_unat: "(a :: 'a::len word) = b \<longleftrightarrow> unat a = unat b"
  by (simp add: word_unat_eq_iff)

lemma u64_nonzero: "(a :: u64) \<noteq> 0 \<longleftrightarrow> 0 < unat a"
  by (simp add: word_eq_iff_unat)

subsection \<open>Finite maps\<close>

lemma fmdom_card_upd_same:
  "fmlookup m k = Some v \<Longrightarrow> fcard (fmdom (fmupd k w m)) = fcard (fmdom m)"
  by (simp add: fmdomI finsert_absorb)

lemma fmupd_same: "fmlookup m k = Some v \<Longrightarrow> fmupd k v m = m"
  by (rule fmap_ext) auto

lemma fmdrop_fmupd_fresh: "fmlookup m k = None \<Longrightarrow> fmdrop k (fmupd k v m) = m"
  by (rule fmap_ext) simp

lemma fmupd_fmupd: "fmupd k v (fmupd k w m) = fmupd k v m"
  by (rule fmap_ext) simp

subsection \<open>Little-endian bytes\<close>

text \<open>\<open>le_encode n w\<close> lists the \<open>n\<close> low bytes of a word, least significant first; \<open>le_decode\<close> is
  the loop \<open>value |= byte << (8 * i)\<close> of the readers.\<close>

definition le_encode :: "nat \<Rightarrow> 'a::len word \<Rightarrow> bytes" where
  "le_encode n w = map (\<lambda>i. ucast (drop_bit (8 * i) w AND 0xFF)) [0..<n]"

definition le_decode :: "nat \<Rightarrow> bytes \<Rightarrow> 'a::len word" where
  "le_decode n bs = fold (\<lambda>i v. v OR push_bit (8 * i) (ucast (bs ! i))) [0..<n] 0"

lemma length_le_encode [simp]: "length (le_encode n w) = n"
  by (simp add: le_encode_def)

lemma bit_byte_bound: "bit (b :: u8) k \<Longrightarrow> k < 8"
  using bit_imp_le_length [of b k] by simp

lemma bit_le_decode:
  "bit (le_decode n bs :: 'a::len word) m \<longleftrightarrow>
     m < LENGTH('a) \<and> m div 8 < n \<and> bit (bs ! (m div 8)) (m mod 8)"
proof (induction n)
  case 0
  then show ?case by (simp add: le_decode_def)
next
  case (Suc n)
  have step: "(le_decode (Suc n) bs :: 'a word) = le_decode n bs OR push_bit (8 * n) (ucast (bs ! n))"
    by (simp add: le_decode_def)
  have "bit (push_bit (8 * n) (ucast (bs ! n)) :: 'a word) m \<longleftrightarrow>
          m < LENGTH('a) \<and> m div 8 = n \<and> bit (bs ! n) (m mod 8)"
  proof -
    have "8 * n \<le> m \<and> m - 8 * n < 8 \<longleftrightarrow> m div 8 = n" by auto
    moreover have "m div 8 = n \<Longrightarrow> m - 8 * n = m mod 8" by (simp add: minus_div_mult_eq_mod [symmetric])
    ultimately show ?thesis
      by (auto simp: bit_simps dest: bit_byte_bound)
  qed
  then show ?case
    by (auto simp: step bit_simps Suc.IH less_Suc_eq)
qed

lemma ucast_and_255: "ucast ((w :: 'a::len word) AND 0xFF) = (ucast w :: u8)"
proof -
  have "(0xFF :: 'a word) = mask 8" by (simp add: mask_eq_exp_minus_1)
  then have *: "w AND 0xFF = take_bit 8 w" by (simp add: take_bit_eq_mask)
  show ?thesis unfolding * by (rule bit_word_eqI) (simp add: bit_simps)
qed

lemma nth_le_encode: "i < n \<Longrightarrow> le_encode n w ! i = ucast (drop_bit (8 * i) w)"
  by (simp add: le_encode_def ucast_and_255)

lemma bit_le_encode:
  "i < n \<Longrightarrow> bit (le_encode n w ! i) k \<longleftrightarrow> k < 8 \<and> bit w (8 * i + k)"
  by (auto simp: nth_le_encode bit_simps)

lemma le_decode_encode:
  assumes "LENGTH('a::len) \<le> 8 * n"
  shows "le_decode n (le_encode n w @ rest) = (w :: 'a word)"
proof (rule bit_word_eqI)
  fix m assume m: "m < LENGTH('a)"
  then have "m div 8 < n" using assms by linarith
  then show "bit (le_decode n (le_encode n w @ rest) :: 'a word) m = bit w m"
    using m by (simp add: bit_le_decode nth_append bit_le_encode)
qed

lemma le_encode_decode:
  assumes "8 * n \<le> LENGTH('a::len)" "length bs = n"
  shows "le_encode n (le_decode n bs :: 'a word) = bs"
proof (rule nth_equalityI)
  fix i assume "i < length (le_encode n (le_decode n bs :: 'a word))"
  then have i: "i < n" by simp
  show "le_encode n (le_decode n bs :: 'a word) ! i = bs ! i"
  proof (rule bit_word_eqI)
    fix k assume k: "k < LENGTH(8)"
    then have "8 * i + k < LENGTH('a)" using assms i by simp
    then show "bit (le_encode n (le_decode n bs :: 'a word) ! i) k = bit (bs ! i) k"
      using i k by (simp add: bit_le_encode bit_le_decode)
  qed
qed (simp add: assms)

end
