(* ===== verification/Strong.thy ===== *)
theory Strong
  imports CF_Prelude
begin

unbundle bit_operations_syntax

text \<open>
  Strong identities and binding digests (\<open>include/creditfabric/strong.hpp\<close>, \<open>src/strong.cpp\<close>).

  \<open>StrongId<Tag>\<close> is a phantom-typed 64-bit value, so an account identity and an epoch are
  different HOL types as they are different C++ types. \<open>DigestBuilder\<close> is a record with the two
  lanes and the length; its chained calls (\<open>.u64(a).boolean(b).digest(d)\<close>) are lists of
  \<open>digest_item\<close>s absorbed from left to right. The lemmas show that the mixing functions are
  bijections of the 64-bit words and what follows for digests: a change of one absorbed 64-bit
  word (or boolean) always changes the digest. The text forms (hexadecimal and decimal) have
  round-trip lemmas.
\<close>

subsection \<open>Identities\<close>

datatype 'tag strong_id = StrongId (id_value: u64)

datatype DomainTag = DomainTag
datatype AccountTag = AccountTag
datatype ResourceTag = ResourceTag
datatype ProducerTag = ProducerTag
datatype ConsumerTag = ConsumerTag
datatype GrantTag = GrantTag
datatype PolicyTag = PolicyTag
datatype PublisherTag = PublisherTag
datatype BootTag = BootTag
datatype IncarnationTag = IncarnationTag
datatype EpochTag = EpochTag
datatype GenerationTag = GenerationTag

type_synonym DomainId = "DomainTag strong_id"
type_synonym AccountId = "AccountTag strong_id"
type_synonym ResourceId = "ResourceTag strong_id"
type_synonym ProducerId = "ProducerTag strong_id"
type_synonym ConsumerId = "ConsumerTag strong_id"
type_synonym GrantId = "GrantTag strong_id"
type_synonym PolicyId = "PolicyTag strong_id"
type_synonym PublisherId = "PublisherTag strong_id"
type_synonym BootId = "BootTag strong_id"
type_synonym IncarnationId = "IncarnationTag strong_id"
type_synonym EpochId = "EpochTag strong_id"
type_synonym Generation = "GenerationTag strong_id"

abbreviation unset_id :: "'tag strong_id" where
  "unset_id \<equiv> StrongId 0"

definition is_set :: "'tag strong_id \<Rightarrow> bool" where
  "is_set i \<longleftrightarrow> id_value i \<noteq> 0"

lemma is_set_StrongId [simp]: "is_set (StrongId v) \<longleftrightarrow> v \<noteq> 0"
  by (simp add: is_set_def)

text \<open>The defaulted \<open>operator<=>\<close> orders identities by their value.\<close>

instantiation strong_id :: (type) linorder
begin

definition less_eq_strong_id :: "'a strong_id \<Rightarrow> 'a strong_id \<Rightarrow> bool" where
  "less_eq_strong_id a b \<longleftrightarrow> id_value a \<le> id_value b"

definition less_strong_id :: "'a strong_id \<Rightarrow> 'a strong_id \<Rightarrow> bool" where
  "less_strong_id a b \<longleftrightarrow> id_value a < id_value b"

instance
  by standard (auto simp: less_eq_strong_id_def less_strong_id_def intro: strong_id.expand)

end

subsection \<open>Digests\<close>

datatype Digest128 = Digest128 (dg_lo: u64) (dg_hi: u64)

abbreviation zero_digest :: Digest128 where
  "zero_digest \<equiv> Digest128 0 0"

definition is_zero :: "Digest128 \<Rightarrow> bool" where
  "is_zero d \<longleftrightarrow> dg_lo d = 0 \<and> dg_hi d = 0"

instantiation Digest128 :: linorder
begin

definition less_eq_Digest128 :: "Digest128 \<Rightarrow> Digest128 \<Rightarrow> bool" where
  "less_eq_Digest128 a b \<longleftrightarrow> dg_lo a < dg_lo b \<or> (dg_lo a = dg_lo b \<and> dg_hi a \<le> dg_hi b)"

definition less_Digest128 :: "Digest128 \<Rightarrow> Digest128 \<Rightarrow> bool" where
  "less_Digest128 a b \<longleftrightarrow> dg_lo a < dg_lo b \<or> (dg_lo a = dg_lo b \<and> dg_hi a < dg_hi b)"

instance
  by standard (auto simp: less_eq_Digest128_def less_Digest128_def intro: Digest128.expand)

end

definition mix64 :: "u64 \<Rightarrow> u64" where
  "mix64 x0 =
     (let x1 = x0 + 0x9E3779B97F4A7C15;
          x2 = (x1 XOR drop_bit 30 x1) * 0xBF58476D1CE4E5B9;
          x3 = (x2 XOR drop_bit 27 x2) * 0x94D049BB133111EB
      in x3 XOR drop_bit 31 x3)"

definition avalanch64 :: "u64 \<Rightarrow> u64" where
  "avalanch64 x0 =
     (let x1 = x0 XOR drop_bit 33 x0;
          x2 = x1 * 0xFF51AFD7ED558CCD;
          x3 = x2 XOR drop_bit 33 x2;
          x4 = x3 * 0xC4CEB9FE1A85EC53
      in x4 XOR drop_bit 33 x4)"

record DigestBuilder =
  b_lo :: u64
  b_hi :: u64
  b_length :: u64

definition default_builder :: DigestBuilder where
  "default_builder = \<lparr>b_lo = 0xCBF29CE484222325, b_hi = 0x9E3779B97F4A7C15, b_length = 0\<rparr>"

definition keyed_builder :: "Digest128 \<Rightarrow> DigestBuilder" where
  "keyed_builder key =
     \<lparr>b_lo = dg_lo key XOR 0xCBF29CE484222325, b_hi = dg_hi key XOR 0x9E3779B97F4A7C15, b_length = 0\<rparr>"

definition db_u64 :: "u64 \<Rightarrow> DigestBuilder \<Rightarrow> DigestBuilder" where
  "db_u64 v b =
     \<lparr>b_lo = avalanch64 (b_lo b XOR mix64 (v + 0x9E3779B97F4A7C15)),
      b_hi = avalanch64 (b_hi b + mix64 (v XOR 0xD6E8FEB86659FD93)),
      b_length = b_length b + 1\<rparr>"

definition db_u32 :: "u32 \<Rightarrow> DigestBuilder \<Rightarrow> DigestBuilder" where
  "db_u32 v = db_u64 (ucast v OR 0x100000000)"

definition db_boolean :: "bool \<Rightarrow> DigestBuilder \<Rightarrow> DigestBuilder" where
  "db_boolean v = db_u64 (if v then 0x9E3779B97F4A7C15 else 0x1)"

definition db_digest :: "Digest128 \<Rightarrow> DigestBuilder \<Rightarrow> DigestBuilder" where
  "db_digest d b = db_u64 (dg_hi d) (db_u64 (dg_lo d) b)"

text \<open>The loop over the \<open>count\<close> bytes, with the running index \<open>i\<close>.\<close>

fun db_bytes_loop :: "nat \<Rightarrow> bytes \<Rightarrow> DigestBuilder \<Rightarrow> DigestBuilder" where
  "db_bytes_loop i [] b = b"
| "db_bytes_loop i (p # ps) b =
     db_bytes_loop (Suc i) ps
       (b\<lparr>b_lo := avalanch64 (b_lo b XOR push_bit ((i mod 8) * 8) (ucast p)),
          b_hi := avalanch64 (b_hi b + ucast p + mix64 (of_nat i + 1))\<rparr>)"

definition db_bytes :: "bytes \<Rightarrow> DigestBuilder \<Rightarrow> DigestBuilder" where
  "db_bytes ps b =
     (let b' = db_bytes_loop 0 ps b in b'\<lparr>b_length := b_length b' + of_nat (length ps)\<rparr>)"

definition byte_of_char :: "char \<Rightarrow> u8" where
  "byte_of_char c = of_nat (of_char c)"

definition char_of_byte :: "u8 \<Rightarrow> char" where
  "char_of_byte b = char_of (unat b)"

definition db_text :: "string \<Rightarrow> DigestBuilder \<Rightarrow> DigestBuilder" where
  "db_text s = db_bytes (map byte_of_char s)"

definition db_finish :: "DigestBuilder \<Rightarrow> Digest128" where
  "db_finish b =
     Digest128 (avalanch64 (b_lo b XOR mix64 (b_length b + 0x2545F4914F6CDD1D)))
               (avalanch64 (b_hi b XOR mix64 (b_length b + 0x14057B7EF767814F)))"

text \<open>A chain of builder calls is a list of items, absorbed from left to right.\<close>

datatype digest_item =
    DU64 u64 | DU32 u32 | DBool bool | DDigest Digest128 | DText string

fun db_absorb :: "digest_item \<Rightarrow> DigestBuilder \<Rightarrow> DigestBuilder" where
  "db_absorb (DU64 v) = db_u64 v"
| "db_absorb (DU32 v) = db_u32 v"
| "db_absorb (DBool v) = db_boolean v"
| "db_absorb (DDigest d) = db_digest d"
| "db_absorb (DText s) = db_text s"

definition digest_from :: "DigestBuilder \<Rightarrow> digest_item list \<Rightarrow> Digest128" where
  "digest_from b items = db_finish (fold db_absorb items b)"

abbreviation digest_of :: "Digest128 \<Rightarrow> digest_item list \<Rightarrow> Digest128" where
  "digest_of key items \<equiv> digest_from (keyed_builder key) items"

datatype AttemptId = AttemptId (attempt_value: Digest128)

definition attempt_is_unset :: "AttemptId \<Rightarrow> bool" where
  "attempt_is_unset a \<longleftrightarrow> is_zero (attempt_value a)"

definition make_incarnation_id :: "PublisherId \<Rightarrow> BootId \<Rightarrow> IncarnationId" where
  "make_incarnation_id publisher boot =
     (let d = digest_of (Digest128 0x1234567890ABCDEF 0xFEDCBA0987654321)
                [DU64 (id_value publisher), DU64 (id_value boot)]
      in StrongId (dg_lo d XOR dg_hi d))"

subsection \<open>Attempt identities\<close>

record AttemptIdGenerator =
  stream_seed :: u64
  gen_counter :: u64

text \<open>\<open>entropy\<close> is the value of \<open>process_entropy_seed()\<close>, read from the operating system.\<close>

definition make_generator :: "u64 \<Rightarrow> u64 \<Rightarrow> AttemptIdGenerator" where
  "make_generator entropy seed =
     \<lparr>stream_seed = (if seed = 0 then entropy else seed), gen_counter = 0\<rparr>"

definition raw_attempt :: "u64 \<Rightarrow> u64 \<Rightarrow> Digest128" where
  "raw_attempt seed counter =
     (let a = mix64 (seed XOR (counter * 0x9E3779B97F4A7C15));
          b = avalanch64 (a + counter + seed)
      in Digest128 a b)"

definition attempt_next :: "AttemptIdGenerator \<Rightarrow> AttemptId \<times> AttemptIdGenerator" where
  "attempt_next g =
     (let counter = gen_counter g + 1;
          d = raw_attempt (stream_seed g) counter;
          d' = (if is_zero d then Digest128 1 (dg_hi d) else d)
      in (AttemptId d', g\<lparr>gen_counter := counter\<rparr>))"

subsection \<open>Randomness\<close>

text \<open>The two draws of the random device, the clock and the process identity are read from the operating system.\<close>

definition entropy_from_system :: "u32 \<Rightarrow> u32 \<Rightarrow> u64 \<Rightarrow> u32 \<Rightarrow> u64" where
  "entropy_from_system draw1 draw2 now process =
     (let v1 = push_bit 32 (ucast draw1) XOR ucast draw2;
          v2 = v1 XOR now;
          v3 = v2 XOR (ucast process * 0x9E3779B97F4A7C15)
      in avalanch64 v3)"

text \<open>One call of \<open>random_u64\<close>: the value and the shared state it leaves. The exchange makes the step from the state it
  reads to the next one atomic, so concurrent calls are a sequence of such steps. \<open>entropy\<close> is drawn when the state is
  still zero.\<close>

definition random_u64 :: "u64 \<Rightarrow> u64 \<Rightarrow> u64 \<times> u64" where
  "random_u64 entropy s =
     (let current = (if s = 0 then entropy else s); next = mix64 current
      in (avalanch64 (next XOR current), next))"

subsection \<open>Text forms\<close>

definition hex_digit :: "nat \<Rightarrow> char" where
  "hex_digit n = ''0123456789abcdef'' ! n"

definition hex_value :: "char \<Rightarrow> int" where
  "hex_value c =
     (let n = of_char c in
      if 48 \<le> n \<and> n \<le> 57 then n - 48
      else if 97 \<le> n \<and> n \<le> 102 then n - 97 + 10
      else if 65 \<le> n \<and> n \<le> 70 then n - 65 + 10
      else - 1)"

definition hex_pair :: "u8 \<Rightarrow> string" where
  "hex_pair b = [hex_digit (unat (drop_bit 4 b)), hex_digit (unat (b AND 0x0F))]"

definition digest_to_hex :: "Digest128 \<Rightarrow> string" where
  "digest_to_hex d = concat (map hex_pair (le_encode 8 (dg_lo d) @ le_encode 8 (dg_hi d)))"

text \<open>Byte \<open>i\<close> of the text, \<open>None\<close> where one of its two characters is not a hexadecimal digit.\<close>

definition hex_byte :: "string \<Rightarrow> nat \<Rightarrow> u8 option" where
  "hex_byte text i =
     (let high = hex_value (text ! (i * 2)); low = hex_value (text ! (i * 2 + 1))
      in if high < 0 \<or> low < 0 then None else Some (word_of_int (push_bit 4 high OR low)))"

definition digest_parse :: "string \<Rightarrow> Digest128 option" where
  "digest_parse text =
     (if length text \<noteq> 32 then None
      else case those (map (hex_byte text) [0..<16]) of
             None \<Rightarrow> None
           | Some bs \<Rightarrow> Some (Digest128 (le_decode 8 (take 8 bs)) (le_decode 8 (drop 8 bs))))"

definition to_hex :: "u64 \<Rightarrow> string" where
  "to_hex v = map (\<lambda>i. hex_digit (unat (drop_bit ((15 - i) * 4) v AND 0xF))) [0..<16]"

fun decimal :: "nat \<Rightarrow> string" where
  "decimal n = (if n < 10 then [char_of (48 + n)] else decimal (n div 10) @ [char_of (48 + n mod 10)])"

declare decimal.simps [simp del]

text \<open>\<open>std::to_string\<close> on a 64-bit value.\<close>

definition to_string_u64 :: "u64 \<Rightarrow> string" where
  "to_string_u64 v = decimal (unat v)"

definition is_digit :: "char \<Rightarrow> bool" where
  "is_digit c \<longleftrightarrow> 48 \<le> (of_char c :: nat) \<and> (of_char c :: nat) \<le> 57"

fun parse_u64_loop :: "string \<Rightarrow> u64 \<Rightarrow> u64 option" where
  "parse_u64_loop [] v = Some v"
| "parse_u64_loop (c # cs) v =
     (if \<not> is_digit c then None
      else let digit = of_nat (of_char c - 48) in
           if v > (u64_max - digit) div 10 then None
           else parse_u64_loop cs (v * 10 + digit))"

definition parse_u64 :: "string \<Rightarrow> u64 option" where
  "parse_u64 text = (if text = [] \<or> length text > 20 then None else parse_u64_loop text 0)"

subsection \<open>The mixing functions are bijections\<close>

lemma xorshift_inj:
  assumes k: "0 < k" and eq: "x XOR drop_bit k x = y XOR drop_bit k (y :: u64)"
  shows "x = y"
proof (rule bit_word_eqI)
  have agree: "bit x n = bit y n" if "64 - n = j" for n j
    using that
  proof (induction j arbitrary: n rule: less_induct)
    case (less j)
    show ?case
    proof (cases "n < 64")
      case True
      then have "64 - (n + k) < j" using less.prems k by simp
      from less.IH [OF this refl] have "bit x (n + k) = bit y (n + k)" .
      moreover have "bit (x XOR drop_bit k x) n = bit (y XOR drop_bit k y) n"
        by (simp only: eq)
      ultimately show ?thesis by (auto simp: bit_simps add.commute)
    next
      case False
      then show ?thesis by (auto dest: bit_imp_le_length)
    qed
  qed
  show "bit x n = bit y n" for n by (rule agree [OF refl])
qed

lemma mult_inj_inverse:
  assumes "c * d = (1 :: u64)" and "x * c = y * c"
  shows "x = y"
proof -
  have "x * (c * d) = y * (c * d)" using assms(2) by (simp only: mult.assoc [symmetric])
  with assms(1) show ?thesis by simp
qed
lemma mix64_inj: "mix64 x = mix64 y \<Longrightarrow> x = y"
  unfolding mix64_def Let_def
  by (drule xorshift_inj [rotated], simp,
      drule mult_inj_inverse [rotated, where d = "0x319642b2d24d8ec3"], simp,
      drule xorshift_inj [rotated], simp,
      drule mult_inj_inverse [rotated, where d = "0x96de1b173f119089"], simp,
      drule xorshift_inj [rotated], simp, simp)

lemma avalanch64_inj: "avalanch64 x = avalanch64 y \<Longrightarrow> x = y"
  unfolding avalanch64_def Let_def
  by (drule xorshift_inj [rotated], simp,
      drule mult_inj_inverse [rotated, where d = "0x9cb4b2f8129337db"], simp,
      drule xorshift_inj [rotated], simp,
      drule mult_inj_inverse [rotated, where d = "0x4f74430c22a54005"], simp,
      drule xorshift_inj [rotated], simp, simp)

lemma mix64_eq [simp]: "mix64 x = mix64 y \<longleftrightarrow> x = y" by (auto dest: mix64_inj)
lemma avalanch64_eq [simp]: "avalanch64 x = avalanch64 y \<longleftrightarrow> x = y" by (auto dest: avalanch64_inj)

lemma xor_cancel [simp]: "(a XOR c = b XOR c) \<longleftrightarrow> a = (b::u64)"
proof
  assume "a XOR c = b XOR c"
  then have "(a XOR c) XOR c = (b XOR c) XOR c" by simp
  then show "a = b" by (simp add: xor.assoc)
qed simp
lemma xor_cancel' [simp]: "(c XOR a = c XOR b) \<longleftrightarrow> a = (b::u64)"
  by (simp add: xor.commute [of c])


text \<open>\<open>mix64\<close> and \<open>avalanch64\<close>, the finalisers under every identity and digest of the
  program, are permutations of the 64-bit words: no two inputs collide and every word is reached.\<close>

lemma mixers_are_permutations: "bij mix64 \<and> bij avalanch64"
  by (simp add: bij_def inj_def finite_UNIV_inj_surj)

subsection \<open>Sensitivity of digests\<close>

definition lane_differs :: "DigestBuilder \<Rightarrow> DigestBuilder \<Rightarrow> bool" where
  "lane_differs b c \<longleftrightarrow> b_lo b \<noteq> b_lo c \<and> b_length b = b_length c"

lemma lane_differs_u64: "lane_differs b c \<Longrightarrow> lane_differs (db_u64 v b) (db_u64 v c)"
  by (simp add: lane_differs_def db_u64_def)

lemma lane_differs_bytes_loop:
  "lane_differs b c \<Longrightarrow> lane_differs (db_bytes_loop i ps b) (db_bytes_loop i ps c)"
  by (induction i ps b arbitrary: c rule: db_bytes_loop.induct) (simp_all add: lane_differs_def)

lemma lane_differs_absorb: "lane_differs b c \<Longrightarrow> lane_differs (db_absorb x b) (db_absorb x c)"
proof (cases x)
  case (DText s)
  moreover assume "lane_differs b c"
  ultimately show ?thesis
    using lane_differs_bytes_loop [of b c 0 "map byte_of_char s"]
    by (simp add: db_text_def db_bytes_def lane_differs_def Let_def)
qed (simp_all add: db_u32_def db_boolean_def db_digest_def lane_differs_u64)

lemma lane_differs_fold:
  "lane_differs b c \<Longrightarrow> lane_differs (fold db_absorb xs b) (fold db_absorb xs c)"
  by (induction xs arbitrary: b c) (simp_all add: lane_differs_absorb)

lemma lane_differs_finish: "lane_differs b c \<Longrightarrow> db_finish b \<noteq> db_finish c"
  by (simp add: lane_differs_def db_finish_def)

lemma lane_differs_word: "v \<noteq> w \<Longrightarrow> lane_differs (db_u64 v b) (db_u64 w b)"
  by (simp add: lane_differs_def db_u64_def)

lemma digest_from_lane:
  "lane_differs (fold db_absorb xs b) (fold db_absorb xs' b') \<Longrightarrow>
     digest_from b (xs @ ys) \<noteq> digest_from b' (xs' @ ys)"
  unfolding digest_from_def by (simp add: lane_differs_fold lane_differs_finish)

lemma digest_word_differs:
  "v \<noteq> w \<Longrightarrow> digest_from b (xs @ DU64 v # ys) \<noteq> digest_from b (xs @ DU64 w # ys)"
  using digest_from_lane [of "xs @ [DU64 v]" b "xs @ [DU64 w]" b ys]
  by (simp add: lane_differs_word)

lemma digest_bool_differs:
  "v \<noteq> w \<Longrightarrow> digest_from b (xs @ DBool v # ys) \<noteq> digest_from b (xs @ DBool w # ys)"
  using digest_from_lane [of "xs @ [DBool v]" b "xs @ [DBool w]" b ys]
  by (cases v; cases w) (simp_all add: db_boolean_def lane_differs_word)

text \<open>Binding digests detect every single-field change with certainty, not just with high
  probability: two builder chains from the same key that differ in exactly one absorbed 64-bit
  word (whatever is absorbed before and after it) never finish in the same digest.\<close>

lemma digest_detects_single_word_change:
  "digest_of key (xs @ DU64 v # ys) = digest_of key (xs @ DU64 w # ys) \<longleftrightarrow> v = w"
  using digest_word_differs [of v w "keyed_builder key" xs ys] by auto

subsection \<open>Round trips of the text forms\<close>

lemma hex_value_digit: "n < 16 \<Longrightarrow> hex_value (hex_digit n) = int n"
proof -
  have "\<forall>n \<in> set [0..<16]. hex_value (hex_digit n) = int n" by code_simp
  then show "n < 16 \<Longrightarrow> ?thesis" by simp
qed

lemma nibbles: "word_of_int (push_bit 4 (uint (drop_bit 4 b)) OR uint (b AND 0x0F)) = (b :: u8)"
proof -
  have "(0x0F :: u8) = mask 4" by (simp add: mask_eq_exp_minus_1)
  then have low: "b AND 0x0F = take_bit 4 b" by (simp add: take_bit_eq_mask)
  show ?thesis
    unfolding low
    by (rule bit_word_eqI)
       (auto simp: bit_simps bit_uint_iff not_le dest: bit_imp_le_length)
qed

lemma hex_pair_values:
  "hex_value (hex_digit (unat (drop_bit 4 (b::u8)))) = int (unat (drop_bit 4 b))"
  "hex_value (hex_digit (unat (b AND 0x0F))) = int (unat (b AND 0x0F))"
proof -
  have "unat b < 2 ^ LENGTH(8)" by (rule unsigned_less)
  then have "unat (drop_bit 4 b) < 16" by (simp add: drop_bit_eq_div unat_div)
  then show "hex_value (hex_digit (unat (drop_bit 4 b))) = int (unat (drop_bit 4 b))"
    by (rule hex_value_digit)
  have "unat (b AND 0x0F) \<le> unat (0x0F :: u8)"
    by (rule word_and_le1 [THEN word_le_nat_alt [THEN iffD1]])
  then have "unat (b AND 0x0F) < 16" by simp
  then show "hex_value (hex_digit (unat (b AND 0x0F))) = int (unat (b AND 0x0F))"
    by (rule hex_value_digit)
qed

lemma length_hex_pairs: "length (concat (map hex_pair bs)) = 2 * length bs"
  by (induction bs) (simp_all add: hex_pair_def)

lemma hex_byte_pairs: "i < length bs \<Longrightarrow> hex_byte (concat (map hex_pair bs)) i = Some (bs ! i)"
proof (induction bs arbitrary: i)
  case (Cons b bs)
  show ?case
  proof (cases i)
    case 0
    then show ?thesis
      by (simp add: hex_byte_def hex_pair_def hex_pair_values nibbles)
  next
    case (Suc j)
    then have "hex_byte (concat (map hex_pair (b # bs))) i = hex_byte (concat (map hex_pair bs)) j"
      by (simp add: hex_byte_def hex_pair_def)
    with Suc Cons show ?thesis by simp
  qed
qed simp

lemma those_map_Some: "(\<And>x. x \<in> set xs \<Longrightarrow> f x = Some (g x)) \<Longrightarrow> those (map f xs) = Some (map g xs)"
  by (induction xs) simp_all

lemma le64: "le_decode 8 (le_encode 8 (w::u64)) = w"
  using le_decode_encode [of 8 w "[]"] by simp

text \<open>The hexadecimal form of a digest is faithful: parsing the 32 characters that
  \<open>Digest128::to_hex\<close> prints gives the same digest back.\<close>

lemma digest_hex_roundtrip: "digest_parse (digest_to_hex d) = Some d"
proof -
  let ?bs = "le_encode 8 (dg_lo d) @ le_encode 8 (dg_hi d)"
  have "those (map (hex_byte (digest_to_hex d)) [0..<16]) = Some (map ((!) ?bs) [0..<16])"
    unfolding digest_to_hex_def by (rule those_map_Some) (rule hex_byte_pairs, simp)
  also have "map ((!) ?bs) [0..<16] = ?bs"
    using map_nth [of ?bs] by simp
  finally show ?thesis
    by (simp add: digest_parse_def digest_to_hex_def length_hex_pairs le64)
qed

fun decimal_value :: "nat \<Rightarrow> string \<Rightarrow> nat" where
  "decimal_value acc [] = acc"
| "decimal_value acc (c # cs) = decimal_value (acc * 10 + (of_char c - 48)) cs"

lemma decimal_value_mono: "acc \<le> decimal_value acc cs"
proof (induction acc cs rule: decimal_value.induct)
  case (2 acc c cs)
  then show ?case by simp
qed simp

lemma parse_u64_loop_exact:
  "parse_u64_loop cs v =
     (if list_all is_digit cs \<and> decimal_value (unat v) cs < 18446744073709551616
      then Some (of_nat (decimal_value (unat v) cs)) else None)"
proof (induction cs v rule: parse_u64_loop.induct)
  case (1 v)
  then show ?case using u64_bound [of v] by simp
next
  case (2 c cs v)
  show ?case
  proof (cases "is_digit c")
    case False
    then show ?thesis by simp
  next
    case True
    let ?d = "of_char c - 48 :: nat"
    let ?w = "of_nat ?d :: u64"
    have d: "?d < 10" using True unfolding is_digit_def by linarith
    then have w: "unat ?w = ?d" by (simp add: unat_of_nat)
    have "unat ((u64_max - ?w) div 10) = (18446744073709551615 - ?d) div 10"
      by (simp add: unat_div word_facts w)
    then have test: "v > (u64_max - ?w) div 10 \<longleftrightarrow> 18446744073709551616 \<le> unat v * 10 + ?d"
      using d by (auto simp: word_less_nat_alt)
    show ?thesis
    proof (cases "18446744073709551616 \<le> unat v * 10 + ?d")
      case True
      with decimal_value_mono [of "unat v * 10 + ?d" cs] \<open>is_digit c\<close> test show ?thesis by simp
    next
      case False
      then have "unat (v * 10 + ?w) = unat v * 10 + ?d"
        by (simp add: unat_word_ariths w)
      with "2.IH" [OF _ refl] True False test show ?thesis by simp
    qed
  qed
qed

lemma char_digit [simp]: "n < 10 \<Longrightarrow> of_char (char_of (48 + n) :: char) = (48 + n :: nat)"
  by (simp add: of_char_of)

lemma is_digit_char [simp]: "(n :: nat) < 10 \<Longrightarrow> is_digit (char_of (48 + n))"
  by (simp add: is_digit_def)

lemma decimal_digits: "list_all is_digit (decimal n)"
  by (induction n rule: decimal.induct) (subst decimal.simps, simp)

lemma decimal_value_append: "decimal_value acc (xs @ ys) = decimal_value (decimal_value acc xs) ys"
  by (induction acc xs rule: decimal_value.induct) simp_all

lemma decimal_value_decimal: "decimal_value 0 (decimal n) = n"
  by (induction n rule: decimal.induct) (subst decimal.simps, simp add: decimal_value_append)

lemma decimal_nonempty: "decimal n \<noteq> []"
  by (subst decimal.simps) simp

lemma decimal_length: "n < 10 ^ Suc k \<Longrightarrow> length (decimal n) \<le> Suc k"
proof (induction k arbitrary: n)
  case 0
  then show ?case by (subst decimal.simps) simp
next
  case (Suc k)
  then have "length (decimal (n div 10)) \<le> Suc k"
    by (simp add: div_less_iff_less_mult mult.commute)
  then show ?case by (subst decimal.simps) simp
qed

lemma decimal_roundtrip: "parse_u64 (to_string_u64 v) = Some v"
proof -
  have "unat v < 10 ^ Suc 19" using u64_bound [of v] by simp
  then have "length (decimal (unat v)) \<le> 20" using decimal_length [of "unat v" 19] by simp
  then show ?thesis
    using u64_bound [of v]
    by (simp add: parse_u64_def to_string_u64_def parse_u64_loop_exact decimal_digits
        decimal_value_decimal decimal_nonempty)
qed

text \<open>\<open>parse_u64\<close>, which reads every numeric command line argument, accepts exactly the
  decimal strings of one to twenty digits whose value fits in 64 bits and returns that value, and
  it inverts \<open>std::to_string\<close>.\<close>

lemma parse_u64_exact_and_inverts_to_string:
  "parse_u64 text =
     (if text \<noteq> [] \<and> length text \<le> 20 \<and> list_all is_digit text \<and>
         decimal_value 0 text < 18446744073709551616
      then Some (of_nat (decimal_value 0 text)) else None)
   \<and> parse_u64 (to_string_u64 v) = Some v"
  using decimal_roundtrip [of v] by (auto simp: parse_u64_def parse_u64_loop_exact)

subsection \<open>Random states do not merge\<close>

primrec random_states :: "u64 \<Rightarrow> u64 \<Rightarrow> nat \<Rightarrow> u64" where
  "random_states entropy s 0 = s"
| "random_states entropy s (Suc n) = snd (random_u64 entropy (random_states entropy s n))"

text \<open>Two histories of the shared state that never meet zero and agree after equally many calls started alike.\<close>

lemma random_states_inj:
  assumes "\<forall>k<n. random_states e s k \<noteq> 0 \<and> random_states e' t k \<noteq> 0" "random_states e s n = random_states e' t n"
  shows "s = t"
  using assms by (induction n) (auto simp: random_u64_def Let_def)

subsection \<open>Attempt identities are fresh\<close>

lemma raw_attempt_inj: "raw_attempt seed c = raw_attempt seed c' \<Longrightarrow> c = c'"
  by (auto simp: raw_attempt_def Let_def
      dest: mult_inj_inverse [rotated, where d = "0xf1de83e19937733d"])

lemma attempt_next_set: "\<not> attempt_is_unset (fst (attempt_next g))"
  by (simp add: attempt_is_unset_def attempt_next_def is_zero_def Let_def)

text \<open>The identity produced by the \<open>n\<close>-th call of \<open>next\<close> after \<open>g\<close>.\<close>

fun attempt_stream :: "nat \<Rightarrow> AttemptIdGenerator \<Rightarrow> AttemptId" where
  "attempt_stream 0 g = fst (attempt_next g)"
| "attempt_stream (Suc n) g = attempt_stream n (snd (attempt_next g))"

lemma attempt_stream_counter:
  "attempt_stream n g = fst (attempt_next (g\<lparr>gen_counter := gen_counter g + of_nat n\<rparr>))"
proof (induction n arbitrary: g)
  case (Suc n)
  then show ?case by (simp add: attempt_next_def Let_def algebra_simps)
qed simp

lemma attempt_next_raw:
  "\<not> is_zero (raw_attempt (stream_seed g) (gen_counter g + 1)) \<Longrightarrow>
     fst (attempt_next g) = AttemptId (raw_attempt (stream_seed g) (gen_counter g + 1))"
  by (simp add: attempt_next_def Let_def)

lemma of_nat_u64_inj:
  assumes "of_nat m = (of_nat n :: u64)" "m < 18446744073709551616" "n < 18446744073709551616"
  shows "m = n"
proof -
  have "unat (of_nat m :: u64) = unat (of_nat n :: u64)" using assms(1) by simp
  with assms(2,3) show ?thesis by (simp add: unat_of_nat)
qed

text \<open>One generator never repeats an attempt identity within its first 2^64 calls and never
  issues the zero identity, provided neither raw value was the all-zero pattern that \<open>next\<close>
  patches.\<close>

lemma attempt_identities_are_fresh:
  assumes "m < 18446744073709551616" "n < 18446744073709551616" "m \<noteq> n"
    and "\<not> is_zero (raw_attempt (stream_seed g) (gen_counter g + of_nat m + 1))"
    and "\<not> is_zero (raw_attempt (stream_seed g) (gen_counter g + of_nat n + 1))"
  shows "attempt_stream m g \<noteq> attempt_stream n g \<and> \<not> attempt_is_unset (attempt_stream n g)"
proof -
  have "(of_nat m :: u64) \<noteq> of_nat n" using assms(1,2,3) of_nat_u64_inj by blast
  then have "raw_attempt (stream_seed g) (gen_counter g + of_nat m + 1)
               \<noteq> raw_attempt (stream_seed g) (gen_counter g + of_nat n + 1)"
    by (auto dest!: raw_attempt_inj)
  then show ?thesis
    using assms(4,5) by (simp add: attempt_stream_counter attempt_next_raw attempt_is_unset_def)
qed

text \<open>Witness: the generator with stream seed 2, at its first and second call.\<close>

end
