(* ===== verification/Status.thy ===== *)
theory Status
  imports Strong
begin

text \<open>
  Refusal reasons and status values (\<open>include/creditfabric/status.hpp\<close>, \<open>src/status.cpp\<close>). The
  X-macro list of the header is the datatype \<open>Reason\<close>; \<open>reason_value\<close> is the durable numeric
  value of an enumerator and \<open>reason_of_value\<close> the cast back from a validated raw value.
\<close>

datatype Reason =
    Ok
  | UnknownState
  | ReconciliationRequired
  | StaleAuthority
  | StaleEvidence
  | FencedIncarnation
  | UnknownIncarnation
  | IncarnationNotReconciled
  | StaleReplay
  | SequenceGap
  | AttemptConflict
  | DuplicateAttempt
  | AttemptUnknown
  | AccountUnknown
  | AccountExists
  | AccountClosed
  | DomainMismatch
  | ResourceMismatch
  | ProducerMismatch
  | ConsumerMismatch
  | GrantMismatch
  | PolicyRefused
  | ProfileNotSupported
  | InsufficientAvailable
  | InsufficientOutstanding
  | InsufficientProtected
  | CapacityExceeded
  | CapacityShrinkViolation
  | CapacityOutOfRange
  | CountZero
  | CountOverflow
  | ExhaustedHard
  | NotExhausted
  | NothingToRetire
  | InvalidState
  | MalformedMessage
  | UnsupportedVersion
  | OversizedFrame
  | ChecksumMismatch
  | TruncatedInput
  | JournalCorrupt
  | JournalTorn
  | JournalVersionUnsupported
  | JournalDigestMismatch
  | IoError
  | TransportError
  | ConnectionLimitReached
  | ShutdownInProgress
  | Cancelled
  | BudgetExceeded
  | Unsupported
  | NotOperator
  | InternalError

primrec reason_value :: "Reason \<Rightarrow> nat" where
    "reason_value Ok = 0"
  | "reason_value UnknownState = 1"
  | "reason_value ReconciliationRequired = 2"
  | "reason_value StaleAuthority = 3"
  | "reason_value StaleEvidence = 4"
  | "reason_value FencedIncarnation = 5"
  | "reason_value UnknownIncarnation = 6"
  | "reason_value IncarnationNotReconciled = 7"
  | "reason_value StaleReplay = 8"
  | "reason_value SequenceGap = 9"
  | "reason_value AttemptConflict = 10"
  | "reason_value DuplicateAttempt = 11"
  | "reason_value AttemptUnknown = 12"
  | "reason_value AccountUnknown = 13"
  | "reason_value AccountExists = 14"
  | "reason_value AccountClosed = 15"
  | "reason_value DomainMismatch = 16"
  | "reason_value ResourceMismatch = 17"
  | "reason_value ProducerMismatch = 18"
  | "reason_value ConsumerMismatch = 19"
  | "reason_value GrantMismatch = 20"
  | "reason_value PolicyRefused = 21"
  | "reason_value ProfileNotSupported = 22"
  | "reason_value InsufficientAvailable = 23"
  | "reason_value InsufficientOutstanding = 24"
  | "reason_value InsufficientProtected = 25"
  | "reason_value CapacityExceeded = 26"
  | "reason_value CapacityShrinkViolation = 27"
  | "reason_value CapacityOutOfRange = 28"
  | "reason_value CountZero = 29"
  | "reason_value CountOverflow = 30"
  | "reason_value ExhaustedHard = 31"
  | "reason_value NotExhausted = 32"
  | "reason_value NothingToRetire = 33"
  | "reason_value InvalidState = 34"
  | "reason_value MalformedMessage = 35"
  | "reason_value UnsupportedVersion = 36"
  | "reason_value OversizedFrame = 37"
  | "reason_value ChecksumMismatch = 38"
  | "reason_value TruncatedInput = 39"
  | "reason_value JournalCorrupt = 40"
  | "reason_value JournalTorn = 41"
  | "reason_value JournalVersionUnsupported = 42"
  | "reason_value JournalDigestMismatch = 43"
  | "reason_value IoError = 44"
  | "reason_value TransportError = 45"
  | "reason_value ConnectionLimitReached = 46"
  | "reason_value ShutdownInProgress = 47"
  | "reason_value Cancelled = 48"
  | "reason_value BudgetExceeded = 49"
  | "reason_value Unsupported = 50"
  | "reason_value NotOperator = 51"
  | "reason_value InternalError = 52"

text \<open>The enumerators in the order of their values.\<close>

definition all_reasons :: "Reason list" where
  "all_reasons =
     [Ok, UnknownState, ReconciliationRequired, StaleAuthority,
      StaleEvidence, FencedIncarnation, UnknownIncarnation, IncarnationNotReconciled,
      StaleReplay, SequenceGap, AttemptConflict, DuplicateAttempt,
      AttemptUnknown, AccountUnknown, AccountExists, AccountClosed,
      DomainMismatch, ResourceMismatch, ProducerMismatch, ConsumerMismatch,
      GrantMismatch, PolicyRefused, ProfileNotSupported, InsufficientAvailable,
      InsufficientOutstanding, InsufficientProtected, CapacityExceeded, CapacityShrinkViolation,
      CapacityOutOfRange, CountZero, CountOverflow, ExhaustedHard,
      NotExhausted, NothingToRetire, InvalidState, MalformedMessage,
      UnsupportedVersion, OversizedFrame, ChecksumMismatch, TruncatedInput,
      JournalCorrupt, JournalTorn, JournalVersionUnsupported, JournalDigestMismatch,
      IoError, TransportError, ConnectionLimitReached, ShutdownInProgress,
      Cancelled, BudgetExceeded, Unsupported, NotOperator,
      InternalError]"

definition kReasonCount :: nat where
  "kReasonCount = 53"

definition is_valid_reason :: "u16 \<Rightarrow> bool" where
  "is_valid_reason raw \<longleftrightarrow> unat raw < kReasonCount"

definition reason_of_value :: "nat \<Rightarrow> Reason" where
  "reason_of_value raw = all_reasons ! raw"

primrec reason_to_string :: "Reason \<Rightarrow> string" where
    "reason_to_string Ok = ''Ok''"
  | "reason_to_string UnknownState = ''UnknownState''"
  | "reason_to_string ReconciliationRequired = ''ReconciliationRequired''"
  | "reason_to_string StaleAuthority = ''StaleAuthority''"
  | "reason_to_string StaleEvidence = ''StaleEvidence''"
  | "reason_to_string FencedIncarnation = ''FencedIncarnation''"
  | "reason_to_string UnknownIncarnation = ''UnknownIncarnation''"
  | "reason_to_string IncarnationNotReconciled = ''IncarnationNotReconciled''"
  | "reason_to_string StaleReplay = ''StaleReplay''"
  | "reason_to_string SequenceGap = ''SequenceGap''"
  | "reason_to_string AttemptConflict = ''AttemptConflict''"
  | "reason_to_string DuplicateAttempt = ''DuplicateAttempt''"
  | "reason_to_string AttemptUnknown = ''AttemptUnknown''"
  | "reason_to_string AccountUnknown = ''AccountUnknown''"
  | "reason_to_string AccountExists = ''AccountExists''"
  | "reason_to_string AccountClosed = ''AccountClosed''"
  | "reason_to_string DomainMismatch = ''DomainMismatch''"
  | "reason_to_string ResourceMismatch = ''ResourceMismatch''"
  | "reason_to_string ProducerMismatch = ''ProducerMismatch''"
  | "reason_to_string ConsumerMismatch = ''ConsumerMismatch''"
  | "reason_to_string GrantMismatch = ''GrantMismatch''"
  | "reason_to_string PolicyRefused = ''PolicyRefused''"
  | "reason_to_string ProfileNotSupported = ''ProfileNotSupported''"
  | "reason_to_string InsufficientAvailable = ''InsufficientAvailable''"
  | "reason_to_string InsufficientOutstanding = ''InsufficientOutstanding''"
  | "reason_to_string InsufficientProtected = ''InsufficientProtected''"
  | "reason_to_string CapacityExceeded = ''CapacityExceeded''"
  | "reason_to_string CapacityShrinkViolation = ''CapacityShrinkViolation''"
  | "reason_to_string CapacityOutOfRange = ''CapacityOutOfRange''"
  | "reason_to_string CountZero = ''CountZero''"
  | "reason_to_string CountOverflow = ''CountOverflow''"
  | "reason_to_string ExhaustedHard = ''ExhaustedHard''"
  | "reason_to_string NotExhausted = ''NotExhausted''"
  | "reason_to_string NothingToRetire = ''NothingToRetire''"
  | "reason_to_string InvalidState = ''InvalidState''"
  | "reason_to_string MalformedMessage = ''MalformedMessage''"
  | "reason_to_string UnsupportedVersion = ''UnsupportedVersion''"
  | "reason_to_string OversizedFrame = ''OversizedFrame''"
  | "reason_to_string ChecksumMismatch = ''ChecksumMismatch''"
  | "reason_to_string TruncatedInput = ''TruncatedInput''"
  | "reason_to_string JournalCorrupt = ''JournalCorrupt''"
  | "reason_to_string JournalTorn = ''JournalTorn''"
  | "reason_to_string JournalVersionUnsupported = ''JournalVersionUnsupported''"
  | "reason_to_string JournalDigestMismatch = ''JournalDigestMismatch''"
  | "reason_to_string IoError = ''IoError''"
  | "reason_to_string TransportError = ''TransportError''"
  | "reason_to_string ConnectionLimitReached = ''ConnectionLimitReached''"
  | "reason_to_string ShutdownInProgress = ''ShutdownInProgress''"
  | "reason_to_string Cancelled = ''Cancelled''"
  | "reason_to_string BudgetExceeded = ''BudgetExceeded''"
  | "reason_to_string Unsupported = ''Unsupported''"
  | "reason_to_string NotOperator = ''NotOperator''"
  | "reason_to_string InternalError = ''InternalError''"

datatype ReasonClass =
    Success | Authority | Replay | Accounting | Input | Durability | Lifecycle

text \<open>\<open>NotOperator\<close> has no case of its own in the switch and takes the return after it.\<close>

primrec classify_reason :: "Reason \<Rightarrow> ReasonClass" where
    "classify_reason Ok = Success"
  | "classify_reason UnknownState = Authority"
  | "classify_reason ReconciliationRequired = Authority"
  | "classify_reason StaleAuthority = Authority"
  | "classify_reason StaleEvidence = Authority"
  | "classify_reason FencedIncarnation = Authority"
  | "classify_reason UnknownIncarnation = Authority"
  | "classify_reason IncarnationNotReconciled = Authority"
  | "classify_reason StaleReplay = Replay"
  | "classify_reason SequenceGap = Replay"
  | "classify_reason AttemptConflict = Replay"
  | "classify_reason DuplicateAttempt = Replay"
  | "classify_reason AttemptUnknown = Replay"
  | "classify_reason AccountUnknown = Authority"
  | "classify_reason AccountExists = Authority"
  | "classify_reason AccountClosed = Authority"
  | "classify_reason DomainMismatch = Authority"
  | "classify_reason ResourceMismatch = Authority"
  | "classify_reason ProducerMismatch = Authority"
  | "classify_reason ConsumerMismatch = Authority"
  | "classify_reason GrantMismatch = Authority"
  | "classify_reason PolicyRefused = Accounting"
  | "classify_reason ProfileNotSupported = Accounting"
  | "classify_reason InsufficientAvailable = Accounting"
  | "classify_reason InsufficientOutstanding = Accounting"
  | "classify_reason InsufficientProtected = Accounting"
  | "classify_reason CapacityExceeded = Accounting"
  | "classify_reason CapacityShrinkViolation = Accounting"
  | "classify_reason CapacityOutOfRange = Accounting"
  | "classify_reason CountZero = Accounting"
  | "classify_reason CountOverflow = Accounting"
  | "classify_reason ExhaustedHard = Accounting"
  | "classify_reason NotExhausted = Accounting"
  | "classify_reason NothingToRetire = Accounting"
  | "classify_reason InvalidState = Accounting"
  | "classify_reason MalformedMessage = Input"
  | "classify_reason UnsupportedVersion = Input"
  | "classify_reason OversizedFrame = Input"
  | "classify_reason ChecksumMismatch = Input"
  | "classify_reason TruncatedInput = Input"
  | "classify_reason JournalCorrupt = Durability"
  | "classify_reason JournalTorn = Durability"
  | "classify_reason JournalVersionUnsupported = Durability"
  | "classify_reason JournalDigestMismatch = Durability"
  | "classify_reason IoError = Durability"
  | "classify_reason TransportError = Lifecycle"
  | "classify_reason ConnectionLimitReached = Lifecycle"
  | "classify_reason ShutdownInProgress = Lifecycle"
  | "classify_reason Cancelled = Lifecycle"
  | "classify_reason BudgetExceeded = Lifecycle"
  | "classify_reason Unsupported = Input"
  | "classify_reason NotOperator = Lifecycle"
  | "classify_reason InternalError = Lifecycle"

subsection \<open>Status\<close>

record Status =
  reason :: Reason
  detail :: u64

abbreviation success :: Status where
  "success \<equiv> \<lparr>reason = Ok, detail = 0\<rparr>"

abbreviation refused :: "Reason \<Rightarrow> u64 \<Rightarrow> Status" where
  "refused r d \<equiv> \<lparr>reason = r, detail = d\<rparr>"

definition status_ok :: "Status \<Rightarrow> bool" where
  "status_ok s \<longleftrightarrow> reason s = Ok"

definition status_describe :: "Status \<Rightarrow> string" where
  "status_describe s =
     (if reason s = Ok then ''ok''
      else reason_to_string (reason s) @
           (if detail s \<noteq> 0 then '' (detail='' @ to_string_u64 (detail s) @ '')'' else []))"

lemma status_ok_simps [simp]:
  "status_ok success" "status_ok (refused r d) \<longleftrightarrow> r = Ok"
  by (simp_all add: status_ok_def)

lemma not_status_ok_reason: "\<not> status_ok s \<Longrightarrow> reason s \<noteq> Ok"
  by (simp add: status_ok_def)

subsection \<open>The numbering is a bijection with the valid raw values\<close>

lemma all_reasons_length [simp]: "length all_reasons = 53"
  by (simp add: all_reasons_def)

lemma reason_value_bound [simp]: "reason_value r < 53"
  by (cases r) simp_all

lemma reason_of_value_inverse [simp]: "reason_of_value (reason_value r) = r"
  by (cases r) (simp_all add: reason_of_value_def all_reasons_def)

lemma reason_value_of_value:
  assumes "n < 53" shows "reason_value (reason_of_value n) = n"
proof -
  have "map reason_value all_reasons = [0..<53]" by code_simp
  then have "map reason_value all_reasons ! n = [0..<53] ! n" by simp
  with assms show ?thesis by (simp add: reason_of_value_def)
qed

lemma reason_value_inj: "reason_value r = reason_value s \<Longrightarrow> r = s"
  by (metis reason_of_value_inverse)

lemma reason_raw_roundtrip:
  "is_valid_reason (of_nat (reason_value r))"
  "reason_of_value (unat (of_nat (reason_value r) :: u16)) = r"
proof -
  have "unat (of_nat (reason_value r) :: u16) = reason_value r"
    using less_trans [OF reason_value_bound [of r], of 65536] by (simp add: unat_of_nat)
  then show "is_valid_reason (of_nat (reason_value r))"
    "reason_of_value (unat (of_nat (reason_value r) :: u16)) = r"
    by (simp_all add: is_valid_reason_def kReasonCount_def)
qed

lemma all_reasons_complete: "r \<in> set all_reasons"
  by (cases r) (simp_all add: all_reasons_def)

lemma reason_to_string_inj: "reason_to_string r = reason_to_string s \<Longrightarrow> r = s"
proof -
  have "distinct (map reason_to_string all_reasons)" by code_simp
  then have "inj_on reason_to_string (set all_reasons)" by (simp add: distinct_map)
  then show "reason_to_string r = reason_to_string s \<Longrightarrow> r = s"
    by (auto dest: inj_onD simp: all_reasons_complete)
qed

end
