(* ===== verification/Platform.thy ===== *)
theory Platform
  imports Status Strong
begin

text \<open>
  The platform surface (\<open>include/creditfabric/platform.hpp\<close>, \<open>src/platform.cpp\<close>, POSIX branches) over
  a model of the C file functions it calls. A file world holds the contents of the files by path, the
  directories, and a schedule of faults: the \<open>n\<close>-th library call completes when the schedule has
  \<open>None\<close> for \<open>n\<close>, and otherwise fails, a transfer after at most the given number of bytes. A stream
  is its path; positions are explicit, since every use of a stream seeks first. File offsets and the
  sizes of objects in memory are below \<open>2 ^ 63\<close>, so offsets are naturals and their sums do not wrap.
\<close>

subsection \<open>Files\<close>

record file_world =
  fw_files :: "(string, bytes) fmap"
  fw_dirs :: "string fset"
  fw_fault :: "nat \<Rightarrow> nat option"
  fw_clock :: nat

definition fw_tick :: "file_world \<Rightarrow> nat option \<times> file_world" where
  "fw_tick w = (fw_fault w (fw_clock w), w\<lparr>fw_clock := Suc (fw_clock w)\<rparr>)"

definition fw_content :: "string \<Rightarrow> file_world \<Rightarrow> bytes" where
  "fw_content path w = (case fmlookup (fw_files w) path of None \<Rightarrow> [] | Some bs \<Rightarrow> bs)"

definition fw_put :: "string \<Rightarrow> bytes \<Rightarrow> file_world \<Rightarrow> file_world" where
  "fw_put path bs w = w\<lparr>fw_files := fmupd path bs (fw_files w)\<rparr>"

text \<open>A call that moves no data: \<open>fseek\<close>, \<open>ftell\<close>, \<open>fflush\<close>, \<open>fileno\<close>, \<open>fsync\<close>.\<close>

definition libc_call :: "file_world \<Rightarrow> bool \<times> file_world" where
  "libc_call w = (case fw_tick w of (f, w1) \<Rightarrow> (f = None, w1))"

datatype open_mode = OpenRead | OpenUpdate | OpenCreate

definition libc_fopen :: "string \<Rightarrow> open_mode \<Rightarrow> file_world \<Rightarrow> bool \<times> file_world" where
  "libc_fopen path mode w =
     (case fw_tick w of
        (Some _, w1) \<Rightarrow> (False, w1)
      | (None, w1) \<Rightarrow>
          (case mode of
             OpenCreate \<Rightarrow> (True, fw_put path [] w1)
           | _ \<Rightarrow> (fmlookup (fw_files w1) path \<noteq> None, w1)))"

definition libc_fread :: "string \<Rightarrow> nat \<Rightarrow> nat \<Rightarrow> file_world \<Rightarrow> bytes \<times> file_world" where
  "libc_fread path pos n w =
     (case fw_tick w of
        (f, w1) \<Rightarrow>
          let got = take n (drop pos (fw_content path w1)) in
          (case f of None \<Rightarrow> got | Some k \<Rightarrow> take k got, w1))"

definition overwrite :: "nat \<Rightarrow> bytes \<Rightarrow> bytes \<Rightarrow> bytes" where
  "overwrite pos bs old =
     take pos old @ replicate (pos - length old) 0 @ bs @ drop (pos + length bs) old"

definition libc_fwrite :: "string \<Rightarrow> nat \<Rightarrow> bytes \<Rightarrow> file_world \<Rightarrow> nat \<times> file_world" where
  "libc_fwrite path pos bs w =
     (case fw_tick w of
        (f, w1) \<Rightarrow>
          let out = (case f of None \<Rightarrow> bs | Some k \<Rightarrow> take (min k (length bs - 1)) bs) in
          (length out, fw_put path (overwrite pos out (fw_content path w1)) w1))"

definition libc_ftruncate :: "string \<Rightarrow> nat \<Rightarrow> file_world \<Rightarrow> bool \<times> file_world" where
  "libc_ftruncate path keep w =
     (case fw_tick w of
        (Some _, w1) \<Rightarrow> (False, w1)
      | (None, w1) \<Rightarrow>
          let old = fw_content path w1 in
          (True, fw_put path (take keep old @ replicate (keep - length old) 0) w1))"

definition libc_rename :: "string \<Rightarrow> string \<Rightarrow> file_world \<Rightarrow> bool \<times> file_world" where
  "libc_rename source destination w =
     (case fw_tick w of
        (Some _, w1) \<Rightarrow> (False, w1)
      | (None, w1) \<Rightarrow>
          (case fmlookup (fw_files w1) source of
             None \<Rightarrow> (False, w1)
           | Some bs \<Rightarrow>
               (True, w1\<lparr>fw_files := fmupd destination bs (fmdrop source (fw_files w1))\<rparr>)))"

definition libc_remove :: "string \<Rightarrow> file_world \<Rightarrow> bool \<times> file_world" where
  "libc_remove path w =
     (case fw_tick w of
        (Some _, w1) \<Rightarrow> (False, w1)
      | (None, w1) \<Rightarrow> (fmlookup (fw_files w1) path \<noteq> None, w1\<lparr>fw_files := fmdrop path (fw_files w1)\<rparr>))"

definition libc_mkdir :: "string \<Rightarrow> file_world \<Rightarrow> bool \<times> file_world" where
  "libc_mkdir path w =
     (case fw_tick w of
        (Some _, w1) \<Rightarrow> (False, w1)
      | (None, w1) \<Rightarrow> (path |\<notin>| fw_dirs w1, w1\<lparr>fw_dirs := finsert path (fw_dirs w1)\<rparr>))"

subsection \<open>platform.cpp\<close>

definition durable_flush :: "bool \<Rightarrow> file_world \<Rightarrow> Status \<times> file_world" where
  "durable_flush stream w =
     (if \<not> stream then (refused InvalidState 0, w)
      else case libc_call w of
        (flushed, w1) \<Rightarrow>
          if \<not> flushed then (refused IoError 0, w1)
          else case libc_call w1 of
            (descriptor, w2) \<Rightarrow>
              if \<not> descriptor then (refused IoError 0, w2)
              else case libc_call w2 of
                (synced, w3) \<Rightarrow> if \<not> synced then (refused IoError 0, w3) else (success, w3))"

text \<open>After the rename the containing directory is opened, synchronised and closed; every result is
  ignored.\<close>

definition atomic_replace_file :: "string \<Rightarrow> string \<Rightarrow> file_world \<Rightarrow> Status \<times> file_world" where
  "atomic_replace_file source destination w =
     (case libc_rename source destination w of
        (renamed, w1) \<Rightarrow>
          if \<not> renamed then (refused IoError 0, w1)
          else case libc_call w1 of
            (opened, w2) \<Rightarrow> (success, if opened then snd (libc_call w2) else w2))"

definition file_exists :: "string \<Rightarrow> file_world \<Rightarrow> bool \<times> file_world" where
  "file_exists path w = libc_fopen path OpenRead w"

definition remove_file :: "string \<Rightarrow> file_world \<Rightarrow> Status \<times> file_world" where
  "remove_file path w =
     (case file_exists path w of
        (found, w1) \<Rightarrow>
          if \<not> found then (success, w1)
          else case libc_remove path w1 of
            (removed, w2) \<Rightarrow> (if removed then success else refused IoError 0, w2))"

definition file_size :: "string \<Rightarrow> file_world \<Rightarrow> (Status + nat) \<times> file_world" where
  "file_size path w =
     (case libc_fopen path OpenRead w of
        (opened, w1) \<Rightarrow>
          if \<not> opened then (Inl (refused IoError 0), w1)
          else case libc_call w1 of
            (sought, w2) \<Rightarrow>
              if \<not> sought then (Inl (refused IoError 0), w2)
              else case libc_call w2 of
                (told, w3) \<Rightarrow>
                  if \<not> told then (Inl (refused IoError 0), w3)
                  else (Inr (length (fw_content path w3)), w3))"

definition directory_exists :: "string \<Rightarrow> file_world \<Rightarrow> bool \<times> file_world" where
  "directory_exists path w =
     (case fw_tick w of (f, w1) \<Rightarrow> (f = None \<and> path |\<in>| fw_dirs w1, w1))"

definition is_slash :: "char \<Rightarrow> bool" where
  "is_slash c \<longleftrightarrow> c = CHR ''/'' \<or> c = CHR 0x5C"

text \<open>\<open>path.find_last_of\<close> and the prefix before it: \<open>None\<close> for \<open>npos\<close>.\<close>

definition parent_directory :: "string \<Rightarrow> string option" where
  "parent_directory path =
     (let tail = takeWhile (\<lambda>c. \<not> is_slash c) (rev path) in
      if length tail = length path then None
      else Some (take (length path - Suc (length tail)) path))"

definition ensure_parent_directory :: "string \<Rightarrow> file_world \<Rightarrow> Status \<times> file_world" where
  "ensure_parent_directory path w =
     (case parent_directory path of
        None \<Rightarrow> (success, w)
      | Some directory \<Rightarrow>
          if directory = [] then (success, w)
          else case directory_exists directory w of
            (found, w1) \<Rightarrow>
              if found then (success, w1)
              else case libc_mkdir directory w1 of
                (made, w2) \<Rightarrow>
                  if made then (success, w2)
                  else case directory_exists directory w2 of
                    (now, w3) \<Rightarrow> (if now then success else refused IoError 0, w3))"

definition make_boot_id :: "u64 \<Rightarrow> u64 \<Rightarrow> u64" where
  "make_boot_id random millis = mix64 (random XOR millis)"

subsection \<open>Which files a call leaves alone\<close>

definition same_files :: "file_world \<Rightarrow> file_world \<Rightarrow> bool" where
  "same_files w w' \<longleftrightarrow> fw_files w' = fw_files w \<and> fw_fault w' = fw_fault w"

definition same_but :: "string \<Rightarrow> file_world \<Rightarrow> file_world \<Rightarrow> bool" where
  "same_but path w w' \<longleftrightarrow>
     (\<forall>p. p \<noteq> path \<longrightarrow> fmlookup (fw_files w') p = fmlookup (fw_files w) p) \<and> fw_fault w' = fw_fault w"

lemma same_files_refl [simp]: "same_files w w"
  by (simp add: same_files_def)

lemma same_files_trans: "same_files u v \<Longrightarrow> same_files v w \<Longrightarrow> same_files u w"
  by (simp add: same_files_def)

lemma same_but_trans: "same_but p u v \<Longrightarrow> same_but p v w \<Longrightarrow> same_but p u w"
  by (simp add: same_but_def)

lemma same_files_but: "same_files u v \<Longrightarrow> same_but p u v"
  by (simp add: same_files_def same_but_def)

lemma same_files_content: "same_files u v \<Longrightarrow> fw_content p v = fw_content p u"
  by (simp add: same_files_def fw_content_def)

lemma same_but_content: "same_but p u v \<Longrightarrow> q \<noteq> p \<Longrightarrow> fw_content q v = fw_content q u"
  by (simp add: same_but_def fw_content_def)

lemma libc_call_same: "libc_call w = (b, w') \<Longrightarrow> same_files w w'"
  by (auto simp: libc_call_def fw_tick_def same_files_def)

lemma fopen_read_same: "libc_fopen p OpenRead w = (b, w') \<Longrightarrow> same_files w w'"
  "libc_fopen p OpenUpdate w = (b, w') \<Longrightarrow> same_files w w'"
  by (auto simp: libc_fopen_def fw_tick_def same_files_def split: option.splits)

lemma fread_same: "libc_fread p k n w = (bs, w') \<Longrightarrow> same_files w w'"
  by (auto simp: libc_fread_def fw_tick_def same_files_def Let_def)

lemma durable_flush_same: "durable_flush s w = (st, w') \<Longrightarrow> same_files w w'"
  by (auto simp: durable_flush_def dest!: libc_call_same intro: same_files_trans split: if_splits prod.splits)

lemma file_exists_same: "file_exists p w = (b, w') \<Longrightarrow> same_files w w'"
  by (auto simp: file_exists_def dest: fopen_read_same)

lemma ensure_parent_same: "ensure_parent_directory p w = (s, w') \<Longrightarrow> same_files w w'"
  by (auto simp: ensure_parent_directory_def directory_exists_def libc_mkdir_def fw_tick_def same_files_def
      split: option.splits if_splits prod.splits)

lemma fwrite_same_but: "libc_fwrite p k bs w = (n, w') \<Longrightarrow> same_but p w w'"
  by (auto simp: libc_fwrite_def fw_tick_def fw_put_def same_but_def Let_def)

lemma create_same_but: "libc_fopen p OpenCreate w = (b, w') \<Longrightarrow> same_but p w w'"
  by (auto simp: libc_fopen_def fw_tick_def fw_put_def same_but_def split: option.splits)

lemma remove_same_but: "remove_file p w = (s, w') \<Longrightarrow> same_but p w w'"
  by (auto simp: remove_file_def libc_remove_def fw_tick_def same_but_def same_files_def
      dest!: file_exists_same split: option.splits if_splits prod.splits)

lemma truncate_same_but: "libc_ftruncate p n w = (b, w') \<Longrightarrow> same_but p w w'"
  by (auto simp: libc_ftruncate_def fw_tick_def fw_put_def same_but_def Let_def split: option.splits)

text \<open>A write that reports all its bytes has written them.\<close>

lemma fwrite_all:
  assumes "libc_fwrite p k bs w = (n, w')" "n = length bs"
  shows "fw_content p w' = overwrite k bs (fw_content p w)"
  using assms
  by (cases bs) (auto simp: libc_fwrite_def fw_tick_def fw_put_def fw_content_def Let_def split: option.splits)

lemma take_length_take: "take (length (take m xs)) xs = take m xs"
  by (simp add: min_def)

lemma fwrite_some:
  assumes "libc_fwrite p k bs w = (n, w')"
  shows "fw_content p w' = overwrite k (take n bs) (fw_content p w)" "n \<le> length bs"
proof -
  obtain m where "n = length (take m bs)" "fw_content p w' = overwrite k (take m bs) (fw_content p w)"
  proof (cases "fw_fault w (fw_clock w)")
    case None
    then show thesis
      using assms that [of "length bs"] by (auto simp: libc_fwrite_def fw_tick_def fw_put_def fw_content_def)
  next
    case (Some f)
    then show thesis
      using assms that [of "min f (length bs - 1)"]
      by (auto simp: libc_fwrite_def fw_tick_def fw_put_def fw_content_def Let_def)
  qed
  then show "fw_content p w' = overwrite k (take n bs) (fw_content p w)" "n \<le> length bs"
    by (simp_all only: take_length_take) simp
qed

lemma overwrite_end: "k = length old \<Longrightarrow> overwrite k bs old = old @ bs"
  by (simp add: overwrite_def)

end
