(* ===== verification/Checked.thy ===== *)
theory Checked
  imports CF_Prelude
begin

text \<open>
  Checked integer arithmetic (\<open>include/creditfabric/checked.hpp\<close>). The C++ primitives return a
  flag and write the result through a reference; here they return the pair (flag, result).
  The results say that the flag is raised exactly when the exact natural-number result does not
  fit in 64 bits, and that \<open>CheckedAccumulator\<close> either holds the exact result of every operation
  applied to it or has latched its first failure.
\<close>

definition add_overflow :: "u64 \<Rightarrow> u64 \<Rightarrow> bool \<times> u64" where
  "add_overflow a b = (let out = a + b in (out < a, out))"

definition sub_overflow :: "u64 \<Rightarrow> u64 \<Rightarrow> bool \<times> u64" where
  "sub_overflow a b = (if b > a then (True, 0) else (False, a - b))"

definition mul_overflow :: "u64 \<Rightarrow> u64 \<Rightarrow> bool \<times> u64" where
  "mul_overflow a b =
     (if a = 0 \<or> b = 0 then (False, 0)
      else if a > u64_max div b then (True, 0)
      else (False, a * b))"

definition saturating_add :: "u64 \<Rightarrow> u64 \<Rightarrow> u64" where
  "saturating_add a b = (if b > u64_max - a then u64_max else a + b)"

subsection \<open>The accumulator\<close>

record CheckedAccumulator =
  acc_value :: u64
  acc_ok :: bool
  acc_under :: bool

definition make_accumulator :: "u64 \<Rightarrow> CheckedAccumulator" where
  "make_accumulator initial = \<lparr>acc_value = initial, acc_ok = True, acc_under = False\<rparr>"

definition acc_overflowed :: "CheckedAccumulator \<Rightarrow> bool" where
  "acc_overflowed c \<longleftrightarrow> \<not> acc_ok c \<and> \<not> acc_under c"

definition acc_underflowed :: "CheckedAccumulator \<Rightarrow> bool" where
  "acc_underflowed c \<longleftrightarrow> \<not> acc_ok c \<and> acc_under c"

definition acc_add :: "u64 \<Rightarrow> CheckedAccumulator \<Rightarrow> bool \<times> CheckedAccumulator" where
  "acc_add v c =
     (if \<not> acc_ok c then (False, c)
      else let (over, nxt) = add_overflow (acc_value c) v
           in if over then (False, c\<lparr>acc_ok := False\<rparr>) else (True, c\<lparr>acc_value := nxt\<rparr>))"

definition acc_sub :: "u64 \<Rightarrow> CheckedAccumulator \<Rightarrow> bool \<times> CheckedAccumulator" where
  "acc_sub v c =
     (if \<not> acc_ok c then (False, c)
      else let (under, nxt) = sub_overflow (acc_value c) v
           in if under then (False, c\<lparr>acc_ok := False, acc_under := True\<rparr>)
              else (True, c\<lparr>acc_value := nxt\<rparr>))"

definition acc_mul :: "u64 \<Rightarrow> CheckedAccumulator \<Rightarrow> bool \<times> CheckedAccumulator" where
  "acc_mul v c =
     (if \<not> acc_ok c then (False, c)
      else let (over, nxt) = mul_overflow (acc_value c) v
           in if over then (False, c\<lparr>acc_ok := False\<rparr>) else (True, c\<lparr>acc_value := nxt\<rparr>))"

definition acc_reset :: "u64 \<Rightarrow> CheckedAccumulator \<Rightarrow> CheckedAccumulator" where
  "acc_reset v c = c\<lparr>acc_value := v, acc_ok := True, acc_under := False\<rparr>"

subsection \<open>Exactness of the primitives\<close>

lemma add_overflow_flag: "fst (add_overflow a b) \<longleftrightarrow> 18446744073709551616 \<le> unat a + unat b"
  by (simp add: add_overflow_def Let_def add_wraps_iff)

lemma add_overflow_exact:
  "\<not> fst (add_overflow a b) \<Longrightarrow> unat (snd (add_overflow a b)) = unat a + unat b"
  using add_wraps_iff [of a b] by (auto simp: add_overflow_def Let_def unat_add_u64)

lemma add_overflow_cases [consumes 0, case_names over exact]:
  obtains (over) "add_overflow a b = (True, a + b)" "18446744073709551616 \<le> unat a + unat b"
  | (exact) "add_overflow a b = (False, a + b)" "unat (a + b) = unat a + unat b"
proof (cases "fst (add_overflow a b)")
  case True
  then have "add_overflow a b = (True, a + b)" "18446744073709551616 \<le> unat a + unat b"
    by (auto simp: add_overflow_def Let_def add_wraps_iff)
  then show ?thesis by (rule over)
next
  case False
  then have "add_overflow a b = (False, a + b)" "unat (a + b) = unat a + unat b"
    using add_overflow_exact [of a b] by (auto simp: add_overflow_def Let_def)
  then show ?thesis by (rule exact)
qed

lemma add_overflow_small [simp]:
  "unat a + unat b < 18446744073709551616 \<Longrightarrow> add_overflow a b = (False, a + b)"
  by (simp add: add_overflow_def Let_def add_wraps_iff)

lemma add_overflow_big:
  "18446744073709551616 \<le> unat a + unat b \<Longrightarrow> add_overflow a b = (True, a + b)"
  by (simp add: add_overflow_def Let_def add_wraps_iff)

lemma sub_overflow_flag: "fst (sub_overflow a b) \<longleftrightarrow> unat a < unat b"
  by (simp add: sub_overflow_def word_less_nat_alt)

lemma sub_overflow_exact:
  "\<not> fst (sub_overflow a b) \<Longrightarrow> unat (snd (sub_overflow a b)) = unat a - unat b"
  by (auto simp: sub_overflow_def word_le_nat_alt word_less_nat_alt word_facts split: if_splits)

lemma mul_overflow_flag:
  "fst (mul_overflow a b) \<longleftrightarrow> 18446744073709551616 \<le> unat a * unat b"
proof (cases "a = 0 \<or> b = 0")
  case True
  then show ?thesis by (auto simp: mul_overflow_def)
next
  case False
  then have b: "0 < unat b" by (simp add: u64_nonzero)
  have "unat (u64_max div b) = 18446744073709551615 div unat b"
    by (simp add: unat_div)
  then have "a > u64_max div b \<longleftrightarrow> 18446744073709551615 div unat b < unat a"
    by (simp add: word_less_nat_alt)
  also have "\<dots> \<longleftrightarrow> 18446744073709551615 < unat a * unat b"
    using b by (simp add: div_less_iff_less_mult)
  finally show ?thesis
    using False by (auto simp: mul_overflow_def)
qed

lemma mul_overflow_exact:
  assumes "\<not> fst (mul_overflow a b)"
  shows "unat (snd (mul_overflow a b)) = unat a * unat b"
proof (cases "a = 0 \<or> b = 0")
  case True
  then show ?thesis by (auto simp: mul_overflow_def)
next
  case False
  have "unat a * unat b < 18446744073709551616"
    using assms by (simp add: mul_overflow_flag)
  then have "unat (a * b) = unat a * unat b"
    by (simp add: unat_word_ariths)
  with False assms show ?thesis by (auto simp: mul_overflow_def split: if_splits)
qed

lemma saturating_add_exact:
  "unat (saturating_add a b) = min (unat a + unat b) 18446744073709551615"
proof -
  have "unat (u64_max - a) = 18446744073709551615 - unat a"
    by (simp add: word_facts)
  then show ?thesis
    using u64_bound [of a] by (auto simp: saturating_add_def word_less_nat_alt unat_add_u64)
qed

subsection \<open>Sequences of accumulator operations\<close>

datatype acc_op = Acc_Add u64 | Acc_Sub u64 | Acc_Mul u64

fun acc_step :: "acc_op \<Rightarrow> CheckedAccumulator \<Rightarrow> bool \<times> CheckedAccumulator" where
  "acc_step (Acc_Add v) c = acc_add v c"
| "acc_step (Acc_Sub v) c = acc_sub v c"
| "acc_step (Acc_Mul v) c = acc_mul v c"

definition acc_run :: "acc_op list \<Rightarrow> CheckedAccumulator \<Rightarrow> CheckedAccumulator" where
  "acc_run ops c = fold (\<lambda>oper c. snd (acc_step oper c)) ops c"

text \<open>The reference semantics: exact arithmetic on naturals that stops at the first result that
  is negative or does not fit in 64 bits.\<close>

fun exact_step :: "acc_op \<Rightarrow> nat \<Rightarrow> nat option" where
  "exact_step (Acc_Add v) n = (if n + unat v < 18446744073709551616 then Some (n + unat v) else None)"
| "exact_step (Acc_Sub v) n = (if unat v \<le> n then Some (n - unat v) else None)"
| "exact_step (Acc_Mul v) n = (if n * unat v < 18446744073709551616 then Some (n * unat v) else None)"

fun exact_run :: "acc_op list \<Rightarrow> nat \<Rightarrow> nat option" where
  "exact_run [] n = Some n"
| "exact_run (oper # ops) n = (case exact_step oper n of None \<Rightarrow> None | Some m \<Rightarrow> exact_run ops m)"

lemma acc_step_exact:
  assumes "acc_ok c"
  shows "(case exact_step oper (unat (acc_value c)) of
            None \<Rightarrow> \<not> acc_ok (snd (acc_step oper c)) \<and> acc_value (snd (acc_step oper c)) = acc_value c
          | Some m \<Rightarrow> acc_ok (snd (acc_step oper c)) \<and> unat (acc_value (snd (acc_step oper c))) = m)"
proof (cases oper)
  case (Acc_Add v)
  then show ?thesis
    using assms add_overflow_flag [of "acc_value c" v] add_overflow_exact [of "acc_value c" v]
    by (auto simp: acc_add_def split: prod.splits)
next
  case (Acc_Sub v)
  then show ?thesis
    using assms sub_overflow_flag [of "acc_value c" v] sub_overflow_exact [of "acc_value c" v]
    by (auto simp: acc_sub_def split: prod.splits)
next
  case (Acc_Mul v)
  then show ?thesis
    using assms mul_overflow_flag [of "acc_value c" v] mul_overflow_exact [of "acc_value c" v]
    by (auto simp: acc_mul_def split: prod.splits)
qed

lemma acc_step_latched: "\<not> acc_ok c \<Longrightarrow> snd (acc_step oper c) = c"
  by (cases oper) (simp_all add: acc_add_def acc_sub_def acc_mul_def)

lemma acc_run_latched: "\<not> acc_ok c \<Longrightarrow> acc_run ops c = c"
  by (induction ops) (simp_all add: acc_run_def acc_step_latched)

lemma acc_run_exact:
  "acc_ok c \<Longrightarrow>
     (case exact_run ops (unat (acc_value c)) of
        None \<Rightarrow> \<not> acc_ok (acc_run ops c)
      | Some m \<Rightarrow> acc_ok (acc_run ops c) \<and> unat (acc_value (acc_run ops c)) = m)"
proof (induction ops arbitrary: c)
  case Nil
  then show ?case by (simp add: acc_run_def)
next
  case (Cons oper ops)
  have run: "acc_run (oper # ops) c = acc_run ops (snd (acc_step oper c))"
    by (simp add: acc_run_def)
  show ?case
  proof (cases "exact_step oper (unat (acc_value c))")
    case None
    with acc_step_exact [OF Cons.prems, of oper] have "\<not> acc_ok (snd (acc_step oper c))"
      by simp
    then show ?thesis using None by (simp add: run acc_run_latched)
  next
    case (Some m)
    with acc_step_exact [OF Cons.prems, of oper]
    have "acc_ok (snd (acc_step oper c))" "unat (acc_value (snd (acc_step oper c))) = m"
      by simp_all
    with Cons.IH [of "snd (acc_step oper c)"] Some show ?thesis
      by (simp add: run split: option.splits)
  qed
qed

text \<open>A \<open>CheckedAccumulator\<close> built from any 64-bit value and driven by any sequence of \<open>add\<close>,
  \<open>sub\<close> and \<open>mul\<close> calls computes exact integer arithmetic: it is still ok at the end exactly
  when no intermediate result underflowed or left the 64-bit range, and then its value is the
  exact natural-number result; otherwise it has latched the failure.\<close>

lemma accumulator_refines_exact_arithmetic:
  "(case exact_run ops (unat v) of
      None \<Rightarrow> \<not> acc_ok (acc_run ops (make_accumulator v))
    | Some m \<Rightarrow> acc_ok (acc_run ops (make_accumulator v)) \<and>
                unat (acc_value (acc_run ops (make_accumulator v))) = m)"
  using acc_run_exact [of "make_accumulator v" ops] by (simp add: make_accumulator_def)

end
