(* ===== verification/Ledger.thy ===== *)
theory Ledger
  imports Checked Status
begin

text \<open>
  The accounting core (\<open>include/creditfabric/ledger.hpp\<close>, \<open>src/ledger.cpp\<close>): committed counters,
  the derived view, the closure check and \<open>LedgerPlan\<close> with its ten mutators. A mutator returns
  the C++ boolean and the plan after the call; early returns are the branches of the model.

  The second half states what an account promises, on naturals: a pool whose capacity is split
  into available, protected, outstanding, spent and stale credit (\<open>pool\<close>, \<open>pool_step\<close>), and shows
  that every mutator is exactly that step, refusal reasons included (\<open>plan_step_refines\<close>).
\<close>

subsection \<open>Counters and view\<close>

record CreditTotals =
  issued :: u64
  consumed :: u64
  returned :: u64
  stale :: u64
  spent :: u64
  protected_credits :: u64

definition zero_totals :: CreditTotals where
  "zero_totals = \<lparr>issued = 0, consumed = 0, returned = 0, stale = 0, spent = 0, protected_credits = 0\<rparr>"

record CreditView =
  v_capacity :: u64
  v_issued :: u64
  v_consumed :: u64
  v_returned :: u64
  v_stale :: u64
  v_spent :: u64
  v_protected :: u64
  v_in_flight :: u64
  v_outstanding :: u64
  v_quarantined :: u64
  v_available :: u64
  v_closed :: bool

definition zero_view :: CreditView where
  "zero_view =
     \<lparr>v_capacity = 0, v_issued = 0, v_consumed = 0, v_returned = 0, v_stale = 0, v_spent = 0,
      v_protected = 0, v_in_flight = 0, v_outstanding = 0, v_quarantined = 0, v_available = 0,
      v_closed = False\<rparr>"

definition exhausted :: "CreditView \<Rightarrow> bool" where
  "exhausted v \<longleftrightarrow> v_available v = 0"

definition fill_derived :: "CreditView \<Rightarrow> CreditView" where
  "fill_derived view0 =
     (let view = view0\<lparr>v_closed := False\<rparr> in
      if v_returned view > v_issued view then view
      else
        let view = view\<lparr>v_in_flight := v_issued view - v_returned view\<rparr>;
            (over, reserved) = add_overflow (v_spent view) (v_stale view)
        in if over then view
        else if reserved > v_in_flight view then view
        else
          let view = view\<lparr>v_outstanding := v_in_flight view - reserved, v_quarantined := v_stale view\<rparr>;
              (over, claimed) = add_overflow (v_protected view) (v_in_flight view)
          in if over then view
          else if claimed > v_capacity view then view
          else view\<lparr>v_available := v_capacity view - claimed, v_closed := True\<rparr>)"

definition compute_view :: "u64 \<Rightarrow> CreditTotals \<Rightarrow> CreditView" where
  "compute_view capacity totals =
     (let view = fill_derived
            (zero_view\<lparr>v_capacity := capacity, v_issued := issued totals, v_consumed := consumed totals,
               v_returned := returned totals, v_stale := stale totals, v_spent := spent totals,
               v_protected := protected_credits totals\<rparr>)
      in if \<not> v_closed view
         then view\<lparr>v_in_flight := 0, v_outstanding := 0, v_quarantined := v_stale view, v_available := 0\<rparr>
         else view)"

definition check_invariants :: "u64 \<Rightarrow> CreditTotals \<Rightarrow> Status" where
  "check_invariants capacity totals =
     (if returned totals > issued totals then refused InvalidState 4
      else
        let in_flight = issued totals - returned totals;
            (over, reserved) = add_overflow (spent totals) (stale totals)
        in if over then refused CountOverflow 3
        else if reserved > in_flight then refused InvalidState 3
        else
          let (over, claimed) = add_overflow (protected_credits totals) in_flight
          in if over then refused CountOverflow 5
          else if claimed > capacity then refused InvalidState 6
          else success)"

definition view_digest :: "CreditView \<Rightarrow> Digest128" where
  "view_digest v =
     digest_of (Digest128 0x1F2E3D4C5B6A7988 0x88796A5B4C3D2E1F)
       [DU64 (v_capacity v), DU64 (v_issued v), DU64 (v_consumed v), DU64 (v_returned v),
        DU64 (v_stale v), DU64 (v_spent v), DU64 (v_protected v), DU64 (v_in_flight v),
        DU64 (v_outstanding v), DU64 (v_available v), DBool (v_closed v)]"

definition view_to_string :: "CreditView \<Rightarrow> string" where
  "view_to_string v =
     ''capacity='' @ to_string_u64 (v_capacity v) @
     '' available='' @ to_string_u64 (v_available v) @
     '' issued='' @ to_string_u64 (v_issued v) @
     '' in_flight='' @ to_string_u64 (v_in_flight v) @
     '' spendable='' @ to_string_u64 (v_outstanding v) @
     '' spent='' @ to_string_u64 (v_spent v) @
     '' consumed='' @ to_string_u64 (v_consumed v) @
     '' returned='' @ to_string_u64 (v_returned v) @
     '' protected='' @ to_string_u64 (v_protected v) @
     '' quarantined='' @ to_string_u64 (v_quarantined v) @
     '' closed='' @ (if v_closed v then ''yes'' else ''no'')"

subsection \<open>The plan\<close>

record LedgerPlan =
  p_capacity :: u64
  p_totals :: CreditTotals
  p_status :: Status

definition make_plan :: "u64 \<Rightarrow> CreditTotals \<Rightarrow> LedgerPlan" where
  "make_plan capacity current =
     \<lparr>p_capacity = capacity, p_totals = current, p_status = check_invariants capacity current\<rparr>"

abbreviation plan_valid :: "LedgerPlan \<Rightarrow> bool" where
  "plan_valid p \<equiv> status_ok (p_status p)"

definition plan_view :: "LedgerPlan \<Rightarrow> CreditView" where
  "plan_view p = compute_view (p_capacity p) (p_totals p)"

text \<open>\<open>status_ = Status::refused(r, d); return false;\<close>\<close>

definition plan_refuse :: "Reason \<Rightarrow> u64 \<Rightarrow> LedgerPlan \<Rightarrow> bool \<times> LedgerPlan" where
  "plan_refuse r d p = (False, p\<lparr>p_status := refused r d\<rparr>)"

definition obligation_floor :: "LedgerPlan \<Rightarrow> u64" where
  "obligation_floor p =
     (let t = p_totals p;
          in_flight = (if returned t \<le> issued t then issued t - returned t else 0)
      in saturating_add (protected_credits t) in_flight)"

definition plan_commit :: "CreditTotals \<Rightarrow> LedgerPlan \<Rightarrow> bool \<times> LedgerPlan" where
  "plan_commit candidate p =
     (if \<not> plan_valid p then (False, p)
      else
        let verdict = check_invariants (p_capacity p) candidate
        in if \<not> status_ok verdict then (False, p\<lparr>p_status := verdict\<rparr>)
           else (True, p\<lparr>p_totals := candidate\<rparr>))"

definition plan_issue :: "u64 \<Rightarrow> u64 \<Rightarrow> u64 \<Rightarrow> LedgerPlan \<Rightarrow> bool \<times> LedgerPlan" where
  "plan_issue count min_issue max_issue p =
     (if \<not> plan_valid p then (False, p)
      else if count = 0 then plan_refuse CountZero 0 p
      else if count < min_issue \<or> count > max_issue then plan_refuse PolicyRefused count p
      else
        let current = plan_view p in
        if v_available current < count then plan_refuse InsufficientAvailable (v_available current) p
        else
          let (over, new_issued) = add_overflow (issued (p_totals p)) count in
          if over then plan_refuse CountOverflow new_issued p
          else plan_commit ((p_totals p)\<lparr>issued := new_issued\<rparr>) p)"

definition plan_consume :: "u64 \<Rightarrow> LedgerPlan \<Rightarrow> bool \<times> LedgerPlan" where
  "plan_consume count p =
     (if \<not> plan_valid p then (False, p)
      else if count = 0 then plan_refuse CountZero 0 p
      else
        let current = plan_view p in
        if v_outstanding current < count
        then plan_refuse InsufficientOutstanding (v_outstanding current) p
        else
          let (over, new_spent) = add_overflow (spent (p_totals p)) count in
          if over then plan_refuse CountOverflow new_spent p
          else
            let (over, new_consumed) = add_overflow (consumed (p_totals p)) count in
            if over then plan_refuse CountOverflow new_consumed p
            else plan_commit ((p_totals p)\<lparr>spent := new_spent, consumed := new_consumed\<rparr>) p)"

definition plan_give_back :: "u64 \<Rightarrow> LedgerPlan \<Rightarrow> bool \<times> LedgerPlan" where
  "plan_give_back count p =
     (if \<not> plan_valid p then (False, p)
      else if count = 0 then plan_refuse CountZero 0 p
      else
        let current = plan_view p;
            returnable = v_in_flight current - v_stale current
        in if v_in_flight current < count \<or> returnable < count
        then plan_refuse InsufficientOutstanding returnable p
        else
          let t = p_totals p;
              from_spent = (if spent t < count then spent t else count);
              (over, new_returned) = add_overflow (returned t) count
          in if over then plan_refuse CountOverflow new_returned p
             else plan_commit (t\<lparr>spent := spent t - from_spent, returned := new_returned\<rparr>) p)"

definition plan_protect :: "u64 \<Rightarrow> bool \<Rightarrow> LedgerPlan \<Rightarrow> bool \<times> LedgerPlan" where
  "plan_protect count allowed p =
     (if \<not> plan_valid p then (False, p)
      else if \<not> allowed then plan_refuse PolicyRefused 0 p
      else if count = 0 then plan_refuse CountZero 0 p
      else
        let current = plan_view p in
        if v_available current < count then plan_refuse InsufficientAvailable (v_available current) p
        else
          let (over, new_protected) = add_overflow (protected_credits (p_totals p)) count in
          if over then plan_refuse CountOverflow new_protected p
          else plan_commit ((p_totals p)\<lparr>protected_credits := new_protected\<rparr>) p)"

definition plan_unprotect :: "u64 \<Rightarrow> LedgerPlan \<Rightarrow> bool \<times> LedgerPlan" where
  "plan_unprotect count p =
     (if \<not> plan_valid p then (False, p)
      else if count = 0 then plan_refuse CountZero 0 p
      else if protected_credits (p_totals p) < count
      then plan_refuse InsufficientProtected (protected_credits (p_totals p)) p
      else plan_commit ((p_totals p)\<lparr>protected_credits := protected_credits (p_totals p) - count\<rparr>) p)"

definition plan_retire_stale :: "u64 \<Rightarrow> LedgerPlan \<Rightarrow> bool \<times> LedgerPlan" where
  "plan_retire_stale count p =
     (if \<not> plan_valid p then (False, p)
      else if count = 0 then plan_refuse CountZero 0 p
      else
        let current = plan_view p in
        if v_outstanding current < count
        then plan_refuse InsufficientOutstanding (v_outstanding current) p
        else
          let (over, new_stale) = add_overflow (stale (p_totals p)) count in
          if over then plan_refuse CountOverflow new_stale p
          else plan_commit ((p_totals p)\<lparr>stale := new_stale\<rparr>) p)"

definition plan_quarantine_in_flight :: "LedgerPlan \<Rightarrow> bool \<times> LedgerPlan" where
  "plan_quarantine_in_flight p =
     (if \<not> plan_valid p then (False, p)
      else
        let current = plan_view p;
            amount = v_in_flight current - v_stale current
        in if amount = 0 then (True, p)
        else
          let (over, new_stale) = add_overflow (stale (p_totals p)) amount in
          if over then plan_refuse CountOverflow new_stale p
          else plan_commit ((p_totals p)\<lparr>spent := 0, stale := new_stale\<rparr>) p)"

definition plan_revalidate_to_returned :: "u64 \<Rightarrow> LedgerPlan \<Rightarrow> bool \<times> LedgerPlan" where
  "plan_revalidate_to_returned count p =
     (if \<not> plan_valid p then (False, p)
      else if count = 0 then plan_refuse CountZero 0 p
      else if stale (p_totals p) < count then plan_refuse NothingToRetire (stale (p_totals p)) p
      else
        let t = p_totals p;
            (over, new_returned) = add_overflow (returned t) count
        in if over then plan_refuse CountOverflow new_returned p
           else plan_commit (t\<lparr>stale := stale t - count, returned := new_returned\<rparr>) p)"

definition plan_revalidate_to_consumed :: "u64 \<Rightarrow> LedgerPlan \<Rightarrow> bool \<times> LedgerPlan" where
  "plan_revalidate_to_consumed count p =
     (if \<not> plan_valid p then (False, p)
      else if count = 0 then plan_refuse CountZero 0 p
      else if stale (p_totals p) < count then plan_refuse NothingToRetire (stale (p_totals p)) p
      else
        let t = p_totals p;
            (over, new_spent) = add_overflow (spent t) count
        in if over then plan_refuse CountOverflow new_spent p
        else
          let (over, new_consumed) = add_overflow (consumed t) count in
          if over then plan_refuse CountOverflow new_consumed p
          else plan_commit
            (t\<lparr>stale := stale t - count, spent := new_spent, consumed := new_consumed\<rparr>) p)"

definition plan_set_capacity :: "u64 \<Rightarrow> u64 \<Rightarrow> bool \<Rightarrow> LedgerPlan \<Rightarrow> bool \<times> LedgerPlan" where
  "plan_set_capacity new_capacity max_capacity allow_growth p =
     (if \<not> plan_valid p then (False, p)
      else if new_capacity = 0 then plan_refuse CapacityOutOfRange 0 p
      else if new_capacity > max_capacity then plan_refuse CapacityExceeded max_capacity p
      else if new_capacity > p_capacity p \<and> \<not> allow_growth then plan_refuse PolicyRefused (p_capacity p) p
      else
        let floor = obligation_floor p in
        if new_capacity < floor then plan_refuse CapacityShrinkViolation floor p
        else (True, p\<lparr>p_capacity := new_capacity\<rparr>))"

text \<open>One call of a mutator, as data.\<close>

datatype ledger_op =
    L_Issue u64 u64 u64
  | L_Consume u64
  | L_Return u64
  | L_Protect u64 bool
  | L_Unprotect u64
  | L_Retire u64
  | L_Quarantine
  | L_To_Returned u64
  | L_To_Consumed u64
  | L_Set_Capacity u64 u64 bool

fun plan_step :: "ledger_op \<Rightarrow> LedgerPlan \<Rightarrow> bool \<times> LedgerPlan" where
  "plan_step (L_Issue count lo hi) = plan_issue count lo hi"
| "plan_step (L_Consume count) = plan_consume count"
| "plan_step (L_Return count) = plan_give_back count"
| "plan_step (L_Protect count allowed) = plan_protect count allowed"
| "plan_step (L_Unprotect count) = plan_unprotect count"
| "plan_step (L_Retire count) = plan_retire_stale count"
| "plan_step L_Quarantine = plan_quarantine_in_flight"
| "plan_step (L_To_Returned count) = plan_revalidate_to_returned count"
| "plan_step (L_To_Consumed count) = plan_revalidate_to_consumed count"
| "plan_step (L_Set_Capacity cap maxcap growth) = plan_set_capacity cap maxcap growth"

subsection \<open>What the invariant check says on naturals\<close>

definition in_flight_nat :: "CreditTotals \<Rightarrow> nat" where
  "in_flight_nat t = unat (issued t) - unat (returned t)"

definition totals_ok :: "u64 \<Rightarrow> CreditTotals \<Rightarrow> bool" where
  "totals_ok cap t \<longleftrightarrow>
     unat (returned t) \<le> unat (issued t) \<and>
     unat (spent t) + unat (stale t) \<le> in_flight_nat t \<and>
     unat (protected_credits t) + in_flight_nat t \<le> unat cap"

lemma check_invariants_ok [simp]: "status_ok (check_invariants cap t) \<longleftrightarrow> totals_ok cap t"
proof (cases "returned t > issued t")
  case True
  then show ?thesis by (simp add: check_invariants_def totals_ok_def word_less_nat_alt)
next
  case False
  then have le: "returned t \<le> issued t" by simp
  define fl where "fl = issued t - returned t"
  have fl: "unat fl = in_flight_nat t"
    using le by (simp add: fl_def in_flight_nat_def word_facts)
  show ?thesis
    using le fl u64_bound [of fl] u64_bound [of cap]
    by (cases rule: add_overflow_cases [of "spent t" "stale t"];
        cases rule: add_overflow_cases [of "protected_credits t" fl])
       (auto simp: check_invariants_def totals_ok_def word_less_nat_alt word_le_nat_alt
          fl_def [symmetric] Let_def)
qed

subsection \<open>The derived view\<close>

lemma view_ok:
  assumes "totals_ok cap t"
  shows "compute_view cap t =
    \<lparr>v_capacity = cap, v_issued = issued t, v_consumed = consumed t, v_returned = returned t,
     v_stale = stale t, v_spent = spent t, v_protected = protected_credits t,
     v_in_flight = issued t - returned t,
     v_outstanding = issued t - returned t - (spent t + stale t),
     v_quarantined = stale t,
     v_available = cap - (protected_credits t + (issued t - returned t)),
     v_closed = True\<rparr>"
proof -
  have le: "returned t \<le> issued t"
    using assms by (simp add: totals_ok_def word_le_nat_alt)
  then have fl: "unat (issued t - returned t) = in_flight_nat t"
    by (simp add: in_flight_nat_def word_facts)
  have "add_overflow (spent t) (stale t) = (False, spent t + stale t)"
       "add_overflow (protected_credits t) (issued t - returned t) =
          (False, protected_credits t + (issued t - returned t))"
       "spent t + stale t \<le> issued t - returned t"
       "protected_credits t + (issued t - returned t) \<le> cap"
    using assms fl u64_bound [of "issued t - returned t"] u64_bound [of cap]
    by (auto simp: totals_ok_def word_le_nat_alt word_facts)
  with le show ?thesis
    by (simp add: compute_view_def fill_derived_def zero_view_def Let_def not_less)
qed

lemma view_not_ok:
  assumes "\<not> totals_ok cap t"
  shows "\<not> v_closed (compute_view cap t) \<and> v_available (compute_view cap t) = 0 \<and>
         v_outstanding (compute_view cap t) = 0 \<and> v_in_flight (compute_view cap t) = 0"
proof -
  have "\<not> v_closed (compute_view cap t)"
  proof (cases "returned t > issued t")
    case True
    then show ?thesis by (simp add: compute_view_def fill_derived_def zero_view_def Let_def not_less)
  next
    case False
    define fl where "fl = issued t - returned t"
    have fl: "unat fl = in_flight_nat t"
      using False by (simp add: fl_def in_flight_nat_def word_facts)
    show ?thesis
      using False assms fl u64_bound [of fl] u64_bound [of cap]
      by (cases rule: add_overflow_cases [of "spent t" "stale t"];
          cases rule: add_overflow_cases [of "protected_credits t" fl])
         (auto simp: compute_view_def fill_derived_def zero_view_def Let_def totals_ok_def
            word_less_nat_alt word_le_nat_alt fl_def [symmetric])
  qed
  then show ?thesis by (simp add: compute_view_def Let_def split: if_splits)
qed

lemma view_nats:
  assumes "totals_ok cap t"
  shows "unat (v_in_flight (compute_view cap t)) = in_flight_nat t"
    and "unat (v_outstanding (compute_view cap t)) = in_flight_nat t - (unat (spent t) + unat (stale t))"
    and "unat (v_available (compute_view cap t)) = unat cap - (unat (protected_credits t) + in_flight_nat t)"
    and "unat (v_in_flight (compute_view cap t) - v_stale (compute_view cap t)) = in_flight_nat t - unat (stale t)"
proof -
  have le: "returned t \<le> issued t"
    using assms by (simp add: totals_ok_def word_le_nat_alt)
  then have fl: "unat (issued t - returned t) = in_flight_nat t"
    by (simp add: in_flight_nat_def word_facts)
  have r: "unat (spent t + stale t) = unat (spent t) + unat (stale t)"
       "unat (protected_credits t + (issued t - returned t)) = unat (protected_credits t) + in_flight_nat t"
    using assms fl u64_bound [of "issued t - returned t"] u64_bound [of cap]
    by (auto simp: totals_ok_def word_facts)
  then have "spent t + stale t \<le> issued t - returned t" "stale t \<le> issued t - returned t"
       "protected_credits t + (issued t - returned t) \<le> cap"
    using assms fl by (auto simp: totals_ok_def word_le_nat_alt)
  then show "unat (v_in_flight (compute_view cap t)) = in_flight_nat t"
    and "unat (v_outstanding (compute_view cap t)) = in_flight_nat t - (unat (spent t) + unat (stale t))"
    and "unat (v_available (compute_view cap t)) = unat cap - (unat (protected_credits t) + in_flight_nat t)"
    and "unat (v_in_flight (compute_view cap t) - v_stale (compute_view cap t)) = in_flight_nat t - unat (stale t)"
    using fl r by (simp_all add: view_ok [OF assms] word_facts)
qed

text \<open>The derived view is closed exactly when the invariant check succeeds; then the two partitions hold
  as exact natural-number equations, and otherwise no credit is shown as available or spendable.\<close>

lemma view_closes_exactly:
  "(v_closed (compute_view cap t) \<longleftrightarrow> status_ok (check_invariants cap t)) \<and>
   (if v_closed (compute_view cap t)
    then unat cap = unat (v_available (compute_view cap t)) + unat (v_protected (compute_view cap t))
                    + unat (v_in_flight (compute_view cap t)) \<and>
         unat (v_in_flight (compute_view cap t)) = unat (v_outstanding (compute_view cap t))
                    + unat (v_spent (compute_view cap t)) + unat (v_stale (compute_view cap t))
    else v_available (compute_view cap t) = 0 \<and> v_outstanding (compute_view cap t) = 0)"
proof (cases "totals_ok cap t")
  case True
  have "v_closed (compute_view cap t)" "v_protected (compute_view cap t) = protected_credits t"
       "v_spent (compute_view cap t) = spent t" "v_stale (compute_view cap t) = stale t"
    by (simp_all add: view_ok [OF True])
  with True view_nats [OF True] show ?thesis
    by (simp add: totals_ok_def)
next
  case False
  then show ?thesis using view_not_ok [OF False] by simp
qed

subsection \<open>The promised behaviour: a pool of credit\<close>

record pool =
  available :: nat
  protected :: nat
  outstanding :: nat
  spent_credit :: nat
  stale_credit :: nat
  ever_issued :: nat
  ever_consumed :: nat
  ever_returned :: nat

definition pool_capacity :: "pool \<Rightarrow> nat" where
  "pool_capacity b = available b + protected b + outstanding b + spent_credit b + stale_credit b"

abbreviation fits :: "nat \<Rightarrow> bool" where
  "fits n \<equiv> n < 18446744073709551616"

fun pool_step :: "ledger_op \<Rightarrow> pool \<Rightarrow> Reason + pool" where
  "pool_step (L_Issue count lo hi) b =
     (let k = unat count in
      if k = 0 then Inl CountZero
      else if k < unat lo \<or> unat hi < k then Inl PolicyRefused
      else if available b < k then Inl InsufficientAvailable
      else if \<not> fits (ever_issued b + k) then Inl CountOverflow
      else Inr (b\<lparr>available := available b - k, outstanding := outstanding b + k,
                  ever_issued := ever_issued b + k\<rparr>))"
| "pool_step (L_Consume count) b =
     (let k = unat count in
      if k = 0 then Inl CountZero
      else if outstanding b < k then Inl InsufficientOutstanding
      else if \<not> fits (ever_consumed b + k) then Inl CountOverflow
      else Inr (b\<lparr>outstanding := outstanding b - k, spent_credit := spent_credit b + k,
                  ever_consumed := ever_consumed b + k\<rparr>))"
| "pool_step (L_Return count) b =
     (let k = unat count; from_spent = min (spent_credit b) k in
      if k = 0 then Inl CountZero
      else if outstanding b + spent_credit b < k then Inl InsufficientOutstanding
      else Inr (b\<lparr>available := available b + k, spent_credit := spent_credit b - from_spent,
                  outstanding := outstanding b - (k - from_spent),
                  ever_returned := ever_returned b + k\<rparr>))"
| "pool_step (L_Protect count allowed) b =
     (let k = unat count in
      if \<not> allowed then Inl PolicyRefused
      else if k = 0 then Inl CountZero
      else if available b < k then Inl InsufficientAvailable
      else Inr (b\<lparr>available := available b - k, protected := protected b + k\<rparr>))"
| "pool_step (L_Unprotect count) b =
     (let k = unat count in
      if k = 0 then Inl CountZero
      else if protected b < k then Inl InsufficientProtected
      else Inr (b\<lparr>available := available b + k, protected := protected b - k\<rparr>))"
| "pool_step (L_Retire count) b =
     (let k = unat count in
      if k = 0 then Inl CountZero
      else if outstanding b < k then Inl InsufficientOutstanding
      else Inr (b\<lparr>outstanding := outstanding b - k, stale_credit := stale_credit b + k\<rparr>))"
| "pool_step L_Quarantine b =
     Inr (b\<lparr>outstanding := 0, spent_credit := 0,
            stale_credit := stale_credit b + outstanding b + spent_credit b\<rparr>)"
| "pool_step (L_To_Returned count) b =
     (let k = unat count in
      if k = 0 then Inl CountZero
      else if stale_credit b < k then Inl NothingToRetire
      else Inr (b\<lparr>stale_credit := stale_credit b - k, available := available b + k,
                  ever_returned := ever_returned b + k\<rparr>))"
| "pool_step (L_To_Consumed count) b =
     (let k = unat count in
      if k = 0 then Inl CountZero
      else if stale_credit b < k then Inl NothingToRetire
      else if \<not> fits (ever_consumed b + k) then Inl CountOverflow
      else Inr (b\<lparr>stale_credit := stale_credit b - k, spent_credit := spent_credit b + k,
                  ever_consumed := ever_consumed b + k\<rparr>))"
| "pool_step (L_Set_Capacity new_capacity max_capacity growth) b =
     (let n = unat new_capacity;
          floor = protected b + outstanding b + spent_credit b + stale_credit b
      in if n = 0 then Inl CapacityOutOfRange
         else if unat max_capacity < n then Inl CapacityExceeded
         else if pool_capacity b < n \<and> \<not> growth then Inl PolicyRefused
         else if n < floor then Inl CapacityShrinkViolation
         else Inr (b\<lparr>available := n - floor\<rparr>))"

definition pool_of :: "u64 \<Rightarrow> CreditTotals \<Rightarrow> pool" where
  "pool_of cap t =
     \<lparr>available = unat cap - (unat (protected_credits t) + in_flight_nat t),
      protected = unat (protected_credits t),
      outstanding = in_flight_nat t - (unat (spent t) + unat (stale t)),
      spent_credit = unat (spent t),
      stale_credit = unat (stale t),
      ever_issued = unat (issued t),
      ever_consumed = unat (consumed t),
      ever_returned = unat (returned t)\<rparr>"

abbreviation plan_pool :: "LedgerPlan \<Rightarrow> pool" where
  "plan_pool p \<equiv> pool_of (p_capacity p) (p_totals p)"

definition plan_sound :: "LedgerPlan \<Rightarrow> bool" where
  "plan_sound p \<longleftrightarrow> plan_valid p \<and> totals_ok (p_capacity p) (p_totals p)"

lemma make_plan_sound: "plan_sound (make_plan cap t) \<longleftrightarrow> totals_ok cap t"
  by (simp add: plan_sound_def make_plan_def)

text \<open>What a mutator promises of the pool: it succeeds with exactly the specified successor, or
  is refused with exactly the specified reason and changes neither counters nor capacity.\<close>

definition step_meets :: "ledger_op \<Rightarrow> LedgerPlan \<Rightarrow> bool" where
  "step_meets oper p \<longleftrightarrow>
     (case pool_step oper (plan_pool p) of
        Inr b \<Rightarrow> fst (plan_step oper p) \<and> plan_sound (snd (plan_step oper p)) \<and>
                 plan_pool (snd (plan_step oper p)) = b
      | Inl r \<Rightarrow> \<not> fst (plan_step oper p) \<and> reason (p_status (snd (plan_step oper p))) = r \<and>
                 p_totals (snd (plan_step oper p)) = p_totals p \<and>
                 p_capacity (snd (plan_step oper p)) = p_capacity p)"

lemma plan_commit_sound:
  assumes "plan_valid p" "totals_ok (p_capacity p) c"
  shows "plan_commit c p = (True, p\<lparr>p_totals := c\<rparr>)"
  using assms by (simp add: plan_commit_def Let_def)

lemma unat_count_zero: "(k :: u64) = 0 \<longleftrightarrow> unat k = 0"
  by (simp add: word_eq_iff_unat)

lemmas nat_view = word_less_nat_alt word_le_nat_alt unat_count_zero

lemma sound_facts:
  assumes "plan_sound p"
  shows "plan_valid p" "totals_ok (p_capacity p) (p_totals p)"
    "unat (v_available (plan_view p)) = available (plan_pool p)"
    "unat (v_outstanding (plan_view p)) = outstanding (plan_pool p)"
    "unat (v_in_flight (plan_view p)) = in_flight_nat (p_totals p)"
    "unat (v_in_flight (plan_view p) - v_stale (plan_view p)) =
       in_flight_nat (p_totals p) - unat (stale (p_totals p))"
  using assms view_nats [of "p_capacity p" "p_totals p"]
  by (simp_all add: plan_sound_def plan_view_def pool_of_def)

text \<open>The counters of a sound plan and its pool, related by equations without subtraction.\<close>

definition pool_rel :: "u64 \<Rightarrow> CreditTotals \<Rightarrow> pool \<Rightarrow> bool" where
  "pool_rel cap t b \<longleftrightarrow>
     unat cap = pool_capacity b \<and> unat (protected_credits t) = protected b \<and>
     unat (spent t) = spent_credit b \<and> unat (stale t) = stale_credit b \<and>
     unat (issued t) = ever_issued b \<and> unat (consumed t) = ever_consumed b \<and>
     unat (returned t) = ever_returned b \<and>
     ever_issued b = ever_returned b + outstanding b + spent_credit b + stale_credit b"

lemma pool_rel_of: "totals_ok cap t \<Longrightarrow> pool_rel cap t (pool_of cap t)"
  by (auto simp: totals_ok_def pool_rel_def pool_of_def in_flight_nat_def pool_capacity_def)

lemma pool_relD: "pool_rel cap t b \<Longrightarrow> totals_ok cap t \<and> pool_of cap t = b"
  by (cases b) (auto simp: totals_ok_def pool_rel_def pool_of_def in_flight_nat_def pool_capacity_def)

lemma pool_capacity_fits: "pool_rel cap t b \<Longrightarrow> fits (pool_capacity b) \<and> fits (ever_issued b)"
  using u64_bound [of cap] u64_bound [of "issued t"] by (simp add: pool_rel_def)

lemma meets_commit:
  assumes "plan_sound p" "pool_step oper (plan_pool p) = Inr b"
    and "plan_step oper p = plan_commit c p" "pool_rel (p_capacity p) c b"
  shows "step_meets oper p"
  using assms pool_relD [OF assms(4)]
  by (simp add: step_meets_def plan_commit_sound plan_sound_def)

lemma meets_refuse:
  assumes "pool_step oper (plan_pool p) = Inl r" "plan_step oper p = plan_refuse r d p"
  shows "step_meets oper p"
  using assms by (simp add: step_meets_def plan_refuse_def)

lemma issue_meets:
  assumes p: "plan_sound p"
  shows "step_meets (L_Issue count lo hi) p"
proof -
  note f = sound_facts [OF p]
  note rel = pool_rel_of [OF f(2)]
  let ?t = "p_totals p" and ?b = "plan_pool p"
  consider (zero) "unat count = 0"
    | (policy) "0 < unat count" "unat count < unat lo \<or> unat hi < unat count"
    | (short) "0 < unat count" "\<not> (unat count < unat lo \<or> unat hi < unat count)"
        "available ?b < unat count"
    | (over) "0 < unat count" "\<not> (unat count < unat lo \<or> unat hi < unat count)"
        "unat count \<le> available ?b" "\<not> fits (ever_issued ?b + unat count)"
    | (fine) "0 < unat count" "\<not> (unat count < unat lo \<or> unat hi < unat count)"
        "unat count \<le> available ?b" "fits (ever_issued ?b + unat count)"
    by linarith
  then show ?thesis
  proof cases
    case zero
    with f show ?thesis
      by (intro meets_refuse) (simp_all add: plan_issue_def nat_view)
  next
    case policy
    with f show ?thesis
      by (intro meets_refuse) (auto simp: plan_issue_def nat_view Let_def)
  next
    case short
    with f show ?thesis
      by (intro meets_refuse) (auto simp: plan_issue_def nat_view Let_def)
  next
    case over
    with f rel show ?thesis
      by (intro meets_refuse) (auto simp: plan_issue_def nat_view Let_def pool_rel_def add_overflow_big)
  next
    case fine
    have "pool_rel (p_capacity p) (?t\<lparr>issued := issued ?t + count\<rparr>)
            (?b\<lparr>available := available ?b - unat count, outstanding := outstanding ?b + unat count,
                ever_issued := ever_issued ?b + unat count\<rparr>)"
      using fine rel by (auto simp: pool_rel_def pool_capacity_def word_facts)
    then show ?thesis
      using fine f rel
      by (intro meets_commit [OF p]) (auto simp: plan_issue_def nat_view Let_def pool_rel_def)
  qed
qed

lemma consume_meets:
  assumes p: "plan_sound p"
  shows "step_meets (L_Consume count) p"
proof -
  note f = sound_facts [OF p]
  note rel = pool_rel_of [OF f(2)]
  let ?t = "p_totals p" and ?b = "plan_pool p"
  note fit = pool_capacity_fits [OF rel]
  consider (zero) "unat count = 0"
    | (short) "0 < unat count" "outstanding ?b < unat count"
    | (over) "0 < unat count" "unat count \<le> outstanding ?b" "\<not> fits (ever_consumed ?b + unat count)"
    | (fine) "0 < unat count" "unat count \<le> outstanding ?b" "fits (ever_consumed ?b + unat count)"
    by linarith
  then show ?thesis
  proof cases
    case zero
    with f show ?thesis
      by (intro meets_refuse) (simp_all add: plan_consume_def nat_view)
  next
    case short
    with f show ?thesis
      by (intro meets_refuse) (auto simp: plan_consume_def nat_view Let_def)
  next
    case over
    have "fits (unat (spent ?t) + unat count)"
      using over rel fit by (auto simp: pool_rel_def pool_capacity_def)
    with over f rel show ?thesis
      by (intro meets_refuse) (auto simp: plan_consume_def nat_view Let_def pool_rel_def add_overflow_big)
  next
    case fine
    have s: "fits (unat (spent ?t) + unat count)"
      using fine rel fit by (auto simp: pool_rel_def pool_capacity_def)
    have "pool_rel (p_capacity p) (?t\<lparr>spent := spent ?t + count, consumed := consumed ?t + count\<rparr>)
            (?b\<lparr>outstanding := outstanding ?b - unat count, spent_credit := spent_credit ?b + unat count,
                ever_consumed := ever_consumed ?b + unat count\<rparr>)"
      using fine rel s by (auto simp: pool_rel_def pool_capacity_def word_facts)
    then show ?thesis
      using fine f rel s
      by (intro meets_commit [OF p]) (auto simp: plan_consume_def nat_view Let_def pool_rel_def)
  qed
qed

lemma give_back_meets:
  assumes p: "plan_sound p"
  shows "step_meets (L_Return count) p"
proof -
  note f = sound_facts [OF p]
  note rel = pool_rel_of [OF f(2)]
  let ?t = "p_totals p" and ?b = "plan_pool p" and ?k = "unat count"
  note fit = pool_capacity_fits [OF rel]
  have fl: "in_flight_nat ?t = outstanding ?b + spent_credit ?b + stale_credit ?b"
    using rel by (simp add: pool_rel_def in_flight_nat_def)
  then have returnable: "in_flight_nat ?t - unat (stale ?t) = outstanding ?b + spent_credit ?b"
    using rel by (simp add: pool_rel_def)
  consider (zero) "?k = 0"
    | (short) "0 < ?k" "outstanding ?b + spent_credit ?b < ?k"
    | (fine) "0 < ?k" "?k \<le> outstanding ?b + spent_credit ?b"
    by linarith
  then show ?thesis
  proof cases
    case zero
    with f show ?thesis
      by (intro meets_refuse) (simp_all add: plan_give_back_def nat_view)
  next
    case short
    with f fl returnable show ?thesis
      by (intro meets_refuse) (auto simp: plan_give_back_def nat_view Let_def)
  next
    case fine
    define fs where "fs = (if spent ?t < count then spent ?t else count)"
    have fs: "unat fs = min (spent_credit ?b) ?k" "fs \<le> spent ?t"
      using rel by (auto simp: fs_def pool_rel_def nat_view)
    have r: "fits (unat (returned ?t) + ?k)"
      using fine rel fit by (auto simp: pool_rel_def)
    have "pool_rel (p_capacity p) (?t\<lparr>spent := spent ?t - fs, returned := returned ?t + count\<rparr>)
            (?b\<lparr>available := available ?b + ?k, spent_credit := spent_credit ?b - min (spent_credit ?b) ?k,
                outstanding := outstanding ?b - (?k - min (spent_credit ?b) ?k),
                ever_returned := ever_returned ?b + ?k\<rparr>)"
      using fine rel r fs by (auto simp: pool_rel_def pool_capacity_def word_facts min_def)
    then show ?thesis
      using fine f fl returnable r
      by (intro meets_commit [OF p]) (auto simp: plan_give_back_def nat_view Let_def fs_def)
  qed
qed

lemma protect_meets:
  assumes p: "plan_sound p"
  shows "step_meets (L_Protect count allowed) p"
proof -
  note f = sound_facts [OF p]
  note rel = pool_rel_of [OF f(2)]
  let ?t = "p_totals p" and ?b = "plan_pool p"
  note fit = pool_capacity_fits [OF rel]
  consider (policy) "\<not> allowed"
    | (zero) "allowed" "unat count = 0"
    | (short) "allowed" "0 < unat count" "available ?b < unat count"
    | (fine) "allowed" "0 < unat count" "unat count \<le> available ?b"
    by linarith
  then show ?thesis
  proof cases
    case policy
    with f show ?thesis by (intro meets_refuse) (simp_all add: plan_protect_def)
  next
    case zero
    with f show ?thesis by (intro meets_refuse) (simp_all add: plan_protect_def nat_view)
  next
    case short
    with f show ?thesis by (intro meets_refuse) (auto simp: plan_protect_def nat_view Let_def)
  next
    case fine
    have s: "fits (unat (protected_credits ?t) + unat count)"
      using fine rel fit by (auto simp: pool_rel_def pool_capacity_def)
    have "pool_rel (p_capacity p) (?t\<lparr>protected_credits := protected_credits ?t + count\<rparr>)
            (?b\<lparr>available := available ?b - unat count, protected := protected ?b + unat count\<rparr>)"
      using fine rel s by (auto simp: pool_rel_def pool_capacity_def word_facts)
    then show ?thesis
      using fine f s by (intro meets_commit [OF p]) (auto simp: plan_protect_def nat_view Let_def)
  qed
qed

lemma unprotect_meets:
  assumes p: "plan_sound p"
  shows "step_meets (L_Unprotect count) p"
proof -
  note f = sound_facts [OF p]
  note rel = pool_rel_of [OF f(2)]
  let ?t = "p_totals p" and ?b = "plan_pool p"
  have prot: "unat (protected_credits ?t) = protected ?b" using rel by (simp add: pool_rel_def)
  consider (zero) "unat count = 0" | (short) "0 < unat count" "protected ?b < unat count"
    | (fine) "0 < unat count" "unat count \<le> protected ?b"
    by linarith
  then show ?thesis
  proof cases
    case zero
    with f show ?thesis by (intro meets_refuse) (simp_all add: plan_unprotect_def nat_view)
  next
    case short
    with f prot show ?thesis by (intro meets_refuse) (auto simp: plan_unprotect_def nat_view Let_def)
  next
    case fine
    then have "count \<le> protected_credits ?t" using prot by (simp add: nat_view)
    then have "pool_rel (p_capacity p) (?t\<lparr>protected_credits := protected_credits ?t - count\<rparr>)
            (?b\<lparr>available := available ?b + unat count, protected := protected ?b - unat count\<rparr>)"
      using fine rel by (auto simp: pool_rel_def pool_capacity_def word_facts)
    then show ?thesis
      using fine f prot by (intro meets_commit [OF p]) (auto simp: plan_unprotect_def nat_view Let_def)
  qed
qed

lemma retire_meets:
  assumes p: "plan_sound p"
  shows "step_meets (L_Retire count) p"
proof -
  note f = sound_facts [OF p]
  note rel = pool_rel_of [OF f(2)]
  let ?t = "p_totals p" and ?b = "plan_pool p"
  note fit = pool_capacity_fits [OF rel]
  consider (zero) "unat count = 0" | (short) "0 < unat count" "outstanding ?b < unat count"
    | (fine) "0 < unat count" "unat count \<le> outstanding ?b"
    by linarith
  then show ?thesis
  proof cases
    case zero
    with f show ?thesis by (intro meets_refuse) (simp_all add: plan_retire_stale_def nat_view)
  next
    case short
    with f show ?thesis by (intro meets_refuse) (auto simp: plan_retire_stale_def nat_view Let_def)
  next
    case fine
    have s: "fits (unat (stale ?t) + unat count)"
      using fine rel fit by (auto simp: pool_rel_def pool_capacity_def)
    have "pool_rel (p_capacity p) (?t\<lparr>stale := stale ?t + count\<rparr>)
            (?b\<lparr>outstanding := outstanding ?b - unat count, stale_credit := stale_credit ?b + unat count\<rparr>)"
      using fine rel s by (auto simp: pool_rel_def pool_capacity_def word_facts)
    then show ?thesis
      using fine f s by (intro meets_commit [OF p]) (auto simp: plan_retire_stale_def nat_view Let_def)
  qed
qed

lemma quarantine_meets:
  assumes p: "plan_sound p"
  shows "step_meets L_Quarantine p"
proof -
  note f = sound_facts [OF p]
  note rel = pool_rel_of [OF f(2)]
  let ?t = "p_totals p" and ?b = "plan_pool p"
  note fit = pool_capacity_fits [OF rel]
  define amount where "amount = v_in_flight (plan_view p) - v_stale (plan_view p)"
  have am: "unat amount = outstanding ?b + spent_credit ?b"
    using f(6) rel by (simp add: amount_def pool_rel_def in_flight_nat_def)
  show ?thesis
  proof (cases "unat amount = 0")
    case True
    then have "outstanding ?b = 0" "spent_credit ?b = 0" using am by simp_all
    then have "?b\<lparr>outstanding := 0, spent_credit := 0,
                 stale_credit := stale_credit ?b + outstanding ?b + spent_credit ?b\<rparr> = ?b"
      by (simp add: pool_of_def)
    with True f p show ?thesis
      by (simp add: step_meets_def plan_quarantine_in_flight_def Let_def amount_def [symmetric] nat_view)
  next
    case False
    have s: "fits (unat (stale ?t) + unat amount)"
      using am rel fit by (auto simp: pool_rel_def pool_capacity_def)
    have "pool_rel (p_capacity p) (?t\<lparr>spent := 0, stale := stale ?t + amount\<rparr>)
            (?b\<lparr>outstanding := 0, spent_credit := 0,
                stale_credit := stale_credit ?b + outstanding ?b + spent_credit ?b\<rparr>)"
      using am rel s by (auto simp: pool_rel_def pool_capacity_def word_facts)
    then show ?thesis
      using False f s
      by (intro meets_commit [OF p])
         (auto simp: plan_quarantine_in_flight_def nat_view Let_def amount_def [symmetric])
  qed
qed

lemma to_returned_meets:
  assumes p: "plan_sound p"
  shows "step_meets (L_To_Returned count) p"
proof -
  note f = sound_facts [OF p]
  note rel = pool_rel_of [OF f(2)]
  let ?t = "p_totals p" and ?b = "plan_pool p"
  note fit = pool_capacity_fits [OF rel]
  have st: "unat (stale ?t) = stale_credit ?b" using rel by (simp add: pool_rel_def)
  consider (zero) "unat count = 0" | (short) "0 < unat count" "stale_credit ?b < unat count"
    | (fine) "0 < unat count" "unat count \<le> stale_credit ?b"
    by linarith
  then show ?thesis
  proof cases
    case zero
    with f show ?thesis by (intro meets_refuse) (simp_all add: plan_revalidate_to_returned_def nat_view)
  next
    case short
    with f st show ?thesis by (intro meets_refuse) (auto simp: plan_revalidate_to_returned_def nat_view)
  next
    case fine
    then have le: "count \<le> stale ?t" using st by (simp add: nat_view)
    have s: "fits (unat (returned ?t) + unat count)"
      using fine rel fit by (auto simp: pool_rel_def)
    have "pool_rel (p_capacity p) (?t\<lparr>stale := stale ?t - count, returned := returned ?t + count\<rparr>)
            (?b\<lparr>stale_credit := stale_credit ?b - unat count, available := available ?b + unat count,
                ever_returned := ever_returned ?b + unat count\<rparr>)"
      using fine rel s le by (auto simp: pool_rel_def pool_capacity_def word_facts)
    then show ?thesis
      using fine f st s
      by (intro meets_commit [OF p]) (auto simp: plan_revalidate_to_returned_def nat_view Let_def)
  qed
qed

lemma to_consumed_meets:
  assumes p: "plan_sound p"
  shows "step_meets (L_To_Consumed count) p"
proof -
  note f = sound_facts [OF p]
  note rel = pool_rel_of [OF f(2)]
  let ?t = "p_totals p" and ?b = "plan_pool p"
  note fit = pool_capacity_fits [OF rel]
  have st: "unat (stale ?t) = stale_credit ?b" using rel by (simp add: pool_rel_def)
  consider (zero) "unat count = 0" | (short) "0 < unat count" "stale_credit ?b < unat count"
    | (over) "0 < unat count" "unat count \<le> stale_credit ?b" "\<not> fits (ever_consumed ?b + unat count)"
    | (fine) "0 < unat count" "unat count \<le> stale_credit ?b" "fits (ever_consumed ?b + unat count)"
    by linarith
  then show ?thesis
  proof cases
    case zero
    with f show ?thesis by (intro meets_refuse) (simp_all add: plan_revalidate_to_consumed_def nat_view)
  next
    case short
    with f st show ?thesis by (intro meets_refuse) (auto simp: plan_revalidate_to_consumed_def nat_view)
  next
    case over
    have "fits (unat (spent ?t) + unat count)"
      using over rel fit by (auto simp: pool_rel_def pool_capacity_def)
    with over f rel st show ?thesis
      by (intro meets_refuse)
         (auto simp: plan_revalidate_to_consumed_def nat_view Let_def pool_rel_def add_overflow_big)
  next
    case fine
    then have le: "count \<le> stale ?t" using st by (simp add: nat_view)
    have s: "fits (unat (spent ?t) + unat count)"
      using fine rel fit by (auto simp: pool_rel_def pool_capacity_def)
    have "pool_rel (p_capacity p)
            (?t\<lparr>stale := stale ?t - count, spent := spent ?t + count, consumed := consumed ?t + count\<rparr>)
            (?b\<lparr>stale_credit := stale_credit ?b - unat count, spent_credit := spent_credit ?b + unat count,
                ever_consumed := ever_consumed ?b + unat count\<rparr>)"
      using fine rel s le by (auto simp: pool_rel_def pool_capacity_def word_facts)
    then show ?thesis
      using fine f st s rel
      by (intro meets_commit [OF p])
         (auto simp: plan_revalidate_to_consumed_def nat_view Let_def pool_rel_def)
  qed
qed

lemma set_capacity_meets:
  assumes p: "plan_sound p"
  shows "step_meets (L_Set_Capacity n m growth) p"
proof -
  note f = sound_facts [OF p]
  note rel = pool_rel_of [OF f(2)]
  let ?t = "p_totals p" and ?b = "plan_pool p"
  let ?floor = "protected ?b + outstanding ?b + spent_credit ?b + stale_credit ?b"
  have cap: "unat (p_capacity p) = pool_capacity ?b" using rel by (simp add: pool_rel_def)
  have "returned ?t \<le> issued ?t" using rel by (simp add: pool_rel_def nat_view)
  then have fl: "unat (obligation_floor p) = ?floor"
    using rel u64_bound [of "p_capacity p"]
    by (auto simp: obligation_floor_def Let_def saturating_add_exact word_facts pool_rel_def
        pool_capacity_def)
  consider (zero) "unat n = 0" | (exceeded) "0 < unat n" "unat m < unat n"
    | (policy) "0 < unat n" "unat n \<le> unat m" "pool_capacity ?b < unat n" "\<not> growth"
    | (shrink) "0 < unat n" "unat n \<le> unat m" "\<not> (pool_capacity ?b < unat n \<and> \<not> growth)" "unat n < ?floor"
    | (fine) "0 < unat n" "unat n \<le> unat m" "\<not> (pool_capacity ?b < unat n \<and> \<not> growth)" "?floor \<le> unat n"
    by linarith
  then show ?thesis
  proof cases
    case fine
    have "pool_rel n ?t (?b\<lparr>available := unat n - ?floor\<rparr>)"
      using fine rel by (auto simp: pool_rel_def pool_capacity_def)
    from pool_relD [OF this] show ?thesis
      using fine f fl cap
      by (auto simp: step_meets_def plan_set_capacity_def nat_view Let_def plan_sound_def)
  qed (use f fl cap in \<open>intro meets_refuse; auto simp: plan_set_capacity_def nat_view Let_def\<close>)+
qed

lemmas step_meets_intros =
  issue_meets consume_meets give_back_meets protect_meets unprotect_meets retire_meets
  quarantine_meets to_returned_meets to_consumed_meets set_capacity_meets

lemma plan_step_meets: "plan_sound p \<Longrightarrow> step_meets oper p"
  by (cases oper) (simp_all add: step_meets_intros)

text \<open>Every mutator of \<open>LedgerPlan\<close> refines the pool specification on a plan whose counters
  close: it succeeds exactly when the specification allows the step, and then the new counters
  close again and denote exactly the specified pool; otherwise it reports exactly the specified
  reason (zero count, policy window, shortage, 64-bit exhaustion, capacity floor) and leaves
  counters and capacity as they were.\<close>

lemma plan_step_refines_pool:
  assumes "plan_sound p"
  shows "case pool_step oper (plan_pool p) of
           Inr b \<Rightarrow> fst (plan_step oper p) \<and> plan_sound (snd (plan_step oper p)) \<and>
                    plan_pool (snd (plan_step oper p)) = b
         | Inl r \<Rightarrow> \<not> fst (plan_step oper p) \<and> reason (p_status (snd (plan_step oper p))) = r \<and>
                    p_totals (snd (plan_step oper p)) = p_totals p \<and>
                    p_capacity (snd (plan_step oper p)) = p_capacity p"
  using plan_step_meets [OF assms, of oper] by (simp add: step_meets_def)

definition example_totals :: CreditTotals where
  "example_totals =
     \<lparr>issued = 70, consumed = 30, returned = 10, stale = 5, spent = 20, protected_credits = 8\<rparr>"

lemma example_plan_sound: "plan_sound (make_plan 100 example_totals)"
  by (simp add: make_plan_sound totals_ok_def in_flight_nat_def example_totals_def)

text \<open>Witness: returning 25 of the 55 returnable credits of a half-used account.\<close>

subsection \<open>Sequences of mutations\<close>

text \<open>The engine builds a fresh plan from the committed counters for every attempt and publishes
  the plan's counters and capacity when the mutator succeeded.\<close>

definition ledger_apply_op :: "ledger_op \<Rightarrow> u64 \<times> CreditTotals \<Rightarrow> u64 \<times> CreditTotals" where
  "ledger_apply_op oper s =
     (let (ok, p) = plan_step oper (make_plan (fst s) (snd s))
      in if ok then (p_capacity p, p_totals p) else s)"

definition ledger_run :: "ledger_op list \<Rightarrow> u64 \<times> CreditTotals \<Rightarrow> u64 \<times> CreditTotals" where
  "ledger_run ops s = fold ledger_apply_op ops s"

definition pool_apply :: "ledger_op \<Rightarrow> pool \<Rightarrow> pool" where
  "pool_apply oper b = (case pool_step oper b of Inl _ \<Rightarrow> b | Inr b' \<Rightarrow> b')"

lemma ledger_apply_op_refines:
  assumes "totals_ok (fst s) (snd s)"
  shows "totals_ok (fst (ledger_apply_op oper s)) (snd (ledger_apply_op oper s)) \<and>
         pool_of (fst (ledger_apply_op oper s)) (snd (ledger_apply_op oper s)) =
           pool_apply oper (pool_of (fst s) (snd s))"
proof -
  let ?p = "make_plan (fst s) (snd s)"
  have m: "step_meets oper ?p" using assms by (simp add: plan_step_meets make_plan_sound)
  show ?thesis
    using m assms
    by (auto simp: step_meets_def ledger_apply_op_def pool_apply_def make_plan_def plan_sound_def
        split: sum.splits prod.splits)
qed

lemma ledger_run_refines:
  "totals_ok (fst s) (snd s) \<Longrightarrow>
     totals_ok (fst (ledger_run ops s)) (snd (ledger_run ops s)) \<and>
     pool_of (fst (ledger_run ops s)) (snd (ledger_run ops s)) = fold pool_apply ops (pool_of (fst s) (snd s))"
proof (induction ops arbitrary: s)
  case (Cons oper ops)
  from Cons.IH [of "ledger_apply_op oper s"] ledger_apply_op_refines [OF Cons.prems, of oper]
  show ?case by (simp add: ledger_run_def)
qed (simp add: ledger_run_def)

text \<open>Conservation in the pool: what was ever issued has been returned or is still in flight.\<close>

definition pool_conserves :: "pool \<Rightarrow> bool" where
  "pool_conserves b \<longleftrightarrow>
     ever_issued b = ever_returned b + outstanding b + spent_credit b + stale_credit b"

lemma pool_apply_conserves: "pool_conserves b \<Longrightarrow> pool_conserves (pool_apply oper b)"
  by (cases oper) (auto simp: pool_apply_def pool_conserves_def Let_def min_def)

text \<open>C32: over any sequence of mutations of a freshly opened account (from zero counters and any
  capacity), with whatever counts, the counters always close and the account's history is the
  history of the abstract pool; in particular every credit ever issued is either returned or in
  exactly one of the three in-flight buckets.\<close>

theorem ledger_history_refines_pool:
  assumes "s = ledger_run ops (cap, zero_totals)"
  shows "v_closed (compute_view (fst s) (snd s)) \<and>
         pool_of (fst s) (snd s) = fold pool_apply ops (pool_of cap zero_totals) \<and>
         unat (issued (snd s)) = unat (returned (snd s)) + outstanding (pool_of (fst s) (snd s))
           + unat (spent (snd s)) + unat (stale (snd s))"
proof -
  have z: "totals_ok cap zero_totals"
    by (simp add: totals_ok_def zero_totals_def in_flight_nat_def)
  note run = ledger_run_refines [of "(cap, zero_totals)" ops, simplified, OF z]
  have ok: "totals_ok (fst s) (snd s)"
    and eq: "pool_of (fst s) (snd s) = fold pool_apply ops (pool_of cap zero_totals)"
    using run assms by simp_all
  have "v_closed (compute_view (fst s) (snd s))" by (simp add: view_ok [OF ok])
  with pool_rel_of [OF ok] eq show ?thesis by (simp add: pool_rel_def)
qed

text \<open>Witness: issue 50 of 100, spend 30, advance the era, prove 10 of the quarantined credits unspent.\<close>

theorem ledger_history_refines_pool_witness:
  "v_closed (compute_view
     (fst (ledger_run [L_Issue 50 1 60, L_Consume 30, L_Quarantine, L_To_Returned 10] (100, zero_totals)))
     (snd (ledger_run [L_Issue 50 1 60, L_Consume 30, L_Quarantine, L_To_Returned 10] (100, zero_totals))))
   \<and> fold pool_apply [L_Issue 50 1 60, L_Consume 30, L_Quarantine, L_To_Returned 10]
       (pool_of 100 zero_totals) =
     \<lparr>available = 60, protected = 0, outstanding = 0, spent_credit = 0, stale_credit = 40,
      ever_issued = 50, ever_consumed = 30, ever_returned = 10\<rparr>"
  using ledger_history_refines_pool [OF refl,
      of "[L_Issue 50 1 60, L_Consume 30, L_Quarantine, L_To_Returned 10]" 100]
  by (simp add: pool_apply_def pool_of_def zero_totals_def in_flight_nat_def)

text \<open>Spending only ever takes spendable credit.\<close>

definition spends_once :: "pool \<Rightarrow> bool" where
  "spends_once b \<longleftrightarrow> ever_consumed b + outstanding b \<le> ever_issued b"

lemma pool_apply_spends_once:
  "spends_once b \<Longrightarrow> (\<And>k. oper \<noteq> L_To_Consumed k) \<Longrightarrow> spends_once (pool_apply oper b)"
  by (cases oper) (auto simp: pool_apply_def spends_once_def Let_def)

lemma pool_run_spends_once:
  "spends_once b \<Longrightarrow> (\<And>k. L_To_Consumed k \<notin> set ops) \<Longrightarrow> spends_once (fold pool_apply ops b)"
proof (induction ops arbitrary: b)
  case (Cons oper ops)
  then have "spends_once (pool_apply oper b)"
    by (intro pool_apply_spends_once) auto
  with Cons show ?case by simp
qed simp



end
