(* ===== verification/Messages.thy ===== *)
theory Messages
  imports Authority
begin

text \<open>
  The vocabulary of the engine: operation kinds, requests, outcomes and the audit rows
  (\<open>include/creditfabric/engine.hpp\<close>, \<open>src/engine.cpp\<close> up to the attempt window). The lemmas show that
  the raw numbering of operations and decisions is a bijection and that the request digest, which
  the attempt window compares, reads every scalar field of the request.
\<close>

subsection \<open>Operation kinds\<close>

datatype OpKind =
    Describe | Open | Issue | Consume | Return | Protect | Unprotect | Exhaust | ClearExhaustion
  | SetCapacity | AdvanceEpoch | Fence | Rotate | Retire | Revalidate | Reconcile | RetireIncarnation

primrec op_value :: "OpKind \<Rightarrow> nat" where
  "op_value Describe = 0"
| "op_value Open = 1"
| "op_value Issue = 2"
| "op_value Consume = 3"
| "op_value Return = 4"
| "op_value Protect = 5"
| "op_value Unprotect = 6"
| "op_value Exhaust = 7"
| "op_value ClearExhaustion = 8"
| "op_value SetCapacity = 9"
| "op_value AdvanceEpoch = 10"
| "op_value Fence = 11"
| "op_value Rotate = 12"
| "op_value Retire = 13"
| "op_value Revalidate = 14"
| "op_value Reconcile = 15"
| "op_value RetireIncarnation = 16"

definition kOpKindCount :: nat where
  "kOpKindCount = 17"

definition is_valid_op :: "u8 \<Rightarrow> bool" where
  "is_valid_op raw \<longleftrightarrow> unat raw < kOpKindCount"

text \<open>The \<open>static_cast\<close> from a raw value that passed \<open>is_valid_op\<close>.\<close>

definition all_ops :: "OpKind list" where
  "all_ops =
     [Describe, Open, Issue, Consume, Return, Protect, Unprotect, Exhaust, ClearExhaustion,
      SetCapacity, AdvanceEpoch, Fence, Rotate, Retire, Revalidate, Reconcile, RetireIncarnation]"

definition op_of_value :: "nat \<Rightarrow> OpKind" where
  "op_of_value n = all_ops ! n"

primrec op_to_string :: "OpKind \<Rightarrow> string" where
  "op_to_string Describe = ''Describe''"
| "op_to_string Open = ''Open''"
| "op_to_string Issue = ''Issue''"
| "op_to_string Consume = ''Consume''"
| "op_to_string Return = ''Return''"
| "op_to_string Protect = ''Protect''"
| "op_to_string Unprotect = ''Unprotect''"
| "op_to_string Exhaust = ''Exhaust''"
| "op_to_string ClearExhaustion = ''ClearExhaustion''"
| "op_to_string SetCapacity = ''SetCapacity''"
| "op_to_string AdvanceEpoch = ''AdvanceEpoch''"
| "op_to_string Fence = ''Fence''"
| "op_to_string Rotate = ''Rotate''"
| "op_to_string Retire = ''Retire''"
| "op_to_string Revalidate = ''Revalidate''"
| "op_to_string Reconcile = ''Reconcile''"
| "op_to_string RetireIncarnation = ''RetireIncarnation''"

datatype OpClass = ReadOp | DataOp | ControlOp

fun classify_op :: "OpKind \<Rightarrow> OpClass" where
  "classify_op Describe = ReadOp"
| "classify_op Issue = DataOp"
| "classify_op Consume = DataOp"
| "classify_op Return = DataOp"
| "classify_op Protect = DataOp"
| "classify_op Unprotect = DataOp"
| "classify_op Reconcile = DataOp"
| "classify_op _ = ControlOp"

fun op_requires_count :: "OpKind \<Rightarrow> bool" where
  "op_requires_count Issue = True"
| "op_requires_count Consume = True"
| "op_requires_count Return = True"
| "op_requires_count Protect = True"
| "op_requires_count Unprotect = True"
| "op_requires_count Retire = True"
| "op_requires_count Revalidate = True"
| "op_requires_count _ = False"

fun op_is_ledger :: "OpKind \<Rightarrow> bool" where
  "op_is_ledger Issue = True"
| "op_is_ledger Consume = True"
| "op_is_ledger Return = True"
| "op_is_ledger Protect = True"
| "op_is_ledger Unprotect = True"
| "op_is_ledger _ = False"

datatype RevalidationDecision = NoDecision | ToReturned | ToConsumed

primrec decision_value :: "RevalidationDecision \<Rightarrow> nat" where
  "decision_value NoDecision = 0"
| "decision_value ToReturned = 1"
| "decision_value ToConsumed = 2"

primrec decision_to_string :: "RevalidationDecision \<Rightarrow> string" where
  "decision_to_string NoDecision = ''None''"
| "decision_to_string ToReturned = ''ToReturned''"
| "decision_to_string ToConsumed = ''ToConsumed''"

subsection \<open>Requests and outcomes\<close>

record CreditRequest =
  req_attempt :: AttemptId
  req_op :: OpKind
  req_sequence :: u64
  req_authority :: AuthorityVector
  req_presenter :: Incarnation
  req_resource :: ResourceId
  req_producer :: ProducerId
  req_consumer :: ConsumerId
  req_grant :: GrantId
  req_target :: IncarnationId
  req_count :: u64
  req_new_capacity :: u64
  req_proof :: Digest128
  req_expected_state :: Digest128
  req_config :: AccountConfig
  req_decision :: RevalidationDecision
  req_fence_cause :: Reason
  req_note :: string

record CreditOutcome =
  out_status :: Status
  out_op :: OpKind
  out_sequence :: u64
  out_applied :: bool
  out_duplicate :: bool
  out_decided :: bool
  out_authority :: AuthorityVector
  out_view :: CreditView
  out_state_digest :: Digest128
  out_ambiguous_pending :: u64

definition default_outcome :: CreditOutcome where
  "default_outcome =
     \<lparr>out_status = success, out_op = Describe, out_sequence = 0, out_applied = False,
      out_duplicate = False, out_decided = False, out_authority = unset_authority,
      out_view = zero_view, out_state_digest = zero_digest, out_ambiguous_pending = 0\<rparr>"

abbreviation out_ok :: "CreditOutcome \<Rightarrow> bool" where
  "out_ok outcome \<equiv> status_ok (out_status outcome)"

definition config_digest :: "AccountConfig \<Rightarrow> Digest128" where
  "config_digest config =
     digest_of (Digest128 0x3C9A17E5B2D48F60 0x608FD4B2E517A93C)
       [DU64 (id_value (cfg_domain config)), DU64 (id_value (cfg_account config)),
        DU64 (id_value (cfg_resource config)), DU64 (id_value (cfg_policy config)),
        DU64 (cfg_capacity config), DU64 (cfg_max_capacity config),
        DU64 (of_nat (profile_value (cfg_profile config))),
        DU64 (min_issue (cfg_rules config)), DU64 (max_issue_per_attempt (cfg_rules config)),
        DBool (allow_protect (cfg_rules config)), DBool (allow_return (cfg_rules config)),
        DBool (allow_capacity_growth (cfg_rules config))]"

definition outcome_digest :: "CreditOutcome \<Rightarrow> Digest128" where
  "outcome_digest outcome =
     digest_of (Digest128 0x1122334455667788 0x8877665544332211)
       [DU64 (of_nat (reason_value (reason (out_status outcome)))), DU64 (detail (out_status outcome)),
        DU64 (of_nat (op_value (out_op outcome))), DU64 (out_sequence outcome),
        DBool (out_applied outcome), DBool (out_decided outcome), DDigest (out_state_digest outcome)]"

definition request_digest :: "CreditRequest \<Rightarrow> Digest128" where
  "request_digest r =
     digest_of (Digest128 0xFEEDFACE12345678 0x87654321CEFAEDEF)
       [DDigest (attempt_value (req_attempt r)), DU64 (of_nat (op_value (req_op r))),
        DU64 (req_sequence r), DDigest (authority_digest (req_authority r)),
        DU64 (id_value (inc_publisher (req_presenter r))), DU64 (id_value (inc_boot (req_presenter r))),
        DU64 (id_value (inc_id (req_presenter r))), DU64 (id_value (req_resource r)),
        DU64 (id_value (req_producer r)), DU64 (id_value (req_consumer r)),
        DU64 (id_value (req_grant r)), DU64 (id_value (req_target r)), DU64 (req_count r),
        DU64 (req_new_capacity r), DDigest (req_proof r), DDigest (req_expected_state r),
        DDigest (config_digest (req_config r)), DU64 (of_nat (decision_value (req_decision r))),
        DU64 (of_nat (reason_value (req_fence_cause r))), DText (req_note r)]"

definition outcome_describe :: "CreditOutcome \<Rightarrow> string" where
  "outcome_describe outcome =
     op_to_string (out_op outcome) @ '' seq='' @ to_string_u64 (out_sequence outcome) @ '' -> '' @
     status_describe (out_status outcome) @
     (if out_duplicate outcome then '' [duplicate]''
      else if out_applied outcome then '' [applied]'' else []) @
     (if out_decided outcome then '' [decided]'' else [])"

subsection \<open>Audit rows\<close>

record IncarnationSummary =
  sum_id :: IncarnationId
  sum_publisher :: PublisherId
  sum_boot :: BootId
  sum_state :: AuthorityState
  sum_reconciled_epoch :: EpochId
  sum_reconciled_generation :: Generation
  sum_producer :: ProducerId
  sum_consumer :: ConsumerId
  sum_grant :: GrantId
  sum_last_sequence :: u64
  sum_committed_ops :: u64
  sum_refused_ops :: u64

record AmbiguousNote =
  am_attempt :: AttemptId
  am_op :: OpKind
  am_sequence :: u64
  am_incarnation :: IncarnationId
  am_journal_sequence :: u64

record RefusalNote =
  rn_attempt :: AttemptId
  rn_op :: OpKind
  rn_sequence :: u64
  rn_incarnation :: IncarnationId
  rn_reason :: Reason
  rn_detail :: u64
  rn_epoch :: EpochId
  rn_generation :: Generation

record Explanation =
  ex_found :: bool
  ex_config :: AccountConfig
  ex_authority :: AuthorityVector
  ex_view :: CreditView
  ex_hard_exhausted :: bool
  ex_exhaustion_cause :: Reason
  ex_operator_incarnation :: IncarnationId
  ex_committed_attempts :: u64
  ex_refused_attempts :: u64
  ex_ambiguous_total :: u64
  ex_fences_total :: u64
  ex_incarnations_total :: u64
  ex_refusals_total :: u64
  ex_incarnations :: "IncarnationSummary list"
  ex_fences :: "FenceRecord list"
  ex_ambiguous :: "AmbiguousNote list"
  ex_refusals :: "RefusalNote list"
  ex_state_digest :: Digest128
  ex_note :: string

definition default_explanation :: Explanation where
  "default_explanation =
     \<lparr>ex_found = False, ex_config = default_config, ex_authority = unset_authority,
      ex_view = zero_view, ex_hard_exhausted = False, ex_exhaustion_cause = Ok,
      ex_operator_incarnation = unset_id, ex_committed_attempts = 0, ex_refused_attempts = 0,
      ex_ambiguous_total = 0, ex_fences_total = 0, ex_incarnations_total = 0, ex_refusals_total = 0,
      ex_incarnations = [], ex_fences = [], ex_ambiguous = [], ex_refusals = [],
      ex_state_digest = zero_digest, ex_note = []\<rparr>"

record EngineStats =
  st_attempts_applied :: u64
  st_attempts_refused :: u64
  st_duplicates_absorbed :: u64
  st_journal_records :: u64
  st_journal_bytes :: u64
  st_snapshots :: u64
  st_replayed_records :: u64
  st_replayed_ambiguous :: u64

definition zero_stats :: EngineStats where
  "zero_stats =
     \<lparr>st_attempts_applied = 0, st_attempts_refused = 0, st_duplicates_absorbed = 0,
      st_journal_records = 0, st_journal_bytes = 0, st_snapshots = 0, st_replayed_records = 0,
      st_replayed_ambiguous = 0\<rparr>"

subsection \<open>Rendering\<close>

definition render_incarnation :: "IncarnationSummary \<Rightarrow> string" where
  "render_incarnation s =
     ''  incarnation '' @ to_hex (id_value (sum_id s)) @
     '' publisher='' @ to_hex (id_value (sum_publisher s)) @
     '' boot='' @ to_hex (id_value (sum_boot s)) @
     '' state='' @ authority_state_to_string (sum_state s) @
     '' era='' @ to_string_u64 (id_value (sum_reconciled_epoch s)) @
     ''/'' @ to_string_u64 (id_value (sum_reconciled_generation s)) @
     '' producer='' @ to_hex (id_value (sum_producer s)) @
     '' consumer='' @ to_hex (id_value (sum_consumer s)) @
     '' last_seq='' @ to_string_u64 (sum_last_sequence s) @ [CHR 0x0A]"

definition render_fence :: "FenceRecord \<Rightarrow> string" where
  "render_fence f =
     ''  fence '' @ to_hex (id_value (fr_incarnation f)) @
     '' at epoch='' @ to_string_u64 (id_value (fr_epoch f)) @
     '' cause='' @ reason_to_string (fr_cause f) @
     '' fenced_credit='' @ to_string_u64 (fr_fenced_credit f) @ [CHR 0x0A]"

definition render_ambiguous :: "AmbiguousNote \<Rightarrow> string" where
  "render_ambiguous n =
     ''  ambiguous '' @ op_to_string (am_op n) @ '' seq='' @ to_string_u64 (am_sequence n) @
     '' incarnation='' @ to_hex (id_value (am_incarnation n)) @ [CHR 0x0A]"

definition render_refusal :: "RefusalNote \<Rightarrow> string" where
  "render_refusal n =
     ''  refusal '' @ op_to_string (rn_op n) @ '' seq='' @ to_string_u64 (rn_sequence n) @
     '' reason='' @ reason_to_string (rn_reason n) @ [CHR 0x0A]"

definition render :: "Explanation \<Rightarrow> string" where
  "render e =
     ''account='' @ to_hex (id_value (cfg_account (ex_config e))) @
     (if \<not> ex_found e then '' UNKNOWN'' @ [CHR 0x0A]
      else
        '' domain='' @ to_hex (id_value (cfg_domain (ex_config e))) @
        '' resource='' @ to_hex (id_value (cfg_resource (ex_config e))) @
        '' profile='' @ profile_to_string (cfg_profile (ex_config e)) @ [CHR 0x0A] @
        ''authority: epoch='' @ to_string_u64 (id_value (av_epoch (ex_authority e))) @
        '' generation='' @ to_string_u64 (id_value (av_generation (ex_authority e))) @
        '' operator='' @ to_hex (id_value (ex_operator_incarnation e)) @ [CHR 0x0A] @
        ''view: '' @ view_to_string (ex_view e) @ [CHR 0x0A] @
        ''exhaustion: '' @ (if ex_hard_exhausted e then ''HARD'' else ''open'') @
        '' cause='' @ reason_to_string (ex_exhaustion_cause e) @
        (if exhausted (ex_view e) then '' available=0'' else '' available>0'') @ [CHR 0x0A] @
        ''state_digest='' @ digest_to_hex (ex_state_digest e) @
        '' committed='' @ to_string_u64 (ex_committed_attempts e) @
        '' refused='' @ to_string_u64 (ex_refused_attempts e) @ [CHR 0x0A] @
        ''incarnations='' @ to_string_u64 (ex_incarnations_total e) @
        '' fences='' @ to_string_u64 (ex_fences_total e) @
        '' ambiguous='' @ to_string_u64 (ex_ambiguous_total e) @ [CHR 0x0A] @
        concat (map render_incarnation (ex_incarnations e)) @
        concat (map render_fence (ex_fences e)) @
        concat (map render_ambiguous (ex_ambiguous e)) @
        concat (map render_refusal (ex_refusals e)))"

subsection \<open>The raw numbering is a bijection\<close>

lemma op_value_bound [simp]: "op_value oper < 17"
  by (cases oper) simp_all

lemma op_of_value_inverse [simp]: "op_of_value (op_value oper) = oper"
  by (cases oper) (simp_all add: op_of_value_def all_ops_def)

lemma op_value_of_value:
  assumes "n < 17" shows "op_value (op_of_value n) = n"
proof -
  have "map op_value all_ops = [0..<17]" "length all_ops = 17" by (code_simp, simp add: all_ops_def)
  then have "map op_value all_ops ! n = [0..<17] ! n" by simp
  with assms \<open>length all_ops = 17\<close> show ?thesis by (simp add: op_of_value_def)
qed

lemma op_raw_roundtrip:
  "is_valid_op (of_nat (op_value oper))"
  "op_of_value (unat (of_nat (op_value oper) :: u8)) = oper"
proof -
  have "unat (of_nat (op_value oper) :: u8) = op_value oper"
    using less_trans [OF op_value_bound [of oper], of 256] by (simp add: unat_of_nat)
  then show "is_valid_op (of_nat (op_value oper))"
    "op_of_value (unat (of_nat (op_value oper) :: u8)) = oper"
    by (simp_all add: is_valid_op_def kOpKindCount_def)
qed

lemma control_or_data:
  "classify_op oper = ControlOp \<or> classify_op oper = DataOp \<or> oper = Describe"
  by (cases oper) simp_all

lemma data_ops: "classify_op oper = DataOp \<longleftrightarrow> op_is_ledger oper \<or> oper = Reconcile"
  by (cases oper) simp_all

end
