(* ===== verification/Bytes.thy ===== *)
theory Bytes
  imports Messages "HOL-Library.Sublist"
begin

text \<open>
  The bounded little-endian codec of \<open>include/creditfabric/bytes.hpp\<close> and the interface every
  encoder/decoder pair of the wire and record formats has to meet.

  A \<open>ByteWriter\<close> call is the list of bytes it appends. A \<open>ByteReader\<close> is a record of the buffer, the
  position and the sticky failure flag; a primitive read returns \<open>None\<close> where the C++ call returns
  \<open>false\<close> (with the reader as the call leaves it), and a decoder returns the refused \<open>Status\<close> as the
  left summand. A decoder that fails leaves its out-parameter partly written in C++; every caller
  discards it, so the model returns only the status. Locale \<open>codec\<close> is the contract (a decoder accepts
  exactly the encodings of well-formed values and consumes exactly their bytes); from it follow the
  round trip, injectivity and that no encoding is a prefix of another, and locale \<open>counted_codec\<close>
  lifts the contract to length-prefixed collections.
\<close>

subsection \<open>Writers\<close>

definition bw_u8 :: "u8 \<Rightarrow> bytes" where
  "bw_u8 v = [v]"

definition bw_boolean :: "bool \<Rightarrow> bytes" where
  "bw_boolean v = [if v then 1 else 0]"

definition bw_u16 :: "u16 \<Rightarrow> bytes" where
  "bw_u16 = le_encode 2"

definition bw_u32 :: "u32 \<Rightarrow> bytes" where
  "bw_u32 = le_encode 4"

definition bw_u64 :: "u64 \<Rightarrow> bytes" where
  "bw_u64 = le_encode 8"

definition bw_digest :: "Digest128 \<Rightarrow> bytes" where
  "bw_digest d = bw_u64 (dg_lo d) @ bw_u64 (dg_hi d)"

definition bw_text :: "string \<Rightarrow> nat \<Rightarrow> bytes option" where
  "bw_text s max_bytes =
     (if length s > max_bytes then None
      else Some (bw_u32 (of_nat (length s)) @ map byte_of_char s))"

lemma length_bw [simp]:
  "length (bw_u8 a) = 1" "length (bw_boolean b) = 1" "length (bw_u16 c) = 2"
  "length (bw_u32 d) = 4" "length (bw_u64 e) = 8" "length (bw_digest f) = 16"
  by (simp_all add: bw_u8_def bw_boolean_def bw_u16_def bw_u32_def bw_u64_def bw_digest_def)

subsection \<open>Readers\<close>

record ByteReader =
  rd_data :: bytes
  rd_position :: nat
  rd_failed :: bool

type_synonym 'a reading = "ByteReader \<Rightarrow> 'a option \<times> ByteReader"
type_synonym 'a decoder = "ByteReader \<Rightarrow> (Status + 'a) \<times> ByteReader"

definition make_reader :: "bytes \<Rightarrow> ByteReader" where
  "make_reader bs = \<lparr>rd_data = bs, rd_position = 0, rd_failed = False\<rparr>"

definition rd_remaining :: "ByteReader \<Rightarrow> nat" where
  "rd_remaining r = length (rd_data r) - rd_position r"

definition rd_done :: "ByteReader \<Rightarrow> bool" where
  "rd_done r \<longleftrightarrow> rd_position r = length (rd_data r)"

definition rd_ensure :: "nat \<Rightarrow> ByteReader \<Rightarrow> bool \<times> ByteReader" where
  "rd_ensure count r =
     (if count > length (rd_data r) - rd_position r then (False, r\<lparr>rd_failed := True\<rparr>) else (True, r))"

definition advance :: "nat \<Rightarrow> ByteReader \<Rightarrow> ByteReader" where
  "advance n r = r\<lparr>rd_position := rd_position r + n\<rparr>"

definition ahead :: "ByteReader \<Rightarrow> bytes" where
  "ahead r = drop (rd_position r) (rd_data r)"

text \<open>\<open>ensure(n)\<close>, then the next \<open>n\<close> bytes.\<close>

definition rd_raw :: "nat \<Rightarrow> bytes reading" where
  "rd_raw n r =
     (case rd_ensure n r of
        (False, r') \<Rightarrow> (None, r')
      | (True, r') \<Rightarrow> (Some (take n (drop (rd_position r') (rd_data r'))), advance n r'))"

definition rd_skip :: "nat \<Rightarrow> unit reading" where
  "rd_skip n r =
     (case rd_ensure n r of (False, r') \<Rightarrow> (None, r') | (True, r') \<Rightarrow> (Some (), advance n r'))"

definition rd_u8 :: "u8 reading" where
  "rd_u8 r = (case rd_raw 1 r of (None, r') \<Rightarrow> (None, r') | (Some bs, r') \<Rightarrow> (Some (bs ! 0), r'))"

definition rd_boolean :: "bool reading" where
  "rd_boolean r =
     (case rd_u8 r of
        (None, r') \<Rightarrow> (None, r')
      | (Some raw, r') \<Rightarrow> if raw > 1 then (None, r'\<lparr>rd_failed := True\<rparr>) else (Some (raw = 1), r'))"

definition rd_le :: "nat \<Rightarrow> 'a::len word reading" where
  "rd_le n r =
     (case rd_raw n r of (None, r') \<Rightarrow> (None, r') | (Some bs, r') \<Rightarrow> (Some (le_decode n bs), r'))"

definition rd_u16 :: "u16 reading" where
  "rd_u16 = rd_le 2"

definition rd_u32 :: "u32 reading" where
  "rd_u32 = rd_le 4"

definition rd_u64 :: "u64 reading" where
  "rd_u64 = rd_le 8"

text \<open>\<open>a && b\<close> on reads: the second is made only where the first succeeds.\<close>

definition rd_return :: "'a \<Rightarrow> 'a reading" where
  "rd_return a r = (Some a, r)"

definition rd_bind :: "'a reading \<Rightarrow> ('a \<Rightarrow> 'b reading) \<Rightarrow> 'b reading" where
  "rd_bind m f r = (case m r of (None, r') \<Rightarrow> (None, r') | (Some a, r') \<Rightarrow> f a r')"

definition rd_digest :: "Digest128 reading" where
  "rd_digest = rd_bind rd_u64 (\<lambda>lo. rd_bind rd_u64 (\<lambda>hi. rd_return (Digest128 lo hi)))"

definition rd_text :: "nat \<Rightarrow> string reading" where
  "rd_text max_bytes =
     rd_bind rd_u32 (\<lambda>length_prefix r.
       if unat length_prefix > max_bytes \<or> unat length_prefix > rd_remaining r
       then (None, r\<lparr>rd_failed := True\<rparr>)
       else (Some (map char_of_byte (take (unat length_prefix) (drop (rd_position r) (rd_data r)))),
             advance (unat length_prefix) r))"

subsection \<open>Decoders\<close>

definition dec_return :: "'a \<Rightarrow> 'a decoder" where
  "dec_return a r = (Inr a, r)"

definition dec_fail :: "Status \<Rightarrow> 'a decoder" where
  "dec_fail s r = (Inl s, r)"

definition dec_bind :: "'a decoder \<Rightarrow> ('a \<Rightarrow> 'b decoder) \<Rightarrow> 'b decoder" where
  "dec_bind m f r = (case m r of (Inl s, r') \<Rightarrow> (Inl s, r') | (Inr a, r') \<Rightarrow> f a r')"

text \<open>\<open>if (!read...) return Status::refused(why, reader.position())\<close>\<close>

definition dec_read :: "Reason \<Rightarrow> 'a reading \<Rightarrow> 'a decoder" where
  "dec_read why m r =
     (case m r of
        (None, r') \<Rightarrow> (Inl (refused why (of_nat (rd_position r'))), r')
      | (Some a, r') \<Rightarrow> (Inr a, r'))"

definition dec_require :: "bool \<Rightarrow> Status \<Rightarrow> unit decoder" where
  "dec_require b s = (if b then dec_return () else dec_fail s)"

text \<open>\<open>if (!reader.done()) return Status::refused(MalformedMessage, reader.position())\<close>\<close>

definition dec_done :: "unit decoder" where
  "dec_done r =
     (if rd_done r then (Inr (), r) else (Inl (refused MalformedMessage (of_nat (rd_position r))), r))"

fun dec_times :: "nat \<Rightarrow> 'a decoder \<Rightarrow> 'a list decoder" where
  "dec_times 0 d = dec_return []"
| "dec_times (Suc n) d = dec_bind d (\<lambda>x. dec_bind (dec_times n d) (\<lambda>xs. dec_return (x # xs)))"

definition kMaxCollection :: nat where
  "kMaxCollection = 1048576"

definition within_budget :: "ByteReader \<Rightarrow> u64 \<Rightarrow> nat \<Rightarrow> bool" where
  "within_budget r count minimum_bytes_per_item \<longleftrightarrow>
     unat count \<le> kMaxCollection \<and> rd_remaining r \<ge> unat count * minimum_bytes_per_item"

text \<open>A \<open>u64\<close> count, refused with \<open>MalformedMessage code\<close> when it cannot be read or cannot fit.\<close>

definition dec_count :: "nat \<Rightarrow> u64 \<Rightarrow> nat decoder" where
  "dec_count minimum code r =
     (case rd_u64 r of
        (None, r') \<Rightarrow> (Inl (refused MalformedMessage code), r')
      | (Some count, r') \<Rightarrow>
          if within_budget r' count minimum then (Inr (unat count), r')
          else (Inl (refused MalformedMessage code), r'))"

definition dec_counted :: "nat \<Rightarrow> u64 \<Rightarrow> 'a decoder \<Rightarrow> 'a list decoder" where
  "dec_counted minimum code d = dec_bind (dec_count minimum code) (\<lambda>n. dec_times n d)"

definition enc_counted :: "('a \<Rightarrow> bytes) \<Rightarrow> 'a list \<Rightarrow> bytes" where
  "enc_counted enc xs = bw_u64 (of_nat (length xs)) @ concat (map enc xs)"

subsection \<open>What the primitive reads accept\<close>

lemma of_nat_unat_word: "of_nat (unat x) = (x :: 'a::len word)"
  by simp

lemma ahead_advance: "ahead (advance n r) = drop n (ahead r)"
  by (simp add: ahead_def advance_def add.commute)

lemma advance_advance [simp]: "advance n (advance m r) = advance (m + n) r"
  by (simp add: advance_def)

lemma advance_0 [simp]: "advance 0 r = r"
  by (simp add: advance_def)

lemma ahead_make_reader [simp]: "ahead (make_reader bs) = bs"
  by (simp add: ahead_def make_reader_def)

lemma rd_remaining_ahead: "rd_remaining r = length (ahead r)"
  by (simp add: rd_remaining_def ahead_def)

lemma prefix_append_ahead:
  "prefix (xs @ ys) (ahead r) \<longleftrightarrow> prefix xs (ahead r) \<and> prefix ys (ahead (advance (length xs) r))"
  by (auto simp: prefix_def ahead_advance)

lemma take_eq_prefix: "n \<le> length zs \<and> take n zs = xs \<longleftrightarrow> n = length xs \<and> prefix xs zs"
  by (auto simp: take_is_prefix) (auto simp: prefix_def)

lemma rd_raw_iff:
  "rd_raw n r = (Some bs, r') \<longleftrightarrow> length bs = n \<and> prefix bs (ahead r) \<and> r' = advance n r"
proof -
  have "(n \<le> length (ahead r) \<and> take n (ahead r) = bs) = (n = length bs \<and> prefix bs (ahead r))"
    by (rule take_eq_prefix)
  moreover have "length (rd_data r) - rd_position r = length (ahead r)" by (simp add: ahead_def)
  ultimately show ?thesis
    unfolding rd_raw_def rd_ensure_def ahead_def [symmetric] by auto
qed

lemma rd_skip_iff: "rd_skip n r = (Some u, r') \<longleftrightarrow> n \<le> length (ahead r) \<and> r' = advance n r"
  by (auto simp: rd_skip_def rd_ensure_def ahead_def split: prod.splits)

lemma rd_le_iff:
  assumes "LENGTH('a::len) = 8 * n"
  shows "rd_le n r = (Some (v :: 'a word), r') \<longleftrightarrow> prefix (le_encode n v) (ahead r) \<and> r' = advance n r"
proof -
  have "rd_le n r = (Some v, r') \<longleftrightarrow> (\<exists>bs. rd_raw n r = (Some bs, r') \<and> le_decode n bs = v)"
    by (auto simp: rd_le_def split: prod.splits option.splits)
  also have "\<dots> \<longleftrightarrow> (\<exists>bs. length bs = n \<and> le_decode n bs = v \<and> prefix bs (ahead r) \<and> r' = advance n r)"
    by (auto simp: rd_raw_iff)
  also have "\<dots> \<longleftrightarrow> prefix (le_encode n v) (ahead r) \<and> r' = advance n r"
    using assms le_encode_decode [where 'a='a, of n] le_decode_encode [where 'a='a, of n v "[]"]
    by (metis append_Nil2 le_refl length_le_encode)
  finally show ?thesis .
qed

lemma rd_u16_iff: "rd_u16 r = (Some v, r') \<longleftrightarrow> prefix (bw_u16 v) (ahead r) \<and> r' = advance 2 r"
  by (simp add: rd_u16_def bw_u16_def rd_le_iff)

lemma rd_u32_iff: "rd_u32 r = (Some v, r') \<longleftrightarrow> prefix (bw_u32 v) (ahead r) \<and> r' = advance 4 r"
  by (simp add: rd_u32_def bw_u32_def rd_le_iff)

lemma rd_u64_iff: "rd_u64 r = (Some v, r') \<longleftrightarrow> prefix (bw_u64 v) (ahead r) \<and> r' = advance 8 r"
  by (simp add: rd_u64_def bw_u64_def rd_le_iff)

lemma rd_u8_iff: "rd_u8 r = (Some v, r') \<longleftrightarrow> prefix (bw_u8 v) (ahead r) \<and> r' = advance 1 r"
proof -
  have "rd_u8 r = (Some v, r') \<longleftrightarrow> (\<exists>bs. rd_raw 1 r = (Some bs, r') \<and> bs ! 0 = v)"
    by (auto simp: rd_u8_def split: prod.splits option.splits)
  then show ?thesis
    by (auto simp: rd_raw_iff bw_u8_def length_Suc_conv)
qed

lemma boolean_byte: "(b \<le> 1 \<and> (b = 1) = v) \<longleftrightarrow> b = (if v then 1 else (0 :: u8))"
proof -
  have "b \<le> 1 \<longleftrightarrow> b = 0 \<or> b = 1" by (auto simp: word_le_nat_alt word_eq_iff_unat)
  then show ?thesis by auto
qed

lemma rd_boolean_iff:
  "rd_boolean r = (Some v, r') \<longleftrightarrow> prefix (bw_boolean v) (ahead r) \<and> r' = advance 1 r"
proof -
  have "rd_boolean r = (Some v, r') \<longleftrightarrow> (\<exists>b. rd_u8 r = (Some b, r') \<and> b \<le> 1 \<and> (b = 1) = v)"
    by (auto simp: rd_boolean_def not_less split: prod.splits option.splits if_splits)
  then show ?thesis
    unfolding boolean_byte by (auto simp: rd_u8_iff bw_u8_def bw_boolean_def)
qed

lemma rd_bind_iff:
  "rd_bind m f r = (Some b, r'') \<longleftrightarrow> (\<exists>a r'. m r = (Some a, r') \<and> f a r' = (Some b, r''))"
  by (auto simp: rd_bind_def split: prod.splits option.splits)

lemma rd_return_iff: "rd_return a r = (Some b, r') \<longleftrightarrow> b = a \<and> r' = r"
  by (auto simp: rd_return_def)

lemma rd_digest_iff:
  "rd_digest r = (Some v, r') \<longleftrightarrow> prefix (bw_digest v) (ahead r) \<and> r' = advance 16 r"
  by (cases v) (auto simp: rd_digest_def rd_bind_iff rd_return_iff rd_u64_iff bw_digest_def prefix_append_ahead)

lemma char_of_byte_of_char [simp]: "char_of_byte (byte_of_char c) = c"
proof -
  have "unat (of_nat (of_char c) :: u8) = (of_char c :: nat)"
    using nat_of_char_less_256 [of c] by (simp add: unat_of_nat)
  then show ?thesis by (simp add: char_of_byte_def byte_of_char_def)
qed

lemma byte_of_char_of_byte [simp]: "byte_of_char (char_of_byte b) = b"
proof -
  have "unat b < 256" using unsigned_less [of b, where 'a=nat] by simp
  then show ?thesis by (simp add: char_of_byte_def byte_of_char_def)
qed

lemma rd_text_iff:
  assumes "max_bytes < 2 ^ 32"
  shows "rd_text max_bytes r = (Some s, r') \<longleftrightarrow>
           length s \<le> max_bytes \<and>
           prefix (bw_u32 (of_nat (length s)) @ map byte_of_char s) (ahead r) \<and>
           r' = advance (4 + length s) r"
proof -
  have chars: "map char_of_byte bs = s \<longleftrightarrow> bs = map byte_of_char s" for bs
    by (auto simp: comp_def)
  have fits: "n \<le> max_bytes \<Longrightarrow> unat (of_nat n :: u32) = n" for n
    using assms by (simp add: unat_of_nat)
  have "rd_text max_bytes r = (Some s, r') \<longleftrightarrow>
          (\<exists>n. prefix (bw_u32 n) (ahead r) \<and> unat n \<le> max_bytes \<and> unat n \<le> length (drop 4 (ahead r)) \<and>
               take (unat n) (drop 4 (ahead r)) = map byte_of_char s \<and> r' = advance (4 + unat n) r)"
    unfolding rd_text_def rd_bind_iff rd_u32_iff
    by (auto simp: rd_remaining_ahead ahead_def [symmetric] ahead_advance chars not_less)
  also have "\<dots> \<longleftrightarrow> (\<exists>n. unat n = length s \<and> prefix (bw_u32 n) (ahead r) \<and> length s \<le> max_bytes \<and>
               prefix (map byte_of_char s) (drop 4 (ahead r)) \<and> r' = advance (4 + length s) r)"
  proof -
    have "unat n \<le> length xs \<and> take (unat n) xs = map byte_of_char s \<longleftrightarrow>
            unat n = length s \<and> prefix (map byte_of_char s) xs" for n :: u32 and xs
      using take_eq_prefix [of "unat n" xs "map byte_of_char s"] by simp
    then show ?thesis by metis
  qed
  also have "\<dots> \<longleftrightarrow> length s \<le> max_bytes \<and> prefix (bw_u32 (of_nat (length s))) (ahead r) \<and>
               prefix (map byte_of_char s) (drop 4 (ahead r)) \<and> r' = advance (4 + length s) r"
    using fits [of "length s"] by (metis of_nat_unat_word)
  finally show ?thesis
    by (auto simp: prefix_append_ahead ahead_advance)
qed

lemmas rd_iffs =
  rd_u8_iff rd_boolean_iff rd_u16_iff rd_u32_iff rd_u64_iff rd_digest_iff rd_bind_iff rd_return_iff

subsection \<open>What the decoders accept\<close>

lemma dec_bind_iff:
  "dec_bind m f r = (Inr b, r'') \<longleftrightarrow> (\<exists>a r'. m r = (Inr a, r') \<and> f a r' = (Inr b, r''))"
  by (auto simp: dec_bind_def split: prod.splits sum.splits)

lemma dec_return_iff: "dec_return a r = (Inr b, r') \<longleftrightarrow> b = a \<and> r' = r"
  by (auto simp: dec_return_def)

lemma dec_fail_iff: "dec_fail s r = (Inr b, r') \<longleftrightarrow> False"
  by (auto simp: dec_fail_def)

lemma dec_read_iff: "dec_read why m r = (Inr a, r') \<longleftrightarrow> m r = (Some a, r')"
  by (auto simp: dec_read_def split: prod.splits option.splits)

lemma dec_require_iff: "dec_require b s r = (Inr u, r') \<longleftrightarrow> b \<and> r' = r"
  by (auto simp: dec_require_def dec_return_def dec_fail_def)

lemma dec_done_iff: "dec_done r = (Inr u, r') \<longleftrightarrow> rd_done r \<and> r' = r"
  by (auto simp: dec_done_def)

lemma dec_count_iff:
  "dec_count minimum code r = (Inr n, r') \<longleftrightarrow>
     n \<le> kMaxCollection \<and> prefix (bw_u64 (of_nat n)) (ahead r) \<and> r' = advance 8 r \<and>
     n * minimum \<le> length (drop 8 (ahead r))"
proof -
  have n: "unat (of_nat n :: u64) = n" if "n \<le> kMaxCollection" for n
    using that by (simp add: kMaxCollection_def unat_of_nat)
  have "dec_count minimum code r = (Inr n, r') \<longleftrightarrow>
          (\<exists>c. rd_u64 r = (Some c, r') \<and> within_budget r' c minimum \<and> n = unat c)"
    by (auto simp: dec_count_def split: prod.splits option.splits if_splits)
  also have "\<dots> \<longleftrightarrow> (\<exists>c. n = unat c \<and> prefix (bw_u64 c) (ahead r) \<and> r' = advance 8 r \<and>
          unat c \<le> kMaxCollection \<and> unat c * minimum \<le> length (drop 8 (ahead r)))"
    by (auto simp: rd_u64_iff within_budget_def rd_remaining_ahead ahead_advance)
  also have "\<dots> \<longleftrightarrow> n \<le> kMaxCollection \<and> prefix (bw_u64 (of_nat n)) (ahead r) \<and> r' = advance 8 r \<and>
          n * minimum \<le> length (drop 8 (ahead r))"
    using n by (metis of_nat_unat_word)
  finally show ?thesis .
qed

lemmas dec_iffs =
  dec_bind_iff dec_return_iff dec_fail_iff dec_read_iff dec_require_iff rd_iffs

subsection \<open>The codec contract\<close>

locale codec =
  fixes enc :: "'a \<Rightarrow> bytes" and dec :: "'a decoder" and wf :: "'a \<Rightarrow> bool"
  assumes accepts:
    "dec r = (Inr a, r') \<longleftrightarrow> wf a \<and> prefix (enc a) (ahead r) \<and> r' = advance (length (enc a)) r"
begin

lemma roundtrip: "wf a \<Longrightarrow> dec (make_reader (enc a @ rest)) = (Inr a, advance (length (enc a)) (make_reader (enc a @ rest)))"
  by (simp add: accepts)

lemma prefix_free: "wf a \<Longrightarrow> wf b \<Longrightarrow> enc a @ xs = enc b @ ys \<Longrightarrow> a = b \<and> xs = ys"
proof -
  assume ab: "wf a" "wf b" and eq: "enc a @ xs = enc b @ ys"
  have "dec (make_reader (enc a @ xs)) = (Inr b, advance (length (enc b)) (make_reader (enc a @ xs)))"
    using roundtrip [OF ab(2), of ys] by (simp add: eq)
  then have "a = b" using roundtrip [OF ab(1), of xs] by simp
  with eq show ?thesis by simp
qed

lemma enc_inj: "wf a \<Longrightarrow> wf b \<Longrightarrow> enc a = enc b \<Longrightarrow> a = b"
  using prefix_free [of a b "[]" "[]"] by simp

lemma times_accepts:
  "dec_times n dec r = (Inr xs, r') \<longleftrightarrow>
     length xs = n \<and> list_all wf xs \<and> prefix (concat (map enc xs)) (ahead r) \<and>
     r' = advance (length (concat (map enc xs))) r"
proof (induction n arbitrary: xs r r')
  case 0
  then show ?case by (auto simp: dec_return_iff)
next
  case (Suc n)
  show ?case
    by (cases xs) (auto simp: dec_iffs Suc.IH accepts prefix_append_ahead)
qed

text \<open>A whole message: the body, then the reader has to be at the end.\<close>

lemma message_accepts:
  "fst (dec_bind dec (\<lambda>a. dec_bind dec_done (\<lambda>_. dec_return a)) (make_reader bs)) = Inr a \<longleftrightarrow>
     wf a \<and> bs = enc a"
proof -
  have "fst (dec_bind dec (\<lambda>a. dec_bind dec_done (\<lambda>_. dec_return a)) (make_reader bs)) = Inr a \<longleftrightarrow>
          (\<exists>r'. dec_bind dec (\<lambda>a. dec_bind dec_done (\<lambda>_. dec_return a)) (make_reader bs) = (Inr a, r'))"
    by (metis fst_conv prod.exhaust_sel)
  also have "\<dots> \<longleftrightarrow> wf a \<and> prefix (enc a) bs \<and> length (enc a) = length bs"
    by (auto simp: dec_iffs dec_done_iff accepts rd_done_def) (auto simp: advance_def make_reader_def)
  also have "\<dots> \<longleftrightarrow> wf a \<and> bs = enc a"
    by (auto simp: prefix_def)
  finally show ?thesis .
qed

end

locale counted_codec = codec enc dec wf
  for enc :: "'a \<Rightarrow> bytes" and dec :: "'a decoder" and wf :: "'a \<Rightarrow> bool" +
  fixes minimum :: nat
  assumes item_size: "wf a \<Longrightarrow> minimum \<le> length (enc a)"
begin

lemma items_size: "list_all wf xs \<Longrightarrow> length xs * minimum \<le> length (concat (map enc xs))"
proof (induction xs)
  case (Cons x xs)
  then show ?case using item_size [of x] by simp
qed simp

lemma counted_accepts:
  "dec_counted minimum code dec r = (Inr xs, r') \<longleftrightarrow>
     (length xs \<le> kMaxCollection \<and> list_all wf xs) \<and> prefix (enc_counted enc xs) (ahead r) \<and>
     r' = advance (length (enc_counted enc xs)) r"
proof -
  have room: "length xs * minimum \<le> length (drop 8 (ahead r))"
    if "list_all wf xs" "prefix (concat (map enc xs)) (drop 8 (ahead r))"
    using items_size [OF that(1)] prefix_length_le [OF that(2)] by simp
  show ?thesis
    unfolding dec_counted_def enc_counted_def
    by (auto simp: dec_iffs dec_count_iff times_accepts prefix_append_ahead ahead_advance intro: room [simplified])
qed

end

sublocale counted_codec \<subseteq> collection: codec "enc_counted enc" "dec_counted minimum code dec"
  "\<lambda>xs. length xs \<le> kMaxCollection \<and> list_all wf xs" for code
  by unfold_locales (rule counted_accepts)

end
