(* ===== verification/Crc32c.thy ===== *)
theory Crc32c
  imports Bytes
begin

unbundle bit_operations_syntax

text \<open>
  The table-driven CRC-32C of \<open>src/crc32c.cpp\<close>, which seals every frame and every journal record. The
  table is shown to implement the bit-serial shift register, whose step is linear and bijective;
  every corruption confined to four consecutive bytes is therefore detected with certainty.
\<close>

subsection \<open>The implementation\<close>

definition kPolynomial :: u32 where
  "kPolynomial = 0x82F63B78"

definition crc_bit_step :: "u32 \<Rightarrow> u32" where
  "crc_bit_step crc = (if crc AND 1 \<noteq> 0 then drop_bit 1 crc XOR kPolynomial else drop_bit 1 crc)"

definition make_table :: "u32 list" where
  "make_table = map (\<lambda>i. (crc_bit_step ^^ 8) (of_nat i)) [0..<256]"

definition kTable :: "u32 list" where
  "kTable = make_table"

definition crc_byte_step :: "u8 \<Rightarrow> u32 \<Rightarrow> u32" where
  "crc_byte_step b crc = kTable ! unat ((crc XOR ucast b) AND 0xFF) XOR drop_bit 8 crc"

definition crc32c :: "bytes \<Rightarrow> u32 \<Rightarrow> u32" where
  "crc32c bs seed = NOT (fold crc_byte_step bs (NOT seed))"

definition crc32c_u64 :: "u64 \<Rightarrow> u32 \<Rightarrow> u32" where
  "crc32c_u64 v seed = crc32c (map (\<lambda>i. ucast (drop_bit (8 * i) v AND 0xFF)) [0..<8]) seed"

subsection \<open>The shift register is linear and bijective\<close>

lemma and_one_bit: "((crc :: u32) AND 1 \<noteq> 0) \<longleftrightarrow> bit crc 0"
  by (simp add: and_one_eq bit_0 odd_iff_mod_2_eq_one)

lemma xor_right_cancel: "a XOR c = b XOR c \<longleftrightarrow> a = (b :: u32)"
proof
  assume "a XOR c = b XOR c"
  then have "(a XOR c) XOR c = (b XOR c) XOR c" by (rule arg_cong)
  then show "a = b" by (simp add: xor.assoc)
qed simp

lemma xor_left_cancel: "c XOR a = c XOR b \<longleftrightarrow> a = (b :: u32)"
  using xor_right_cancel [of a c b] by (simp add: xor.commute)

lemma crc_bit_step_alt:
  "crc_bit_step crc = (if bit crc 0 then drop_bit 1 crc XOR kPolynomial else drop_bit 1 crc)"
  unfolding crc_bit_step_def and_one_bit ..

lemma bit_step_xor: "crc_bit_step (x XOR y) = crc_bit_step x XOR crc_bit_step y"
  unfolding crc_bit_step_alt
  by (rule bit_word_eqI) (auto simp: bit_simps)

lemma bit_steps_xor: "(crc_bit_step ^^ n) (x XOR y) = (crc_bit_step ^^ n) x XOR (crc_bit_step ^^ n) y"
  by (induction n) (simp_all add: bit_step_xor)

lemma polynomial_top: "bit kPolynomial 31"
  unfolding kPolynomial_def by simp

lemma bit_step_top: "bit (crc_bit_step x) 31 \<longleftrightarrow> bit x 0"
  using polynomial_top bit_imp_le_length [of x 32] by (auto simp: crc_bit_step_alt bit_simps)

lemma bit_step_inj: "crc_bit_step x = crc_bit_step y \<Longrightarrow> x = y"
proof -
  assume eq: "crc_bit_step x = crc_bit_step y"
  then have low: "bit x 0 \<longleftrightarrow> bit y 0" by (metis bit_step_top)
  then have shifted: "drop_bit 1 x = drop_bit 1 y"
    using eq by (simp add: crc_bit_step_alt xor_right_cancel split: if_splits)
  show "x = y"
  proof (rule bit_word_eqI)
    fix n assume "n < LENGTH(32)"
    show "bit x n = bit y n"
    proof (cases n)
      case (Suc m)
      then show ?thesis using arg_cong [OF shifted, of "\<lambda>w. bit w m"] by (simp add: bit_simps)
    qed (use low in simp)
  qed
qed

lemma bit_steps_inj: "(crc_bit_step ^^ n) x = (crc_bit_step ^^ n) y \<Longrightarrow> x = y"
  by (induction n) (auto dest: bit_step_inj)

lemma bit_steps_shift:
  "n \<le> 32 \<Longrightarrow> (\<And>k. k < n \<Longrightarrow> \<not> bit x k) \<Longrightarrow> (crc_bit_step ^^ n) x = drop_bit n x"
proof (induction n)
  case (Suc n)
  then have "(crc_bit_step ^^ n) x = drop_bit n x" by simp
  moreover have "\<not> bit (drop_bit n x) 0" using Suc.prems(2) [of n] by (simp add: bit_simps)
  ultimately have "crc_bit_step ((crc_bit_step ^^ n) x) = drop_bit 1 (drop_bit n x)"
    by (simp add: crc_bit_step_alt [of "drop_bit n x"])
  then show ?case by simp
qed simp

subsection \<open>The table implements eight steps of the register\<close>

lemma kTable_nth: "n < 256 \<Longrightarrow> kTable ! n = (crc_bit_step ^^ 8) (of_nat n)"
  by (simp add: kTable_def make_table_def)

lemma crc_byte_step_register: "crc_byte_step b crc = (crc_bit_step ^^ 8) (crc XOR ucast b)"
proof -
  define x where "x = crc XOR ucast b"
  have low: "x AND 0xFF = take_bit 8 x"
    by (simp add: take_bit_eq_mask mask_eq_exp_minus_1)
  have bound: "unat (take_bit 8 x) < 256"
    using take_bit_nat_less_exp [of 8 "unat x"] by (simp add: unsigned_take_bit_eq)
  have split: "x = take_bit 8 x XOR push_bit 8 (drop_bit 8 x)"
    by (rule bit_word_eqI) (auto simp: bit_simps)
  have "(crc_bit_step ^^ 8) x = (crc_bit_step ^^ 8) (take_bit 8 x) XOR drop_bit 8 x"
  proof -
    have "(crc_bit_step ^^ 8) (push_bit 8 (drop_bit 8 x)) = drop_bit 8 (push_bit 8 (drop_bit 8 x))"
      by (rule bit_steps_shift) (auto simp: bit_simps)
    also have "\<dots> = drop_bit 8 x"
      by (rule bit_word_eqI) (auto simp: bit_simps dest: bit_imp_le_length)
    finally show ?thesis by (subst split) (simp only: bit_steps_xor)
  qed
  moreover have "drop_bit 8 x = drop_bit 8 crc"
    unfolding x_def by (rule bit_word_eqI) (auto simp: bit_simps dest: bit_byte_bound)
  ultimately show ?thesis
    unfolding crc_byte_step_def x_def [symmetric] low
    using kTable_nth [OF bound] by simp
qed

lemma crc_byte_step_inj: "crc_byte_step b x = crc_byte_step b y \<Longrightarrow> x = y"
proof -
  assume "crc_byte_step b x = crc_byte_step b y"
  then have "x XOR ucast b = y XOR ucast b"
    unfolding crc_byte_step_register by (rule bit_steps_inj)
  then show "x = y" by (simp add: xor_right_cancel)
qed

lemma crc_fold_inj: "fold crc_byte_step bs x = fold crc_byte_step bs y \<Longrightarrow> x = y"
  by (induction bs arbitrary: x y) (auto dest: crc_byte_step_inj)

text \<open>Up to four bytes enter the register as one little-endian word.\<close>

lemma crc_fold_word:
  "length bs \<le> 4 \<Longrightarrow>
     fold crc_byte_step bs c = (crc_bit_step ^^ (8 * length bs)) (c XOR le_decode (length bs) bs)"
proof (induction bs rule: rev_induct)
  case Nil
  then show ?case by (simp add: le_decode_def)
next
  case (snoc b bs)
  define n where "n = length bs"
  have n: "n < 4" using snoc.prems by (simp add: n_def)
  define w :: u32 where "w = push_bit (8 * n) (ucast b)"
  have dec: "(le_decode (Suc n) (bs @ [b]) :: u32) = le_decode n bs XOR w"
  proof (rule bit_word_eqI)
    fix m assume m: "m < LENGTH(32)"
    have "bit w m \<longleftrightarrow> m div 8 = n \<and> bit b (m mod 8)"
    proof -
      have "8 * n \<le> m \<and> m - 8 * n < 8 \<longleftrightarrow> m div 8 = n" by auto
      moreover have "m div 8 = n \<Longrightarrow> m - 8 * n = m mod 8" by (simp add: minus_div_mult_eq_mod [symmetric])
      ultimately show ?thesis using m unfolding w_def by (auto simp: bit_simps dest: bit_byte_bound)
    qed
    then show "bit (le_decode (Suc n) (bs @ [b]) :: u32) m = bit (le_decode n bs XOR w) m"
      using m by (auto simp: bit_le_decode bit_simps nth_append n_def less_Suc_eq)
  qed
  have shift: "(crc_bit_step ^^ (8 * n)) w = ucast b"
  proof -
    have "(crc_bit_step ^^ (8 * n)) w = drop_bit (8 * n) w"
      using n by (intro bit_steps_shift) (auto simp: w_def bit_simps)
    also have "\<dots> = ucast b"
      unfolding w_def using n by (intro bit_word_eqI) (auto simp: bit_simps dest: bit_byte_bound)
    finally show ?thesis .
  qed
  have "fold crc_byte_step (bs @ [b]) c =
          (crc_bit_step ^^ 8) ((crc_bit_step ^^ (8 * n)) (c XOR le_decode n bs) XOR (crc_bit_step ^^ (8 * n)) w)"
    using snoc.IH snoc.prems by (simp add: crc_byte_step_register [of b] shift [unfolded n_def] n_def)
  also have "\<dots> = (crc_bit_step ^^ (8 + 8 * n)) (c XOR (le_decode n bs XOR w))"
    by (simp add: bit_steps_xor [symmetric] funpow_add xor.assoc)
  finally show ?case using dec by (simp add: n_def [symmetric])
qed

text \<open>C37: the table-driven CRC-32C is the bit-serial CRC (each byte is eight steps of the reflected
  shift register with the Castagnoli polynomial), for every buffer and seed.\<close>

theorem crc32c_table_is_bit_serial:
  "crc32c bs seed = NOT (fold (\<lambda>b crc. (crc_bit_step ^^ 8) (crc XOR ucast b)) bs (NOT seed))"
  unfolding crc32c_def
  by (rule arg_cong [where f=NOT], rule fold_cong) (simp_all add: crc_byte_step_register fun_eq_iff)

lemma crc_burst:
  assumes "length xs = length ys" "length xs \<le> 4" "crc32c (us @ xs @ vs) seed = crc32c (us @ ys @ vs) seed"
  shows "xs = ys"
proof -
  define c where "c = fold crc_byte_step us (NOT seed)"
  have "fold crc_byte_step xs c = fold crc_byte_step ys c"
    using assms(3) unfolding crc32c_def by (simp add: c_def crc_fold_inj)
  then have "c XOR le_decode (length xs) xs = c XOR le_decode (length ys) ys"
    using assms(1,2) by (auto simp: crc_fold_word dest: bit_steps_inj)
  then have "(le_decode (length xs) xs :: u32) = le_decode (length xs) ys"
    using assms(1) by (simp add: xor_left_cancel)
  then have "le_encode (length xs) (le_decode (length xs) xs :: u32) =
               le_encode (length xs) (le_decode (length xs) ys :: u32)" by simp
  then show "xs = ys" using assms(1,2) by (simp add: le_encode_decode)
qed

text \<open>A corruption confined to at most four consecutive bytes (a burst of up to 32 bits) always
  changes the checksum, whatever surrounds it: \<open>ChecksumMismatch\<close> is certain, not probable.\<close>

lemma crc32c_detects_bursts:
  assumes "length xs = length ys" "length xs \<le> 4" "xs \<noteq> ys"
  shows "crc32c (us @ xs @ vs) seed \<noteq> crc32c (us @ ys @ vs) seed"
  using crc_burst [of xs ys us vs seed] assms by blast

end
