(* ===== verification/Wire.thy ===== *)
theory Wire
  imports Crc32c
begin

unbundle bit_operations_syntax

text \<open>
  The wire codec (\<open>include/creditfabric/wire.hpp\<close>, \<open>src/wire.cpp\<close>): frames, the field codecs shared
  with the durable records, and the messages. Every field codec is an interpretation of locale
  \<open>codec\<close>, so a message decodes to a value exactly when it is the encoding of that value. The
  \<open>memcpy\<close> of 32-bit words into the header is little-endian, as the frame layout comment requires.
\<close>

subsection \<open>Frames\<close>

definition kFormatVersion :: u32 where
  "kFormatVersion = 1"

text \<open>The version of the build (\<open>version.hpp\<close>, \<open>version.cpp\<close>); \<open>ndebug\<close> says whether \<open>NDEBUG\<close> is defined.\<close>

record Version =
  ver_major :: u32
  ver_minor :: u32
  ver_patch :: u32

definition version :: Version where
  "version = \<lparr>ver_major = 1, ver_minor = 0, ver_patch = 0\<rparr>"

definition version_string :: string where
  "version_string =
     decimal (unat (ver_major version)) @ ''.'' @ decimal (unat (ver_minor version)) @ ''.'' @ decimal (unat (ver_patch version))"

definition build_profile :: "bool \<Rightarrow> string" where
  "build_profile ndebug = (if ndebug then ''release'' else ''debug'')"

definition kWireMagic :: u32 where
  "kWireMagic = 0x31524643"

definition kFrameHeaderBytes :: nat where
  "kFrameHeaderBytes = 12"

definition kFrameTrailerBytes :: nat where
  "kFrameTrailerBytes = 4"

definition kFrameOverheadBytes :: nat where
  "kFrameOverheadBytes = kFrameHeaderBytes + kFrameTrailerBytes"

datatype MessageType = Hello | HelloAck | Request | Response | Bye

primrec message_type_value :: "MessageType \<Rightarrow> u8" where
  "message_type_value Hello = 1"
| "message_type_value HelloAck = 2"
| "message_type_value Request = 3"
| "message_type_value Response = 4"
| "message_type_value Bye = 5"

definition message_type_of :: "u8 \<Rightarrow> MessageType option" where
  "message_type_of raw =
     (if raw = 1 then Some Hello else if raw = 2 then Some HelloAck else if raw = 3 then Some Request
      else if raw = 4 then Some Response else if raw = 5 then Some Bye else None)"

primrec message_type_to_string :: "MessageType \<Rightarrow> string" where
  "message_type_to_string Hello = ''Hello''"
| "message_type_to_string HelloAck = ''HelloAck''"
| "message_type_to_string Request = ''Request''"
| "message_type_to_string Response = ''Response''"
| "message_type_to_string Bye = ''Bye''"

record FrameView =
  fv_version :: u8
  fv_type :: MessageType
  fv_flags :: u16
  fv_payload :: bytes
  fv_payload_length :: nat
  fv_consumed :: nat

definition write_header :: "MessageType \<Rightarrow> u16 \<Rightarrow> u32 \<Rightarrow> bytes" where
  "write_header type flags payload_length =
     le_encode 4 kWireMagic @
     [ucast kFormatVersion, message_type_value type, ucast (flags AND 0xFF),
      ucast (drop_bit 8 flags AND 0xFF)] @
     le_encode 4 payload_length"

definition read_u32 :: "bytes \<Rightarrow> u32" where
  "read_u32 source = le_decode 4 source"

definition encode_frame :: "MessageType \<Rightarrow> bytes \<Rightarrow> Status + bytes" where
  "encode_frame type payload =
     (if length payload > 0xFFFFFFFF then Inl (refused OversizedFrame (of_nat (length payload)))
      else
        let sealed = write_header type 0 (of_nat (length payload)) @ payload;
            crc = crc32c sealed 0
        in Inr (sealed @ le_encode 4 crc))"

definition decode_frame :: "bytes \<Rightarrow> nat \<Rightarrow> Status + FrameView" where
  "decode_frame data max_payload =
     (if length data < kFrameOverheadBytes then Inl (refused TruncatedInput (of_nat (length data)))
      else if read_u32 data \<noteq> kWireMagic then Inl (refused MalformedMessage 1)
      else if data ! 4 \<noteq> ucast kFormatVersion then Inl (refused UnsupportedVersion (ucast (data ! 4)))
      else case message_type_of (data ! 5) of
        None \<Rightarrow> Inl (refused MalformedMessage 2)
      | Some type \<Rightarrow>
          let flags = (ucast (data ! 6) OR push_bit 8 (ucast (data ! 7))) :: u16 in
          if flags \<noteq> 0 then Inl (refused MalformedMessage 3)
          else
            let payload_length = unat (read_u32 (drop 8 data)) in
            if payload_length > max_payload then Inl (refused OversizedFrame (of_nat payload_length))
            else
              let total = kFrameOverheadBytes + payload_length in
              if length data < total then Inl (refused TruncatedInput (of_nat (length data)))
              else
                let expected = read_u32 (drop (kFrameHeaderBytes + payload_length) data);
                    actual = crc32c (take (kFrameHeaderBytes + payload_length) data) 0
                in if expected \<noteq> actual
                   then Inl (refused ChecksumMismatch (ucast (expected XOR actual)))
                   else Inr \<lparr>fv_version = data ! 4, fv_type = type, fv_flags = flags,
                             fv_payload = take payload_length (drop kFrameHeaderBytes data),
                             fv_payload_length = payload_length, fv_consumed = total\<rparr>)"

subsection \<open>Field codecs\<close>

definition encode_authority :: "AuthorityVector \<Rightarrow> bytes" where
  "encode_authority a =
     bw_u64 (id_value (av_domain a)) @ bw_u64 (id_value (av_account a)) @
     bw_u64 (id_value (av_epoch a)) @ bw_u64 (id_value (av_generation a)) @
     bw_u64 (id_value (av_incarnation a))"

definition decode_authority :: "AuthorityVector decoder" where
  "decode_authority =
     dec_read TruncatedInput
       (rd_bind rd_u64 (\<lambda>domain. rd_bind rd_u64 (\<lambda>account. rd_bind rd_u64 (\<lambda>epoch.
        rd_bind rd_u64 (\<lambda>generation. rd_bind rd_u64 (\<lambda>incarnation.
        rd_return \<lparr>av_domain = StrongId domain, av_account = StrongId account,
                   av_epoch = StrongId epoch, av_generation = StrongId generation,
                   av_incarnation = StrongId incarnation\<rparr>))))))"

definition encode_account_config :: "AccountConfig \<Rightarrow> bytes" where
  "encode_account_config c =
     bw_u64 (id_value (cfg_domain c)) @ bw_u64 (id_value (cfg_account c)) @
     bw_u64 (id_value (cfg_resource c)) @ bw_u64 (id_value (cfg_policy c)) @
     bw_u64 (cfg_capacity c) @ bw_u64 (cfg_max_capacity c) @
     bw_u8 (of_nat (profile_value (cfg_profile c))) @
     bw_u64 (min_issue (cfg_rules c)) @ bw_u64 (max_issue_per_attempt (cfg_rules c)) @
     bw_boolean (allow_protect (cfg_rules c)) @ bw_boolean (allow_return (cfg_rules c)) @
     bw_boolean (allow_capacity_growth (cfg_rules c))"

text \<open>\<open>static_cast<ProfileKind>\<close> of a value that passed the range check.\<close>

definition profile_of_value :: "nat \<Rightarrow> ProfileKind" where
  "profile_of_value n = [Abstract, Synthetic, PhysicalUnvalidated, PhysicalValidated] ! n"

definition decode_account_config :: "AccountConfig decoder" where
  "decode_account_config =
     dec_bind
       (dec_read TruncatedInput
         (rd_bind rd_u64 (\<lambda>domain. rd_bind rd_u64 (\<lambda>account. rd_bind rd_u64 (\<lambda>resource.
          rd_bind rd_u64 (\<lambda>policy. rd_bind rd_u64 (\<lambda>capacity. rd_bind rd_u64 (\<lambda>max_capacity.
          rd_bind rd_u8 (\<lambda>profile. rd_bind rd_u64 (\<lambda>lo. rd_bind rd_u64 (\<lambda>hi.
          rd_bind rd_boolean (\<lambda>protect. rd_bind rd_boolean (\<lambda>give_back. rd_bind rd_boolean (\<lambda>growth.
          rd_return (domain, account, resource, policy, capacity, max_capacity, profile, lo, hi,
                     protect, give_back, growth)))))))))))))))
       (\<lambda>(domain, account, resource, policy, capacity, max_capacity, profile, lo, hi, protect,
          give_back, growth).
     dec_bind (dec_require (unat profile \<le> profile_value PhysicalValidated)
                           (refused MalformedMessage (ucast profile))) (\<lambda>_.
     dec_return
       \<lparr>cfg_domain = StrongId domain, cfg_account = StrongId account,
        cfg_resource = StrongId resource, cfg_policy = StrongId policy,
        cfg_capacity = capacity, cfg_max_capacity = max_capacity,
        cfg_profile = profile_of_value (unat profile),
        cfg_rules = \<lparr>min_issue = lo, max_issue_per_attempt = hi, allow_protect = protect,
                     allow_return = give_back, allow_capacity_growth = growth\<rparr>\<rparr>))"

definition encode_view :: "CreditView \<Rightarrow> bytes" where
  "encode_view v =
     bw_u64 (v_capacity v) @ bw_u64 (v_issued v) @ bw_u64 (v_consumed v) @ bw_u64 (v_returned v) @
     bw_u64 (v_stale v) @ bw_u64 (v_spent v) @ bw_u64 (v_protected v) @ bw_u64 (v_in_flight v) @
     bw_u64 (v_outstanding v) @ bw_u64 (v_available v) @ bw_boolean (v_closed v)"

definition decode_view :: "CreditView decoder" where
  "decode_view =
     dec_read TruncatedInput
       (rd_bind rd_u64 (\<lambda>capacity. rd_bind rd_u64 (\<lambda>issued. rd_bind rd_u64 (\<lambda>consumed.
        rd_bind rd_u64 (\<lambda>returned. rd_bind rd_u64 (\<lambda>stale. rd_bind rd_u64 (\<lambda>spent.
        rd_bind rd_u64 (\<lambda>protected_credits. rd_bind rd_u64 (\<lambda>in_flight. rd_bind rd_u64 (\<lambda>outstanding.
        rd_bind rd_u64 (\<lambda>available. rd_bind rd_boolean (\<lambda>closed.
        rd_return \<lparr>v_capacity = capacity, v_issued = issued, v_consumed = consumed,
                   v_returned = returned, v_stale = stale, v_spent = spent,
                   v_protected = protected_credits, v_in_flight = in_flight,
                   v_outstanding = outstanding, v_quarantined = stale, v_available = available,
                   v_closed = closed\<rparr>))))))))))))"

text \<open>\<open>(void)writer.text(request.note, 4096u)\<close>: a longer note is silently left out.\<close>

definition encode_note :: "string \<Rightarrow> bytes" where
  "encode_note note = (case bw_text note 4096 of None \<Rightarrow> [] | Some bs \<Rightarrow> bs)"

definition encode_presenter :: "Incarnation \<Rightarrow> bytes" where
  "encode_presenter i =
     bw_u64 (id_value (inc_publisher i)) @ bw_u64 (id_value (inc_boot i)) @ bw_u64 (id_value (inc_id i))"

definition encode_request_body :: "CreditRequest \<Rightarrow> bytes" where
  "encode_request_body r =
     bw_digest (attempt_value (req_attempt r)) @ bw_u8 (of_nat (op_value (req_op r))) @
     bw_u64 (req_sequence r) @ encode_authority (req_authority r) @
     encode_presenter (req_presenter r) @
     bw_u64 (id_value (req_resource r)) @ bw_u64 (id_value (req_producer r)) @
     bw_u64 (id_value (req_consumer r)) @ bw_u64 (id_value (req_grant r)) @
     bw_u64 (id_value (req_target r)) @ bw_u64 (req_count r) @ bw_u64 (req_new_capacity r) @
     bw_digest (req_proof r) @ bw_digest (req_expected_state r) @
     encode_account_config (req_config r) @
     bw_u8 (of_nat (decision_value (req_decision r))) @
     bw_u16 (of_nat (reason_value (req_fence_cause r))) @ encode_note (req_note r)"

definition decision_of_value :: "nat \<Rightarrow> RevalidationDecision" where
  "decision_of_value n = [NoDecision, ToReturned, ToConsumed] ! n"

definition decode_request_body :: "nat \<Rightarrow> CreditRequest decoder" where
  "decode_request_body max_note =
     dec_bind (dec_read TruncatedInput
       (rd_bind rd_digest (\<lambda>attempt. rd_bind rd_u8 (\<lambda>oper. rd_bind rd_u64 (\<lambda>sequence.
        rd_return (attempt, oper, sequence)))))) (\<lambda>(attempt, oper, sequence).
     dec_bind (dec_require (is_valid_op oper) (refused MalformedMessage (ucast oper))) (\<lambda>_.
     dec_bind decode_authority (\<lambda>authority.
     dec_bind (dec_read TruncatedInput
       (rd_bind rd_u64 (\<lambda>publisher. rd_bind rd_u64 (\<lambda>boot. rd_bind rd_u64 (\<lambda>incarnation.
        rd_return \<lparr>inc_publisher = StrongId publisher, inc_boot = StrongId boot,
                   inc_id = StrongId incarnation\<rparr>))))) (\<lambda>presenter.
     dec_bind (dec_read TruncatedInput
       (rd_bind rd_u64 (\<lambda>resource. rd_bind rd_u64 (\<lambda>producer. rd_bind rd_u64 (\<lambda>consumer.
        rd_bind rd_u64 (\<lambda>grant. rd_bind rd_u64 (\<lambda>target. rd_bind rd_u64 (\<lambda>count.
        rd_bind rd_u64 (\<lambda>new_capacity.
        rd_return (resource, producer, consumer, grant, target, count, new_capacity))))))))))
       (\<lambda>(resource, producer, consumer, grant, target, count, new_capacity).
     dec_bind (dec_read TruncatedInput
       (rd_bind rd_digest (\<lambda>prf. rd_bind rd_digest (\<lambda>expected. rd_return (prf, expected)))))
       (\<lambda>(prf, expected).
     dec_bind decode_account_config (\<lambda>config.
     dec_bind (dec_read TruncatedInput rd_u8) (\<lambda>decision.
     dec_bind (dec_require (unat decision \<le> decision_value ToConsumed)
                           (refused MalformedMessage (ucast decision))) (\<lambda>_.
     dec_bind (dec_read TruncatedInput rd_u16) (\<lambda>fence_cause.
     dec_bind (dec_require (is_valid_reason fence_cause) (refused MalformedMessage (ucast fence_cause))) (\<lambda>_.
     dec_bind (dec_read MalformedMessage (rd_text max_note)) (\<lambda>note.
     dec_return
       \<lparr>req_attempt = AttemptId attempt, req_op = op_of_value (unat oper), req_sequence = sequence,
        req_authority = authority, req_presenter = presenter, req_resource = StrongId resource,
        req_producer = StrongId producer, req_consumer = StrongId consumer,
        req_grant = StrongId grant, req_target = StrongId target, req_count = count,
        req_new_capacity = new_capacity, req_proof = prf, req_expected_state = expected,
        req_config = config, req_decision = decision_of_value (unat decision),
        req_fence_cause = reason_of_value (unat fence_cause), req_note = note\<rparr>))))))))))))"

definition encode_outcome_body :: "CreditOutcome \<Rightarrow> bytes" where
  "encode_outcome_body o1 =
     bw_u16 (of_nat (reason_value (reason (out_status o1)))) @ bw_u64 (detail (out_status o1)) @
     bw_u8 (of_nat (op_value (out_op o1))) @ bw_u64 (out_sequence o1) @
     bw_boolean (out_applied o1) @ bw_boolean (out_duplicate o1) @ bw_boolean (out_decided o1) @
     encode_authority (out_authority o1) @ encode_view (out_view o1) @
     bw_digest (out_state_digest o1) @ bw_u64 (out_ambiguous_pending o1)"

definition decode_outcome_body :: "CreditOutcome decoder" where
  "decode_outcome_body =
     dec_bind (dec_read TruncatedInput
       (rd_bind rd_u16 (\<lambda>why. rd_bind rd_u64 (\<lambda>info. rd_return (why, info))))) (\<lambda>(why, info).
     dec_bind (dec_require (is_valid_reason why) (refused MalformedMessage (ucast why))) (\<lambda>_.
     dec_bind (dec_read TruncatedInput rd_u8) (\<lambda>oper.
     dec_bind (dec_require (is_valid_op oper) (refused MalformedMessage (ucast oper))) (\<lambda>_.
     dec_bind (dec_read TruncatedInput
       (rd_bind rd_u64 (\<lambda>sequence. rd_bind rd_boolean (\<lambda>applied. rd_bind rd_boolean (\<lambda>duplicate.
        rd_bind rd_boolean (\<lambda>decided. rd_return (sequence, applied, duplicate, decided)))))))
       (\<lambda>(sequence, applied, duplicate, decided).
     dec_bind decode_authority (\<lambda>authority.
     dec_bind decode_view (\<lambda>view.
     dec_bind (dec_read TruncatedInput rd_digest) (\<lambda>state.
     dec_bind (dec_read TruncatedInput rd_u64) (\<lambda>ambiguous.
     dec_return
       \<lparr>out_status = \<lparr>reason = reason_of_value (unat why), detail = info\<rparr>,
        out_op = op_of_value (unat oper), out_sequence = sequence, out_applied = applied,
        out_duplicate = duplicate, out_decided = decided, out_authority = authority,
        out_view = view, out_state_digest = state, out_ambiguous_pending = ambiguous\<rparr>)))))))))"

subsection \<open>Messages\<close>

definition kMaxLabelBytes :: nat where
  "kMaxLabelBytes = 64"

record HelloMessage =
  hello_publisher :: PublisherId
  hello_boot :: BootId
  hello_label :: string

record HelloAckMessage =
  ack_session :: u32
  ack_challenge :: Digest128
  ack_server_label :: string
  ack_max_payload :: u32
  ack_format_version :: u32

definition encode_hello :: "HelloMessage \<Rightarrow> Status + bytes" where
  "encode_hello m =
     (case bw_text (hello_label m) kMaxLabelBytes of
        None \<Rightarrow> Inl (refused OversizedFrame (of_nat (length (hello_label m))))
      | Some label \<Rightarrow>
          Inr (bw_u64 (id_value (hello_publisher m)) @ bw_u64 (id_value (hello_boot m)) @ label))"

definition decode_hello :: "bytes \<Rightarrow> Status + HelloMessage" where
  "decode_hello bs = fst
     (dec_bind (dec_read TruncatedInput
        (rd_bind rd_u64 (\<lambda>publisher. rd_bind rd_u64 (\<lambda>boot. rd_bind (rd_text kMaxLabelBytes) (\<lambda>label.
         rd_return \<lparr>hello_publisher = StrongId publisher, hello_boot = StrongId boot,
                    hello_label = label\<rparr>))))) (\<lambda>m.
      dec_bind dec_done (\<lambda>_.
      dec_bind (dec_require (is_set (hello_publisher m) \<and> is_set (hello_boot m))
                            (refused MalformedMessage 7)) (\<lambda>_.
      dec_return m)))
      (make_reader bs))"

definition encode_hello_ack :: "HelloAckMessage \<Rightarrow> Status + bytes" where
  "encode_hello_ack m =
     (case bw_text (ack_server_label m) kMaxLabelBytes of
        None \<Rightarrow> Inl (refused OversizedFrame (of_nat (length (ack_server_label m))))
      | Some label \<Rightarrow>
          Inr (bw_u32 (ack_session m) @ bw_digest (ack_challenge m) @ bw_u32 (ack_max_payload m) @
               bw_u32 (ack_format_version m) @ label))"

definition decode_hello_ack :: "bytes \<Rightarrow> Status + HelloAckMessage" where
  "decode_hello_ack bs = fst
     (dec_bind (dec_read TruncatedInput
        (rd_bind rd_u32 (\<lambda>session. rd_bind rd_digest (\<lambda>challenge. rd_bind rd_u32 (\<lambda>max_payload.
         rd_bind rd_u32 (\<lambda>format_version. rd_bind (rd_text kMaxLabelBytes) (\<lambda>label.
         rd_return \<lparr>ack_session = session, ack_challenge = challenge, ack_server_label = label,
                    ack_max_payload = max_payload, ack_format_version = format_version\<rparr>))))))) (\<lambda>m.
      dec_bind dec_done (\<lambda>_.
      dec_bind (dec_require (\<not> is_zero (ack_challenge m)) (refused MalformedMessage 8)) (\<lambda>_.
      dec_return m)))
      (make_reader bs))"

definition encode_request_message :: "CreditRequest \<Rightarrow> Status + bytes" where
  "encode_request_message request = Inr (encode_request_body request)"

definition decode_request_message :: "bytes \<Rightarrow> nat \<Rightarrow> Status + CreditRequest" where
  "decode_request_message bs max_note =
     fst (dec_bind (decode_request_body max_note) (\<lambda>request.
          dec_bind dec_done (\<lambda>_. dec_return request)) (make_reader bs))"

definition encode_response_message :: "CreditOutcome \<Rightarrow> Status + bytes" where
  "encode_response_message outcome = Inr (encode_outcome_body outcome)"

definition decode_response_message :: "bytes \<Rightarrow> Status + CreditOutcome" where
  "decode_response_message bs =
     fst (dec_bind decode_outcome_body (\<lambda>outcome.
          dec_bind dec_done (\<lambda>_. dec_return outcome)) (make_reader bs))"

subsection \<open>The field codecs meet the contract\<close>

lemma profile_raw: "unat (of_nat (profile_value k) :: u8) = profile_value k" "profile_value k \<le> 3"
  by (cases k; simp)+

lemma profile_raw_iff:
  "unat p \<le> profile_value PhysicalValidated \<and> k = profile_of_value (unat p) \<longleftrightarrow> p = of_nat (profile_value k)"
  for p :: u8
proof -
  have "\<forall>n \<in> set [0..<4]. profile_value (profile_of_value n) = n" by code_simp
  then have "unat p \<le> 3 \<Longrightarrow> profile_value (profile_of_value (unat p)) = unat p" by simp
  moreover have "profile_of_value (profile_value k) = k" by (cases k) (simp_all add: profile_of_value_def)
  ultimately show ?thesis
    using profile_raw [of k] by (auto simp: word_eq_iff_unat)
qed

lemma decision_raw_iff:
  "unat p \<le> decision_value ToConsumed \<and> k = decision_of_value (unat p) \<longleftrightarrow> p = of_nat (decision_value k)"
  for p :: u8
proof -
  have "\<forall>n \<in> set [0..<3]. decision_value (decision_of_value n) = n" by code_simp
  then have "unat p \<le> 2 \<Longrightarrow> decision_value (decision_of_value (unat p)) = unat p" by simp
  moreover have "decision_of_value (decision_value k) = k" by (cases k) (simp_all add: decision_of_value_def)
  moreover have "unat (of_nat (decision_value k) :: u8) = decision_value k" "decision_value k \<le> 2"
    by (cases k; simp)+
  ultimately show ?thesis
    by (auto simp: word_eq_iff_unat)
qed

lemma op_raw_iff: "is_valid_op p \<and> k = op_of_value (unat p) \<longleftrightarrow> p = of_nat (op_value k)"
  using op_raw_roundtrip [of k] op_value_of_value [of "unat p"]
  by (auto simp: is_valid_op_def kOpKindCount_def word_eq_iff_unat)

lemma reason_raw_iff: "is_valid_reason p \<and> k = reason_of_value (unat p) \<longleftrightarrow> p = of_nat (reason_value k)"
  using reason_raw_roundtrip [of k] reason_value_of_value [of "unat p"]
  by (auto simp: is_valid_reason_def kReasonCount_def word_eq_iff_unat)

lemma length_fields [simp]:
  "length (encode_authority a) = 40" "length (encode_account_config c) = 68" "length (encode_view v) = 81"
  by (simp_all add: encode_authority_def encode_account_config_def encode_view_def)

lemma raw_simps [simp]:
  "profile_of_value (unat (of_nat (profile_value k) :: u8)) = k"
  "unat (of_nat (profile_value k) :: u8) \<le> 3"
  "decision_of_value (unat (of_nat (decision_value d) :: u8)) = d"
  "unat (of_nat (decision_value d) :: u8) \<le> 2"
  "op_of_value (unat (of_nat (op_value oper) :: u8)) = oper"
  "is_valid_op (of_nat (op_value oper))"
  "reason_of_value (unat (of_nat (reason_value c) :: u16)) = c"
  "is_valid_reason (of_nat (reason_value c))"
  using profile_raw_iff [of "of_nat (profile_value k)" k] decision_raw_iff [of "of_nat (decision_value d)" d]
    op_raw_iff [of "of_nat (op_value oper)" oper] reason_raw_iff [of "of_nat (reason_value c)" c]
  by simp_all

lemma raw_back_simps:
  "unat p \<le> 3 \<Longrightarrow> (k = profile_of_value (unat p)) = (p = of_nat (profile_value k))"
  "unat p \<le> 2 \<Longrightarrow> (d = decision_of_value (unat p)) = (p = of_nat (decision_value d))"
  "is_valid_op p \<Longrightarrow> (oper = op_of_value (unat p)) = (p = of_nat (op_value oper))"
  "is_valid_reason q \<Longrightarrow> (c = reason_of_value (unat q)) = (q = of_nat (reason_value c))"
  using profile_raw_iff [of p k] decision_raw_iff [of p d] op_raw_iff [of p oper] reason_raw_iff [of q c]
  by auto

lemma id_eq_iff: "x = StrongId v \<longleftrightarrow> v = id_value x"
  by (cases x) auto

interpretation authority: codec encode_authority decode_authority "\<lambda>_. True"
proof unfold_locales
  fix r r' a
  show "decode_authority r = (Inr a, r') \<longleftrightarrow>
     True \<and> prefix (encode_authority a) (ahead r) \<and> r' = advance (length (encode_authority a)) r"
    by (cases a)
      (auto simp: decode_authority_def encode_authority_def dec_iffs prefix_append_ahead id_eq_iff)
qed

interpretation view: codec encode_view decode_view "\<lambda>v. v_quarantined v = v_stale v"
proof unfold_locales
  fix r r' v
  show "decode_view r = (Inr v, r') \<longleftrightarrow>
     v_quarantined v = v_stale v \<and> prefix (encode_view v) (ahead r) \<and> r' = advance (length (encode_view v)) r"
    by (cases v) (auto simp: decode_view_def encode_view_def dec_iffs prefix_append_ahead)
qed

interpretation config: codec encode_account_config decode_account_config "\<lambda>_. True"
proof unfold_locales
  fix r r' c
  obtain d a rs p cap maxc k lo hi b1 b2 b3 where c:
    "c = \<lparr>cfg_domain = StrongId d, cfg_account = StrongId a, cfg_resource = StrongId rs,
          cfg_policy = StrongId p, cfg_capacity = cap, cfg_max_capacity = maxc, cfg_profile = k,
          cfg_rules = \<lparr>min_issue = lo, max_issue_per_attempt = hi, allow_protect = b1,
                       allow_return = b2, allow_capacity_growth = b3\<rparr>\<rparr>"
    by (metis AccountConfig.cases CreditPolicy.cases strong_id.exhaust)
  show "decode_account_config r = (Inr c, r') \<longleftrightarrow>
     True \<and> prefix (encode_account_config c) (ahead r) \<and> r' = advance (length (encode_account_config c)) r"
    unfolding c decode_account_config_def encode_account_config_def
    by (auto simp: dec_iffs prefix_append_ahead raw_back_simps cong: conj_cong)
qed

lemma encode_note_small: "length s \<le> 4096 \<Longrightarrow> encode_note s = bw_u32 (of_nat (length s)) @ map byte_of_char s"
  by (simp add: encode_note_def bw_text_def)

interpretation outcome: codec encode_outcome_body decode_outcome_body
  "\<lambda>x. v_quarantined (out_view x) = v_stale (out_view x)"
proof unfold_locales
  fix r r' x
  obtain why info oper sq b1 b2 b3 a v d n where x:
    "x = \<lparr>out_status = \<lparr>reason = why, detail = info\<rparr>, out_op = oper, out_sequence = sq, out_applied = b1,
          out_duplicate = b2, out_decided = b3, out_authority = a, out_view = v, out_state_digest = d,
          out_ambiguous_pending = n\<rparr>"
    by (metis CreditOutcome.cases Status.cases)
  show "decode_outcome_body r = (Inr x, r') \<longleftrightarrow>
     v_quarantined (out_view x) = v_stale (out_view x) \<and>
     prefix (encode_outcome_body x) (ahead r) \<and> r' = advance (length (encode_outcome_body x)) r"
    unfolding x decode_outcome_body_def encode_outcome_body_def
    by (auto simp: dec_iffs prefix_append_ahead authority.accepts view.accepts raw_back_simps
        cong: conj_cong)
qed

locale bounded_note =
  fixes max_note :: nat
  assumes note_bound: "max_note \<le> 4096"

sublocale bounded_note \<subseteq> request: codec encode_request_body "decode_request_body max_note"
  "\<lambda>x. length (req_note x) \<le> max_note"
proof unfold_locales
  fix r r' and x :: CreditRequest
  obtain att oper sq a p b i rs prd con gr tgt cnt ncap pf ev cfg d c s where x:
    "x = \<lparr>req_attempt = AttemptId att, req_op = oper, req_sequence = sq, req_authority = a,
          req_presenter = \<lparr>inc_publisher = StrongId p, inc_boot = StrongId b, inc_id = StrongId i\<rparr>,
          req_resource = StrongId rs, req_producer = StrongId prd, req_consumer = StrongId con,
          req_grant = StrongId gr, req_target = StrongId tgt, req_count = cnt, req_new_capacity = ncap,
          req_proof = pf, req_expected_state = ev, req_config = cfg, req_decision = d,
          req_fence_cause = c, req_note = s\<rparr>"
    by (rule that [of "attempt_value (req_attempt x)" "req_op x" "req_sequence x" "req_authority x"
          "id_value (inc_publisher (req_presenter x))" "id_value (inc_boot (req_presenter x))"
          "id_value (inc_id (req_presenter x))" "id_value (req_resource x)" "id_value (req_producer x)"
          "id_value (req_consumer x)" "id_value (req_grant x)" "id_value (req_target x)" "req_count x"
          "req_new_capacity x" "req_proof x" "req_expected_state x" "req_config x" "req_decision x"
          "req_fence_cause x" "req_note x"]) simp
  show "decode_request_body max_note r = (Inr x, r') \<longleftrightarrow> length (req_note x) \<le> max_note \<and>
     prefix (encode_request_body x) (ahead r) \<and> r' = advance (length (encode_request_body x)) r"
    unfolding x decode_request_body_def encode_request_body_def encode_presenter_def
    using note_bound
    by (auto simp: dec_iffs prefix_append_ahead authority.accepts config.accepts rd_text_iff encode_note_small
        raw_back_simps cong: conj_cong)
qed

interpretation default_note: bounded_note "max_note_bytes default_limits"
  by unfold_locales (simp add: default_limits_def)

interpretation durable_note: bounded_note 4096
  by unfold_locales simp

subsection \<open>Messages\<close>

context bounded_note
begin

lemma request_message:
  "decode_request_message bs max_note = Inr x \<longleftrightarrow>
     length (req_note x) \<le> max_note \<and> encode_request_message x = Inr bs"
  unfolding decode_request_message_def encode_request_message_def request.message_accepts by auto

end

lemma request_message_exact:
  assumes "max_note \<le> 4096"
  shows "decode_request_message bs max_note = Inr x \<longleftrightarrow>
           length (req_note x) \<le> max_note \<and> encode_request_message x = Inr bs"
proof -
  have "bounded_note max_note" using assms by unfold_locales
  then show ?thesis by (rule bounded_note.request_message)
qed

text \<open>C36: request messages have exactly one encoding and decoding inverts it: for a note bound of
  at most 4096 bytes, the decoder accepts a buffer as the request \<open>x\<close> if and only if the note is
  within the bound and the buffer is the encoding of \<open>x\<close>. No trailing byte, no second encoding and
  no out-of-range enum value is ever accepted.\<close>

theorem request_message_codec:
  assumes "max_note \<le> 4096"
  shows "decode_request_message bs max_note = Inr x \<longleftrightarrow>
           length (req_note x) \<le> max_note \<and> encode_request_message x = Inr bs"
  by (rule request_message_exact [OF assms])

definition example_request :: CreditRequest where
  "example_request =
     \<lparr>req_attempt = AttemptId (Digest128 1 2), req_op = Issue, req_sequence = 3,
      req_authority = \<lparr>av_domain = StrongId 1, av_account = StrongId 2, av_epoch = StrongId 1,
                       av_generation = StrongId 1, av_incarnation = StrongId 7\<rparr>,
      req_presenter = \<lparr>inc_publisher = StrongId 5, inc_boot = StrongId 6, inc_id = StrongId 7\<rparr>,
      req_resource = StrongId 3, req_producer = unset_id, req_consumer = unset_id,
      req_grant = unset_id, req_target = unset_id, req_count = 10, req_new_capacity = 0,
      req_proof = zero_digest, req_expected_state = zero_digest, req_config = default_config,
      req_decision = NoDecision, req_fence_cause = UnknownState, req_note = ''batch''\<rparr>"

theorem request_message_codec_witness:
  "decode_request_message (encode_request_body example_request) 128 = Inr example_request"
  by (subst request_message_codec) (simp_all add: example_request_def encode_request_message_def)

lemma response_message_exact:
  "decode_response_message bs = Inr x \<longleftrightarrow>
     v_quarantined (out_view x) = v_stale (out_view x) \<and> encode_response_message x = Inr bs"
  unfolding decode_response_message_def encode_response_message_def outcome.message_accepts by auto

lemma fst_eq_Inr: "fst p = Inr a \<longleftrightarrow> (\<exists>r. p = (Inr a, r))"
  by (cases p) simp

lemma prefix_full: "prefix xs bs \<and> length xs = length bs \<longleftrightarrow> bs = xs"
  by (auto simp: prefix_def)

text \<open>The handshake messages: a buffer decodes to a \<open>Hello\<close> exactly when it encodes one with a
  set publisher and boot, and to a \<open>HelloAck\<close> exactly when it encodes one with a nonzero challenge.\<close>

lemma handshake_codec:
  "(decode_hello bs = Inr m \<longleftrightarrow> is_set (hello_publisher m) \<and> is_set (hello_boot m) \<and> encode_hello m = Inr bs) \<and>
   (decode_hello_ack bs = Inr k \<longleftrightarrow> \<not> is_zero (ack_challenge k) \<and> encode_hello_ack k = Inr bs)"
proof
  have done_iff: "rd_done (advance n (make_reader bs)) \<longleftrightarrow> n = length bs" for n
    by (simp add: rd_done_def advance_def make_reader_def)
  obtain p b l where m: "m = \<lparr>hello_publisher = StrongId p, hello_boot = StrongId b, hello_label = l\<rparr>"
    by (metis HelloMessage.cases strong_id.exhaust)
  have "decode_hello bs = Inr m \<longleftrightarrow>
     p \<noteq> 0 \<and> b \<noteq> 0 \<and> length l \<le> 64 \<and>
     (prefix (bw_u64 p @ bw_u64 b @ bw_u32 (of_nat (length l)) @ map byte_of_char l) (ahead (make_reader bs)) \<and>
      length (bw_u64 p @ bw_u64 b @ bw_u32 (of_nat (length l)) @ map byte_of_char l) = length bs)"
    unfolding m decode_hello_def fst_eq_Inr
    by (auto simp: dec_iffs dec_done_iff rd_text_iff prefix_append_ahead kMaxLabelBytes_def done_iff
        simp del: ahead_make_reader)
  then show "decode_hello bs = Inr m \<longleftrightarrow>
     is_set (hello_publisher m) \<and> is_set (hello_boot m) \<and> encode_hello m = Inr bs"
    unfolding ahead_make_reader prefix_full by (auto simp: m encode_hello_def bw_text_def kMaxLabelBytes_def)
  obtain s c l' mp fv where k: "k = \<lparr>ack_session = s, ack_challenge = c, ack_server_label = l',
      ack_max_payload = mp, ack_format_version = fv\<rparr>" by (metis HelloAckMessage.cases)
  have "decode_hello_ack bs = Inr k \<longleftrightarrow>
     \<not> is_zero c \<and> length l' \<le> 64 \<and>
     (prefix (bw_u32 s @ bw_digest c @ bw_u32 mp @ bw_u32 fv @ bw_u32 (of_nat (length l')) @ map byte_of_char l') (ahead (make_reader bs)) \<and>
      length (bw_u32 s @ bw_digest c @ bw_u32 mp @ bw_u32 fv @ bw_u32 (of_nat (length l')) @ map byte_of_char l') = length bs)"
    unfolding k decode_hello_ack_def fst_eq_Inr
    by (auto simp: dec_iffs dec_done_iff rd_text_iff prefix_append_ahead kMaxLabelBytes_def done_iff
        simp del: ahead_make_reader)
  then show "decode_hello_ack bs = Inr k \<longleftrightarrow> \<not> is_zero (ack_challenge k) \<and> encode_hello_ack k = Inr bs"
    unfolding ahead_make_reader prefix_full by (auto simp: k encode_hello_ack_def bw_text_def kMaxLabelBytes_def)
qed

subsection \<open>Frames\<close>

lemma message_type_of_iff: "message_type_of raw = Some type \<longleftrightarrow> raw = message_type_value type"
  by (cases type) (auto simp: message_type_of_def)

lemma read_u32_iff:
  assumes "4 \<le> length bs"
  shows "read_u32 bs = v \<longleftrightarrow> take 4 bs = le_encode 4 v"
proof -
  have split: "bs = take 4 bs @ drop 4 bs" by simp
  have same: "read_u32 bs = le_decode 4 (take 4 bs)"
    unfolding read_u32_def le_decode_def
    using assms by (intro fold_cong) auto
  show ?thesis
  proof
    assume "read_u32 bs = v"
    then show "take 4 bs = le_encode 4 v"
      using assms same le_encode_decode [where 'a=32, of 4 "take 4 bs"] by simp
  next
    assume "take 4 bs = le_encode 4 v"
    then show "read_u32 bs = v"
      using same le_decode_encode [where 'a=32, of 4 v "[]"] by simp
  qed
qed

lemma read_u32_encode [simp]: "read_u32 (le_encode 4 v @ rest) = v"
  by (subst read_u32_iff) simp_all

lemma flags_zero: "((ucast a OR push_bit 8 (ucast b)) :: u16) = 0 \<longleftrightarrow> a = (0 :: u8) \<and> b = (0 :: u8)"
proof -
  have "((ucast a OR push_bit 8 (ucast b)) :: u16) = le_decode 2 [a, b]"
    by (simp add: le_decode_def numeral_2_eq_2 push_bit_0_id)
  also have "\<dots> = 0 \<longleftrightarrow> [a, b] = le_encode 2 (0 :: u16)"
    using le_encode_decode [where 'a=16, of 2 "[a, b]"] le_decode_encode [where 'a=16, of 2 0 "[]"] by force
  also have "\<dots> \<longleftrightarrow> a = 0 \<and> b = 0"
    by (simp add: le_encode_def numeral_2_eq_2)
  finally show ?thesis .
qed

lemma header_shape:
  "write_header type 0 n =
     le_encode 4 kWireMagic @ [ucast kFormatVersion, message_type_value type, 0, 0] @ le_encode 4 n"
  by (simp add: write_header_def)

lemma length_header [simp]: "length (write_header type flags n) = 12"
  by (simp add: write_header_def)

text \<open>The header checks of \<open>decode_frame\<close> pass exactly on what \<open>write_header\<close> produces.\<close>

lemma header_checks:
  assumes "12 \<le> length data"
  shows "read_u32 data = kWireMagic \<and> data ! 4 = ucast kFormatVersion \<and>
         message_type_of (data ! 5) = Some type \<and>
         ((ucast (data ! 6) OR push_bit 8 (ucast (data ! 7))) :: u16) = 0 \<and> read_u32 (drop 8 data) = n
         \<longleftrightarrow> take 12 data = write_header type 0 n"
proof -
  have split: "take 12 data = take 4 data @ [data ! 4, data ! 5, data ! 6, data ! 7] @ take 4 (drop 8 data)"
  proof -
    have "take 12 data = take 4 data @ take 4 (drop 4 data) @ take 4 (drop 8 data)"
      using take_add [of 4 8 data] take_add [of 4 4 "drop 4 data"] by simp
    moreover have "take 4 (drop 4 data) = [data ! 4, data ! 5, data ! 6, data ! 7]"
      using assms by (intro nth_equalityI) (auto simp: less_Suc_eq numeral_eq_Suc)
    ultimately show ?thesis by simp
  qed
  show ?thesis
    unfolding split header_shape flags_zero message_type_of_iff
    using assms by (auto simp: read_u32_iff)
qed

lemma encode_frame_iff:
  "encode_frame type payload = Inr bs \<longleftrightarrow>
     length payload \<le> 0xFFFFFFFF \<and>
     bs = (write_header type 0 (of_nat (length payload)) @ payload) @
          le_encode 4 (crc32c (write_header type 0 (of_nat (length payload)) @ payload) 0)"
  by (auto simp: encode_frame_def Let_def)

definition frame_view :: "MessageType \<Rightarrow> bytes \<Rightarrow> FrameView" where
  "frame_view type payload =
     \<lparr>fv_version = ucast kFormatVersion, fv_type = type, fv_flags = 0, fv_payload = payload,
      fv_payload_length = length payload, fv_consumed = kFrameOverheadBytes + length payload\<rparr>"

text \<open>The checks of \<open>decode_frame\<close> as one conjunction.\<close>

lemma decode_frame_unfold:
  "decode_frame data max_payload = Inr v \<longleftrightarrow>
     16 \<le> length data \<and>
     (\<exists>type n. take 12 data = write_header type 0 n \<and> unat n \<le> max_payload \<and> 16 + unat n \<le> length data \<and>
        read_u32 (drop (12 + unat n) data) = crc32c (take (12 + unat n) data) 0 \<and>
        v = frame_view type (take (unat n) (drop 12 data)))"
proof (cases "16 \<le> length data")
  case True
  then have room: "12 \<le> length data" by simp
  show ?thesis
    unfolding header_checks [OF room, symmetric]
    using True
    by (auto simp: decode_frame_def frame_view_def Let_def kFrameOverheadBytes_def kFrameHeaderBytes_def
          kFrameTrailerBytes_def not_less split: option.splits if_splits)
qed (simp add: decode_frame_def kFrameOverheadBytes_def kFrameHeaderBytes_def kFrameTrailerBytes_def)

text \<open>Exactly the encodings are accepted, whatever follows them in the buffer.\<close>

lemma decode_frame_exact:
  assumes "max_payload \<le> 0xFFFFFFFF"
  shows "decode_frame data max_payload = Inr v \<longleftrightarrow>
           (\<exists>type payload bs rest. encode_frame type payload = Inr bs \<and> data = bs @ rest \<and>
              length payload \<le> max_payload \<and> v = frame_view type payload \<and> fv_consumed v = length bs)"
    (is "?L \<longleftrightarrow> ?R")
proof
  assume ?L
  then obtain type n where d: "16 \<le> length data" "take 12 data = write_header type 0 n"
    "unat n \<le> max_payload" "16 + unat n \<le> length data"
    "read_u32 (drop (12 + unat n) data) = crc32c (take (12 + unat n) data) 0"
    "v = frame_view type (take (unat n) (drop 12 data))"
    unfolding decode_frame_unfold by blast
  define payload where "payload = take (unat n) (drop 12 data)"
  have len: "length payload = unat n" using d(4) by (simp add: payload_def)
  have n: "n = of_nat (length payload)" by (simp add: len)
  have sealed: "take (12 + unat n) data = write_header type 0 n @ payload"
    unfolding payload_def d(2) [symmetric] by (rule take_add)
  have crc: "take 4 (drop (12 + unat n) data) = le_encode 4 (crc32c (write_header type 0 n @ payload) 0)"
    using d(4,5) read_u32_iff [of "drop (12 + unat n) data"] by (simp add: sealed)
  have "data = take (12 + unat n) data @ take 4 (drop (12 + unat n) data) @ drop (16 + unat n) data"
    using append_take_drop_id [of 4 "drop (12 + unat n) data"] by (simp add: add.commute)
  moreover define bs where "bs = (write_header type 0 n @ payload) @ le_encode 4 (crc32c (write_header type 0 n @ payload) 0)"
  ultimately have "data = bs @ drop (16 + unat n) data" unfolding sealed crc by simp
  moreover have "encode_frame type payload = Inr bs"
    using assms d(3) len unfolding encode_frame_iff n [symmetric] by (simp add: bs_def)
  moreover have "fv_consumed v = length bs"
    unfolding d(6) payload_def [symmetric]
    by (simp add: frame_view_def bs_def kFrameOverheadBytes_def kFrameHeaderBytes_def kFrameTrailerBytes_def)
  ultimately show ?R
    using d(3,6) len unfolding payload_def [symmetric] by metis
next
  assume ?R
  then obtain type payload rest where e: "length payload \<le> 0xFFFFFFFF"
    "data = (write_header type 0 (of_nat (length payload)) @ payload) @
            le_encode 4 (crc32c (write_header type 0 (of_nat (length payload)) @ payload) 0) @ rest"
    "length payload \<le> max_payload" "v = frame_view type payload"
    by (auto simp: encode_frame_iff)
  have n: "unat (of_nat (length payload) :: u32) = length payload"
    using e(1) by (simp add: unat_of_nat)
  show ?L
    unfolding decode_frame_unfold
    using e(3) by (intro conjI exI [of _ type] exI [of _ "of_nat (length payload)"]) (simp_all add: n e(2,4))
qed

text \<open>Frames round-trip and are canonical: \<open>decode_frame\<close> accepts a buffer with view \<open>v\<close> if and
  only if the buffer starts with the encoding of a frame whose payload is within the receiver's
  bound, and then the view is exactly that frame's type and payload, and \<open>consumed\<close> is exactly its
  length; bytes after the frame are not looked at.\<close>

lemma frame_codec:
  assumes "max_payload \<le> 0xFFFFFFFF"
  shows "decode_frame data max_payload = Inr v \<longleftrightarrow>
           (\<exists>type payload bs rest. encode_frame type payload = Inr bs \<and> data = bs @ rest \<and>
              length payload \<le> max_payload \<and> v = frame_view type payload \<and> fv_consumed v = length bs)"
  by (rule decode_frame_exact [OF assms])

text \<open>C35: a payload corrupted in transit (any change inside four consecutive bytes) is never
  delivered: the frame is refused with \<open>ChecksumMismatch\<close> before a payload byte is used.\<close>

theorem corrupted_payload_is_refused:
  assumes "encode_frame type (us @ xs @ vs) = Inr bs" "length xs = length ys" "length xs \<le> 4" "xs \<noteq> ys"
    "length (us @ xs @ vs) \<le> max_payload"
  shows "\<exists>d. decode_frame (take 12 bs @ (us @ ys @ vs) @ drop (12 + length (us @ xs @ vs)) bs) max_payload
               = Inl (refused ChecksumMismatch d)"
proof -
  define n :: u32 where "n = of_nat (length (us @ xs @ vs))"
  define head where "head = write_header type 0 n"
  define c where "c = crc32c (head @ us @ xs @ vs) 0"
  define bad where "bad = head @ (us @ ys @ vs) @ le_encode 4 c"
  have bs: "bs = (head @ us @ xs @ vs) @ le_encode 4 c" and small: "length (us @ xs @ vs) \<le> 0xFFFFFFFF"
    using assms(1) by (simp_all add: encode_frame_iff head_def n_def c_def)
  have len: "unat n = length (us @ ys @ vs)" 
  proof -
    have "unat (of_nat m :: u32) = m" if "m \<le> 0xFFFFFFFF" for m using that by (simp add: unat_of_nat)
    from this [OF small] show ?thesis using assms(2) by (simp add: n_def del: of_nat_add)
  qed
  have "c \<noteq> crc32c ((head @ us) @ ys @ vs) 0"
    using crc_burst [of xs ys "head @ us" vs 0] assms(2-4) by (auto simp: c_def)
  then have crc: "c \<noteq> crc32c (head @ us @ ys @ vs) 0" by simp
  have hd: "length head = 12" by (simp add: head_def)
  have checks: "read_u32 bad = kWireMagic \<and> bad ! 4 = ucast kFormatVersion \<and>
      message_type_of (bad ! 5) = Some type \<and>
      ((ucast (bad ! 6) OR push_bit 8 (ucast (bad ! 7))) :: u16) = 0 \<and> read_u32 (drop 8 bad) = n"
    by (subst header_checks) (simp_all add: bad_def hd head_def)
  have tail: "drop (12 + unat n) bad = le_encode 4 c @ []" "take (12 + unat n) bad = head @ us @ ys @ vs"
    by (simp_all add: bad_def hd len)
  have "\<exists>d. decode_frame bad max_payload = Inl (refused ChecksumMismatch d)"
    using checks crc assms(2,5) len read_u32_encode [of c "[]"]
    by (simp add: decode_frame_def Let_def kFrameOverheadBytes_def kFrameHeaderBytes_def
          kFrameTrailerBytes_def tail [unfolded len, simplified] bad_def [THEN arg_cong, of length] hd)
  moreover have "take 12 bs @ (us @ ys @ vs) @ drop (12 + length (us @ xs @ vs)) bs = bad"
    by (simp add: bs bad_def hd)
  ultimately show ?thesis by simp
qed

theorem corrupted_payload_is_refused_witness:
  "\<exists>bs d. encode_frame Request [1, 2, 3] = Inr bs \<and>
     decode_frame (take 12 bs @ [1, 9, 3] @ drop 15 bs) 100 = Inl (refused ChecksumMismatch d)"
proof -
  obtain bs where "encode_frame Request ([1] @ [2] @ [3]) = Inr bs" by (simp add: encode_frame_def Let_def)
  then show ?thesis
    using corrupted_payload_is_refused [of Request "[1]" "[2]" "[3]" bs "[9]" 100] by auto
qed

end
