(* ===== verification/Durable.thy ===== *)
theory Durable
  imports Wire
begin

text \<open>
  Durable record shapes and their codec (\<open>include/creditfabric/record.hpp\<close>, \<open>src/record.cpp\<close>). The
  account body appears twice in the source, once in an attempt record and once (nested in a
  length-prefixed chunk) in a snapshot, with the same fields and different refusal details; it is
  one definition here, with the four details as arguments. The theorems show that both record kinds
  decode to a value exactly when they are its encoding.
\<close>

subsection \<open>Shapes\<close>

record DurableAccount =
  da_config :: AccountConfig
  da_epoch :: EpochId
  da_generation :: Generation
  da_capacity :: u64
  da_totals :: CreditTotals
  da_hard_exhausted :: bool
  da_exhaustion_cause :: Reason
  da_state_digest :: Digest128
  da_incarnations :: "IncarnationRecord list"
  da_fences :: "FenceRecord list"
  da_ambiguous :: "AmbiguousNote list"
  da_committed_attempts :: u64
  da_refused_attempts :: u64
  da_attempt_window :: "(u64 \<times> u64) list"

definition default_durable_account :: DurableAccount where
  "default_durable_account =
     \<lparr>da_config = default_config, da_epoch = unset_id, da_generation = unset_id, da_capacity = 0,
      da_totals = zero_totals, da_hard_exhausted = False, da_exhaustion_cause = Ok,
      da_state_digest = zero_digest, da_incarnations = [], da_fences = [], da_ambiguous = [],
      da_committed_attempts = 0, da_refused_attempts = 0, da_attempt_window = []\<rparr>"

record DurableState =
  ds_journal_sequence :: u64
  ds_chain :: Digest128
  ds_snapshots :: u64
  ds_accounts :: "DurableAccount list"
  ds_state_digest :: Digest128

record DurableAttempt =
  dt_request :: CreditRequest
  dt_outcome :: CreditOutcome
  dt_has_account :: bool
  dt_created_account :: bool
  dt_account :: DurableAccount
  dt_engine_applied_attempts :: u64
  dt_engine_refused_attempts :: u64

subsection \<open>Item codecs\<close>

definition encode_totals :: "CreditTotals \<Rightarrow> bytes" where
  "encode_totals t =
     bw_u64 (issued t) @ bw_u64 (consumed t) @ bw_u64 (returned t) @ bw_u64 (stale t) @
     bw_u64 (spent t) @ bw_u64 (protected_credits t)"

definition decode_totals :: "CreditTotals decoder" where
  "decode_totals =
     dec_read TruncatedInput
       (rd_bind rd_u64 (\<lambda>i. rd_bind rd_u64 (\<lambda>c. rd_bind rd_u64 (\<lambda>r. rd_bind rd_u64 (\<lambda>s.
        rd_bind rd_u64 (\<lambda>sp. rd_bind rd_u64 (\<lambda>p.
        rd_return \<lparr>issued = i, consumed = c, returned = r, stale = s, spent = sp,
                   protected_credits = p\<rparr>)))))))"

definition encode_incarnation :: "IncarnationRecord \<Rightarrow> bytes" where
  "encode_incarnation r =
     bw_u64 (id_value (ir_id r)) @ bw_u64 (id_value (ir_publisher r)) @ bw_u64 (id_value (ir_boot r)) @
     bw_u8 (of_nat (authority_state_value (ir_state r))) @
     bw_u64 (id_value (ir_reconciled_epoch r)) @ bw_u64 (id_value (ir_reconciled_generation r)) @
     bw_digest (ir_reconciliation_proof r) @
     bw_u64 (id_value (ir_producer r)) @ bw_u64 (id_value (ir_consumer r)) @ bw_u64 (id_value (ir_grant r)) @
     bw_u64 (ir_last_sequence r) @ bw_u64 (ir_committed_ops r) @ bw_u64 (ir_refused_ops r) @
     bw_u64 (ir_fenced_at_sequence r)"

text \<open>\<open>static_cast<AuthorityState>\<close> of a value that passed the range check.\<close>

definition authority_state_of_value :: "nat \<Rightarrow> AuthorityState" where
  "authority_state_of_value n = [Unknown, Reconciled, Fenced, Retired] ! n"

definition decode_incarnation :: "IncarnationRecord decoder" where
  "decode_incarnation =
     dec_bind (dec_read TruncatedInput
       (rd_bind rd_u64 (\<lambda>i. rd_bind rd_u64 (\<lambda>publisher. rd_bind rd_u64 (\<lambda>boot. rd_bind rd_u8 (\<lambda>state.
        rd_bind rd_u64 (\<lambda>epoch. rd_bind rd_u64 (\<lambda>generation. rd_bind rd_digest (\<lambda>evidence.
        rd_bind rd_u64 (\<lambda>producer. rd_bind rd_u64 (\<lambda>consumer. rd_bind rd_u64 (\<lambda>grant.
        rd_bind rd_u64 (\<lambda>last. rd_bind rd_u64 (\<lambda>committed. rd_bind rd_u64 (\<lambda>refusals.
        rd_bind rd_u64 (\<lambda>fenced.
        rd_return (i, publisher, boot, state, epoch, generation, evidence, producer, consumer, grant,
                   last, committed, refusals, fenced)))))))))))))))))
       (\<lambda>(i, publisher, boot, state, epoch, generation, evidence, producer, consumer, grant, last,
          committed, refusals, fenced).
     dec_bind (dec_require (unat state \<le> authority_state_value Retired)
                           (refused MalformedMessage (ucast state))) (\<lambda>_.
     dec_return
       \<lparr>ir_id = StrongId i, ir_publisher = StrongId publisher, ir_boot = StrongId boot,
        ir_state = authority_state_of_value (unat state), ir_reconciled_epoch = StrongId epoch,
        ir_reconciled_generation = StrongId generation, ir_reconciliation_proof = evidence,
        ir_producer = StrongId producer, ir_consumer = StrongId consumer, ir_grant = StrongId grant,
        ir_last_sequence = last, ir_committed_ops = committed, ir_refused_ops = refusals,
        ir_fenced_at_sequence = fenced\<rparr>))"

definition encode_fence :: "FenceRecord \<Rightarrow> bytes" where
  "encode_fence f =
     bw_u64 (id_value (fr_incarnation f)) @ bw_u64 (id_value (fr_epoch f)) @
     bw_u64 (id_value (fr_generation f)) @ bw_u16 (of_nat (reason_value (fr_cause f))) @
     bw_u64 (fr_sequence f) @ bw_u64 (fr_fenced_credit f)"

definition decode_fence :: "FenceRecord decoder" where
  "decode_fence =
     dec_bind (dec_read TruncatedInput
       (rd_bind rd_u64 (\<lambda>incarnation. rd_bind rd_u64 (\<lambda>epoch. rd_bind rd_u64 (\<lambda>generation.
        rd_bind rd_u16 (\<lambda>cause. rd_bind rd_u64 (\<lambda>sequence. rd_bind rd_u64 (\<lambda>credit.
        rd_return (incarnation, epoch, generation, cause, sequence, credit)))))))))
       (\<lambda>(incarnation, epoch, generation, cause, sequence, credit).
     dec_bind (dec_require (is_valid_reason cause) (refused MalformedMessage (ucast cause))) (\<lambda>_.
     dec_return
       \<lparr>fr_incarnation = StrongId incarnation, fr_epoch = StrongId epoch,
        fr_generation = StrongId generation, fr_cause = reason_of_value (unat cause),
        fr_sequence = sequence, fr_fenced_credit = credit\<rparr>))"

definition encode_ambiguous :: "AmbiguousNote \<Rightarrow> bytes" where
  "encode_ambiguous n =
     bw_digest (attempt_value (am_attempt n)) @ bw_u8 (of_nat (op_value (am_op n))) @
     bw_u64 (am_sequence n) @ bw_u64 (id_value (am_incarnation n)) @ bw_u64 (am_journal_sequence n)"

definition decode_ambiguous :: "AmbiguousNote decoder" where
  "decode_ambiguous =
     dec_bind (dec_read TruncatedInput
       (rd_bind rd_digest (\<lambda>attempt. rd_bind rd_u8 (\<lambda>oper. rd_bind rd_u64 (\<lambda>sequence.
        rd_bind rd_u64 (\<lambda>incarnation. rd_bind rd_u64 (\<lambda>journal_sequence.
        rd_return (attempt, oper, sequence, incarnation, journal_sequence))))))))
       (\<lambda>(attempt, oper, sequence, incarnation, journal_sequence).
     dec_bind (dec_require (is_valid_op oper) (refused MalformedMessage (ucast oper))) (\<lambda>_.
     dec_return
       \<lparr>am_attempt = AttemptId attempt, am_op = op_of_value (unat oper), am_sequence = sequence,
        am_incarnation = StrongId incarnation, am_journal_sequence = journal_sequence\<rparr>))"

definition encode_window_pair :: "u64 \<times> u64 \<Rightarrow> bytes" where
  "encode_window_pair p = bw_u64 (fst p) @ bw_u64 (snd p)"

definition decode_window_pair :: "(u64 \<times> u64) decoder" where
  "decode_window_pair =
     dec_read TruncatedInput
       (rd_bind rd_u64 (\<lambda>incarnation. rd_bind rd_u64 (\<lambda>sequence. rd_return (incarnation, sequence))))"

subsection \<open>The account body\<close>

definition encode_account_body :: "DurableAccount \<Rightarrow> bytes" where
  "encode_account_body a =
     encode_account_config (da_config a) @
     bw_u64 (id_value (da_epoch a)) @ bw_u64 (id_value (da_generation a)) @ bw_u64 (da_capacity a) @
     encode_totals (da_totals a) @ bw_boolean (da_hard_exhausted a) @
     bw_u16 (of_nat (reason_value (da_exhaustion_cause a))) @ bw_digest (da_state_digest a) @
     enc_counted encode_incarnation (da_incarnations a) @
     enc_counted encode_fence (da_fences a) @
     enc_counted encode_ambiguous (da_ambiguous a) @
     bw_u64 (da_committed_attempts a) @ bw_u64 (da_refused_attempts a) @
     enc_counted encode_window_pair (da_attempt_window a)"

definition decode_account_body :: "u64 \<Rightarrow> u64 \<Rightarrow> u64 \<Rightarrow> u64 \<Rightarrow> DurableAccount decoder" where
  "decode_account_body code1 code2 code3 code4 =
     dec_bind decode_account_config (\<lambda>config.
     dec_bind (dec_read TruncatedInput
       (rd_bind rd_u64 (\<lambda>epoch. rd_bind rd_u64 (\<lambda>generation. rd_bind rd_u64 (\<lambda>capacity.
        rd_return (epoch, generation, capacity)))))) (\<lambda>(epoch, generation, capacity).
     dec_bind decode_totals (\<lambda>totals.
     dec_bind (dec_read TruncatedInput
       (rd_bind rd_boolean (\<lambda>hard. rd_bind rd_u16 (\<lambda>cause. rd_return (hard, cause))))) (\<lambda>(hard, cause).
     dec_bind (dec_require (is_valid_reason cause) (refused MalformedMessage (ucast cause))) (\<lambda>_.
     dec_bind (dec_read TruncatedInput rd_digest) (\<lambda>state.
     dec_bind (dec_counted 112 code1 decode_incarnation) (\<lambda>incarnations.
     dec_bind (dec_counted 40 code2 decode_fence) (\<lambda>fences.
     dec_bind (dec_counted 40 code3 decode_ambiguous) (\<lambda>ambiguous.
     dec_bind (dec_read TruncatedInput
       (rd_bind rd_u64 (\<lambda>committed. rd_bind rd_u64 (\<lambda>refusals. rd_return (committed, refusals)))))
       (\<lambda>(committed, refusals).
     dec_bind (dec_counted 16 code4 decode_window_pair) (\<lambda>window.
     dec_return
       \<lparr>da_config = config, da_epoch = StrongId epoch, da_generation = StrongId generation,
        da_capacity = capacity, da_totals = totals, da_hard_exhausted = hard,
        da_exhaustion_cause = reason_of_value (unat cause), da_state_digest = state,
        da_incarnations = incarnations, da_fences = fences, da_ambiguous = ambiguous,
        da_committed_attempts = committed, da_refused_attempts = refusals,
        da_attempt_window = window\<rparr>)))))))))))"

subsection \<open>Attempt and snapshot records\<close>

definition encode_durable_attempt_body :: "DurableAttempt \<Rightarrow> bytes" where
  "encode_durable_attempt_body t =
     encode_request_body (dt_request t) @ encode_outcome_body (dt_outcome t) @
     bw_boolean (dt_has_account t) @ bw_boolean (dt_created_account t) @
     (if dt_has_account t then encode_account_body (dt_account t) else []) @
     bw_u64 (dt_engine_applied_attempts t) @ bw_u64 (dt_engine_refused_attempts t)"

definition encode_durable_attempt :: "DurableAttempt \<Rightarrow> Status + bytes" where
  "encode_durable_attempt t = Inr (encode_durable_attempt_body t)"

definition decode_durable_attempt_body :: "DurableAttempt decoder" where
  "decode_durable_attempt_body =
     dec_bind (decode_request_body 4096) (\<lambda>request.
     dec_bind decode_outcome_body (\<lambda>outcome.
     dec_bind (dec_read TruncatedInput
       (rd_bind rd_boolean (\<lambda>has. rd_bind rd_boolean (\<lambda>created. rd_return (has, created)))))
       (\<lambda>(has, created).
     dec_bind (dec_require (\<not> (created \<and> \<not> has)) (refused MalformedMessage 11)) (\<lambda>_.
     dec_bind (dec_require (\<not> (created \<and> \<not> out_applied outcome)) (refused MalformedMessage 12)) (\<lambda>_.
     dec_bind (if has then decode_account_body 13 14 15 16 else dec_return default_durable_account)
       (\<lambda>account.
     dec_bind (dec_read TruncatedInput
       (rd_bind rd_u64 (\<lambda>applied. rd_bind rd_u64 (\<lambda>refusals. rd_return (applied, refusals)))))
       (\<lambda>(applied, refusals).
     dec_return
       \<lparr>dt_request = request, dt_outcome = outcome, dt_has_account = has,
        dt_created_account = created, dt_account = account, dt_engine_applied_attempts = applied,
        dt_engine_refused_attempts = refusals\<rparr>)))))))"

definition decode_durable_attempt :: "bytes \<Rightarrow> Status + DurableAttempt" where
  "decode_durable_attempt bs =
     fst (dec_bind decode_durable_attempt_body (\<lambda>t. dec_bind dec_done (\<lambda>_. dec_return t)) (make_reader bs))"

text \<open>One account of a snapshot: a \<open>u32\<close> length and the account body in exactly that many bytes.\<close>

definition encode_account_chunk :: "DurableAccount \<Rightarrow> bytes" where
  "encode_account_chunk a =
     bw_u32 (of_nat (length (encode_account_body a))) @ encode_account_body a"

definition decode_account_chunk :: "DurableAccount decoder" where
  "decode_account_chunk r =
     (case rd_u32 r of
        (None, r1) \<Rightarrow> (Inl (refused TruncatedInput (of_nat (rd_position r1))), r1)
      | (Some n, r1) \<Rightarrow>
          if unat n > rd_remaining r1 then (Inl (refused TruncatedInput (of_nat (rd_position r1))), r1)
          else
            let start = drop (rd_position r1) (rd_data r1);
                nested = make_reader (take (unat n) start)
            in case rd_skip (unat n) r1 of
                 (None, r2) \<Rightarrow> (Inl (refused TruncatedInput (of_nat (rd_position r2))), r2)
               | (Some _, r2) \<Rightarrow>
                   (case decode_account_body 18 19 20 21 nested of
                      (Inl s, _) \<Rightarrow> (Inl s, r2)
                    | (Inr account, nested') \<Rightarrow>
                        if rd_done nested' then (Inr account, r2)
                        else (Inl (refused MalformedMessage 22), r2)))"

definition encode_durable_state_body :: "DurableState \<Rightarrow> bytes" where
  "encode_durable_state_body s =
     bw_u64 (ds_journal_sequence s) @ bw_digest (ds_chain s) @ bw_u64 (ds_snapshots s) @
     bw_digest (ds_state_digest s) @ enc_counted encode_account_chunk (ds_accounts s)"

definition encode_durable_state :: "DurableState \<Rightarrow> Status + bytes" where
  "encode_durable_state s = Inr (encode_durable_state_body s)"

definition decode_durable_state_body :: "DurableState decoder" where
  "decode_durable_state_body =
     dec_bind (dec_read TruncatedInput
       (rd_bind rd_u64 (\<lambda>sequence. rd_bind rd_digest (\<lambda>chain. rd_bind rd_u64 (\<lambda>snapshots.
        rd_bind rd_digest (\<lambda>state. rd_return (sequence, chain, snapshots, state)))))))
       (\<lambda>(sequence, chain, snapshots, state).
     dec_bind (dec_counted 4 17 decode_account_chunk) (\<lambda>accounts.
     dec_return
       \<lparr>ds_journal_sequence = sequence, ds_chain = chain, ds_snapshots = snapshots,
        ds_accounts = accounts, ds_state_digest = state\<rparr>))"

definition decode_durable_state :: "bytes \<Rightarrow> Status + DurableState" where
  "decode_durable_state bs =
     fst (dec_bind decode_durable_state_body (\<lambda>s. dec_bind dec_done (\<lambda>_. dec_return s)) (make_reader bs))"

subsection \<open>Admitted refusals\<close>

definition is_admitted_stage_refusal :: "Reason \<Rightarrow> bool" where
  "is_admitted_stage_refusal r \<longleftrightarrow>
     r \<in> set [InsufficientAvailable, InsufficientOutstanding, InsufficientProtected, CapacityExceeded,
              CapacityShrinkViolation, CapacityOutOfRange, CountZero, CountOverflow, PolicyRefused,
              ExhaustedHard, NotExhausted, NothingToRetire, InvalidState, GrantMismatch,
              ProducerMismatch, ConsumerMismatch, ResourceMismatch, DomainMismatch, AccountExists,
              AccountUnknown, ProfileNotSupported, DuplicateAttempt]"

subsection \<open>The item codecs meet the contract\<close>

lemma state_raw_simps [simp]:
  "authority_state_of_value (unat (of_nat (authority_state_value k) :: u8)) = k"
  "unat (of_nat (authority_state_value k) :: u8) \<le> 3"
  by (cases k; simp add: authority_state_of_value_def)+

lemma state_back_simps:
  "unat p \<le> 3 \<Longrightarrow> (k = authority_state_of_value (unat p)) = (p = of_nat (authority_state_value k))"
  for p :: u8
proof -
  assume p: "unat p \<le> 3"
  have "\<forall>n \<in> set [0..<4]. authority_state_value (authority_state_of_value n) = n" by code_simp
  then have "authority_state_value (authority_state_of_value (unat p)) = unat p" using p by simp
  then show ?thesis using state_raw_simps(1) [of k] by (metis of_nat_unat_word)
qed

lemma length_items [simp]:
  "length (encode_totals t) = 48" "length (encode_incarnation i) = 113" "length (encode_fence f) = 42"
  "length (encode_ambiguous a) = 41" "length (encode_window_pair p) = 16"
  by (simp_all add: encode_totals_def encode_incarnation_def encode_fence_def encode_ambiguous_def
      encode_window_pair_def)

interpretation totals: codec encode_totals decode_totals "\<lambda>_. True"
proof unfold_locales
  fix r r' t
  show "decode_totals r = (Inr t, r') \<longleftrightarrow>
     True \<and> prefix (encode_totals t) (ahead r) \<and> r' = advance (length (encode_totals t)) r"
    by (cases t) (auto simp: decode_totals_def encode_totals_def dec_iffs prefix_append_ahead)
qed

interpretation incarnation: counted_codec encode_incarnation decode_incarnation "\<lambda>_. True" 112
proof unfold_locales
  fix r r' and x :: IncarnationRecord
  obtain i p b st e g pf pd cn gr l c rf fe where x:
    "x = \<lparr>ir_id = StrongId i, ir_publisher = StrongId p, ir_boot = StrongId b, ir_state = st,
          ir_reconciled_epoch = StrongId e, ir_reconciled_generation = StrongId g,
          ir_reconciliation_proof = pf, ir_producer = StrongId pd, ir_consumer = StrongId cn,
          ir_grant = StrongId gr, ir_last_sequence = l, ir_committed_ops = c, ir_refused_ops = rf,
          ir_fenced_at_sequence = fe\<rparr>"
    by (rule that [of "id_value (ir_id x)" "id_value (ir_publisher x)" "id_value (ir_boot x)" "ir_state x"
          "id_value (ir_reconciled_epoch x)" "id_value (ir_reconciled_generation x)"
          "ir_reconciliation_proof x" "id_value (ir_producer x)" "id_value (ir_consumer x)"
          "id_value (ir_grant x)" "ir_last_sequence x" "ir_committed_ops x" "ir_refused_ops x"
          "ir_fenced_at_sequence x"]) simp
  show "decode_incarnation r = (Inr x, r') \<longleftrightarrow>
     True \<and> prefix (encode_incarnation x) (ahead r) \<and> r' = advance (length (encode_incarnation x)) r"
    unfolding x decode_incarnation_def encode_incarnation_def
    by (auto simp: dec_iffs prefix_append_ahead state_back_simps cong: conj_cong)
qed simp

interpretation fence: counted_codec encode_fence decode_fence "\<lambda>_. True" 40
proof unfold_locales
  fix r r' and x :: FenceRecord
  obtain i e g c s f where x:
    "x = \<lparr>fr_incarnation = StrongId i, fr_epoch = StrongId e, fr_generation = StrongId g, fr_cause = c,
          fr_sequence = s, fr_fenced_credit = f\<rparr>"
    by (rule that [of "id_value (fr_incarnation x)" "id_value (fr_epoch x)" "id_value (fr_generation x)"
          "fr_cause x" "fr_sequence x" "fr_fenced_credit x"]) simp
  show "decode_fence r = (Inr x, r') \<longleftrightarrow>
     True \<and> prefix (encode_fence x) (ahead r) \<and> r' = advance (length (encode_fence x)) r"
    unfolding x decode_fence_def encode_fence_def
    by (auto simp: dec_iffs prefix_append_ahead raw_back_simps cong: conj_cong)
qed simp

interpretation ambiguous: counted_codec encode_ambiguous decode_ambiguous "\<lambda>_. True" 40
proof unfold_locales
  fix r r' and x :: AmbiguousNote
  obtain a oper s i j where x:
    "x = \<lparr>am_attempt = AttemptId a, am_op = oper, am_sequence = s, am_incarnation = StrongId i,
          am_journal_sequence = j\<rparr>"
    by (rule that [of "attempt_value (am_attempt x)" "am_op x" "am_sequence x" "id_value (am_incarnation x)"
          "am_journal_sequence x"]) simp
  show "decode_ambiguous r = (Inr x, r') \<longleftrightarrow>
     True \<and> prefix (encode_ambiguous x) (ahead r) \<and> r' = advance (length (encode_ambiguous x)) r"
    unfolding x decode_ambiguous_def encode_ambiguous_def
    by (auto simp: dec_iffs prefix_append_ahead raw_back_simps cong: conj_cong)
qed simp

interpretation window_pair: counted_codec encode_window_pair decode_window_pair "\<lambda>_. True" 16
proof unfold_locales
  fix r r' and x :: "u64 \<times> u64"
  show "decode_window_pair r = (Inr x, r') \<longleftrightarrow>
     True \<and> prefix (encode_window_pair x) (ahead r) \<and> r' = advance (length (encode_window_pair x)) r"
    by (cases x) (auto simp: decode_window_pair_def encode_window_pair_def dec_iffs prefix_append_ahead)
qed simp

definition account_body_ok :: "DurableAccount \<Rightarrow> bool" where
  "account_body_ok a \<longleftrightarrow>
     length (da_incarnations a) \<le> kMaxCollection \<and> length (da_fences a) \<le> kMaxCollection \<and>
     length (da_ambiguous a) \<le> kMaxCollection \<and> length (da_attempt_window a) \<le> kMaxCollection"

interpretation account_body: codec encode_account_body "decode_account_body c1 c2 c3 c4" account_body_ok
  for c1 c2 c3 c4
proof unfold_locales
  fix r r' and x :: DurableAccount
  obtain cfg e g cap t h c d ins fs am co rf w where x:
    "x = \<lparr>da_config = cfg, da_epoch = StrongId e, da_generation = StrongId g, da_capacity = cap,
          da_totals = t, da_hard_exhausted = h, da_exhaustion_cause = c, da_state_digest = d,
          da_incarnations = ins, da_fences = fs, da_ambiguous = am, da_committed_attempts = co,
          da_refused_attempts = rf, da_attempt_window = w\<rparr>"
    by (rule that [of "da_config x" "id_value (da_epoch x)" "id_value (da_generation x)" "da_capacity x"
          "da_totals x" "da_hard_exhausted x" "da_exhaustion_cause x" "da_state_digest x"
          "da_incarnations x" "da_fences x" "da_ambiguous x" "da_committed_attempts x"
          "da_refused_attempts x" "da_attempt_window x"]) simp
  show "decode_account_body c1 c2 c3 c4 r = (Inr x, r') \<longleftrightarrow> account_body_ok x \<and>
     prefix (encode_account_body x) (ahead r) \<and> r' = advance (length (encode_account_body x)) r"
    unfolding x decode_account_body_def encode_account_body_def account_body_ok_def
    by (auto simp: dec_iffs prefix_append_ahead raw_back_simps config.accepts totals.accepts
          incarnation.collection.accepts fence.collection.accepts ambiguous.collection.accepts
          window_pair.collection.accepts list_all_iff ac_simps cong: conj_cong)
qed

subsection \<open>Attempt records\<close>

definition attempt_ok :: "DurableAttempt \<Rightarrow> bool" where
  "attempt_ok t \<longleftrightarrow>
     length (req_note (dt_request t)) \<le> 4096 \<and>
     v_quarantined (out_view (dt_outcome t)) = v_stale (out_view (dt_outcome t)) \<and>
     (dt_created_account t \<longrightarrow> dt_has_account t \<and> out_applied (dt_outcome t)) \<and>
     (if dt_has_account t then account_body_ok (dt_account t)
      else dt_account t = default_durable_account)"

interpretation attempt: codec encode_durable_attempt_body decode_durable_attempt_body attempt_ok
proof unfold_locales
  fix r r' and x :: DurableAttempt
  obtain q oc h c a n m where x:
    "x = \<lparr>dt_request = q, dt_outcome = oc, dt_has_account = h, dt_created_account = c, dt_account = a,
          dt_engine_applied_attempts = n, dt_engine_refused_attempts = m\<rparr>"
    by (cases x)
  show "decode_durable_attempt_body r = (Inr x, r') \<longleftrightarrow> attempt_ok x \<and>
     prefix (encode_durable_attempt_body x) (ahead r) \<and>
     r' = advance (length (encode_durable_attempt_body x)) r"
    unfolding x decode_durable_attempt_body_def encode_durable_attempt_body_def attempt_ok_def
    by (cases h) (auto simp: dec_iffs prefix_append_ahead durable_note.request.accepts outcome.accepts
          account_body.accepts add_ac)
qed

text \<open>A committed attempt is recovered as it was written: the decoder of attempt records accepts
  a payload as \<open>t\<close> if and only if \<open>t\<close> is well formed and the payload is its encoding.\<close>

lemma durable_attempt_codec:
  "decode_durable_attempt bs = Inr t \<longleftrightarrow> attempt_ok t \<and> encode_durable_attempt t = Inr bs"
  unfolding decode_durable_attempt_def encode_durable_attempt_def attempt.message_accepts by auto

subsection \<open>Snapshot records\<close>

lemma account_chunk_accepts:
  "decode_account_chunk r = (Inr a, r') \<longleftrightarrow>
     (account_body_ok a \<and> length (encode_account_body a) < 2 ^ 32) \<and>
     prefix (encode_account_chunk a) (ahead r) \<and> r' = advance (length (encode_account_chunk a)) r"
proof -
  let ?e = "encode_account_body a"
  have nested: "(\<exists>nr. decode_account_body 18 19 20 21 (make_reader bs) = (Inr a, nr) \<and> rd_done nr) \<longleftrightarrow>
      account_body_ok a \<and> bs = ?e" for bs
    by (auto simp: account_body.accepts rd_done_def advance_def prefix_def) (auto simp: make_reader_def)
  have "decode_account_chunk r = (Inr a, r') \<longleftrightarrow>
      (\<exists>n r1. rd_u32 r = (Some n, r1) \<and> unat n \<le> length (ahead r1) \<and> r' = advance (unat n) r1 \<and>
        (\<exists>nr. decode_account_body 18 19 20 21 (make_reader (take (unat n) (ahead r1))) = (Inr a, nr) \<and> rd_done nr))"
    by (auto simp: decode_account_chunk_def Let_def rd_remaining_ahead ahead_def [symmetric] rd_skip_iff
        split: prod.splits option.splits sum.splits if_splits)
       (auto simp: rd_skip_def rd_ensure_def ahead_def)
  also have "\<dots> \<longleftrightarrow> (\<exists>n. account_body_ok a \<and> prefix (bw_u32 n) (ahead r) \<and> unat n = length ?e \<and>
      prefix ?e (drop 4 (ahead r)) \<and> r' = advance (4 + length ?e) r)"
    unfolding nested rd_u32_iff
    using take_eq_prefix [of _ "drop 4 (ahead r)" ?e] by (auto simp: ahead_advance) metis+
  also have "\<dots> \<longleftrightarrow> account_body_ok a \<and> length ?e < 2 ^ 32 \<and> prefix (bw_u32 (of_nat (length ?e))) (ahead r) \<and>
      prefix ?e (drop 4 (ahead r)) \<and> r' = advance (4 + length ?e) r"
  proof -
    have "unat n = length ?e \<longleftrightarrow> length ?e < 2 ^ 32 \<and> n = of_nat (length ?e)" for n :: u32
      using unsigned_less [of n, where 'a=nat] by (auto simp: unat_of_nat word_eq_iff_unat)
    then show ?thesis by auto
  qed
  finally show ?thesis
    by (auto simp: encode_account_chunk_def prefix_append_ahead ahead_advance)
qed

interpretation account_chunk: counted_codec encode_account_chunk decode_account_chunk
  "\<lambda>a. account_body_ok a \<and> length (encode_account_body a) < 2 ^ 32" 4
  by unfold_locales (simp_all add: account_chunk_accepts, simp add: encode_account_chunk_def)

definition durable_state_ok :: "DurableState \<Rightarrow> bool" where
  "durable_state_ok s \<longleftrightarrow>
     length (ds_accounts s) \<le> kMaxCollection \<and>
     list_all (\<lambda>a. account_body_ok a \<and> length (encode_account_body a) < 2 ^ 32) (ds_accounts s)"

interpretation durable_state: codec encode_durable_state_body decode_durable_state_body durable_state_ok
proof unfold_locales
  fix r r' and x :: DurableState
  show "decode_durable_state_body r = (Inr x, r') \<longleftrightarrow> durable_state_ok x \<and>
     prefix (encode_durable_state_body x) (ahead r) \<and>
     r' = advance (length (encode_durable_state_body x)) r"
    unfolding decode_durable_state_body_def encode_durable_state_body_def durable_state_ok_def
    by (cases x) (auto simp: dec_iffs prefix_append_ahead account_chunk.collection.accepts)
qed

text \<open>C34: a snapshot is recovered as it was written: the decoder of snapshot payloads accepts a
  payload as \<open>s\<close> if and only if every collection and every account chunk of \<open>s\<close> is within the
  format's bounds and the payload is the encoding of \<open>s\<close>.\<close>

theorem durable_state_codec:
  "decode_durable_state bs = Inr s \<longleftrightarrow> durable_state_ok s \<and> encode_durable_state s = Inr bs"
  unfolding decode_durable_state_def encode_durable_state_def durable_state.message_accepts by auto

end
