(* ===== verification/Journal.thy ===== *)
theory Journal
  imports Durable
begin

text \<open>
  The journal interface and its in-memory implementation (\<open>include/creditfabric/journal.hpp\<close>,
  \<open>src/journal.cpp\<close>). The abstract class is a record of its virtual operations, so the engine model
  is a function of the journal it is given. Locale \<open>journal_contract\<close> states what the engine relies
  on (what a successful append leaves in the log, that a failed operation leaves the durable
  contents alone, that a replay reads the log back in order), and \<open>InMemoryJournal\<close> meets it.
\<close>

subsection \<open>The interface\<close>

datatype JournalRecordKind = KindUnknown | KindAttempt | KindSnapshot | KindIntent

primrec record_kind_value :: "JournalRecordKind \<Rightarrow> nat" where
  "record_kind_value KindUnknown = 0"
| "record_kind_value KindAttempt = 1"
| "record_kind_value KindSnapshot = 2"
| "record_kind_value KindIntent = 3"

record JournalRecord =
  jr_valid :: bool
  jr_sequence :: u64
  jr_kind :: JournalRecordKind
  jr_chain :: Digest128
  jr_payload :: bytes
  jr_offset :: u64

definition default_journal_record :: JournalRecord where
  "default_journal_record =
     \<lparr>jr_valid = False, jr_sequence = 0, jr_kind = KindUnknown, jr_chain = zero_digest,
      jr_payload = [], jr_offset = 0\<rparr>"

text \<open>The virtual operations. \<open>read_snapshot\<close> returns its three out-parameters where \<open>present\<close> is
  true and \<open>None\<close> where it is false.\<close>

record 'j journal_ops =
  j_open :: "'j \<Rightarrow> Status \<times> 'j"
  j_append :: "u64 \<Rightarrow> JournalRecordKind \<Rightarrow> Digest128 \<Rightarrow> bytes \<Rightarrow> 'j \<Rightarrow> Status \<times> 'j"
  j_begin_replay :: "'j \<Rightarrow> Status \<times> 'j"
  j_next_record :: "'j \<Rightarrow> Status \<times> JournalRecord \<times> 'j"
  j_end_replay :: "'j \<Rightarrow> Status \<times> 'j"
  j_rotate :: "u64 \<Rightarrow> 'j \<Rightarrow> Status \<times> 'j"
  j_write_snapshot :: "u64 \<Rightarrow> Digest128 \<Rightarrow> bytes \<Rightarrow> 'j \<Rightarrow> Status \<times> 'j"
  j_read_snapshot :: "'j \<Rightarrow> Status \<times> (u64 \<times> Digest128 \<times> bytes) option \<times> 'j"
  j_bytes :: "'j \<Rightarrow> u64"
  j_records :: "'j \<Rightarrow> u64"
  j_torn_tail :: "'j \<Rightarrow> bool"
  j_describe :: "'j \<Rightarrow> string"
  j_close :: "'j \<Rightarrow> Status \<times> 'j"

subsection \<open>InMemoryJournal\<close>

record Entry =
  en_sequence :: u64
  en_kind :: JournalRecordKind
  en_chain :: Digest128
  en_payload :: bytes
  en_corrupted :: bool

record InMemoryJournal =
  mj_entries :: "Entry list"
  mj_cursor :: nat
  mj_max_bytes :: u64
  mj_bytes :: u64
  mj_replaying :: bool
  mj_torn :: bool
  mj_has_snapshot :: bool
  mj_snapshot_sequence :: u64
  mj_snapshot_chain :: Digest128
  mj_snapshot_payload :: bytes

definition make_in_memory :: "u64 \<Rightarrow> InMemoryJournal" where
  "make_in_memory max_bytes =
     \<lparr>mj_entries = [], mj_cursor = 0, mj_max_bytes = max_bytes, mj_bytes = 0, mj_replaying = False,
      mj_torn = False, mj_has_snapshot = False, mj_snapshot_sequence = 0,
      mj_snapshot_chain = zero_digest, mj_snapshot_payload = []\<rparr>"

definition mem_open :: "InMemoryJournal \<Rightarrow> Status \<times> InMemoryJournal" where
  "mem_open j = (success, j\<lparr>mj_cursor := 0, mj_replaying := False, mj_torn := False\<rparr>)"

definition mem_append ::
  "u64 \<Rightarrow> JournalRecordKind \<Rightarrow> Digest128 \<Rightarrow> bytes \<Rightarrow> InMemoryJournal \<Rightarrow> Status \<times> InMemoryJournal" where
  "mem_append sequence kind chain payload j =
     (if mj_replaying j then (refused InvalidState 1, j)
      else
        let growth = of_nat (length payload) + 8 in
        if mj_bytes j + growth > mj_max_bytes j then (refused BudgetExceeded (mj_bytes j), j)
        else
          (success,
           j\<lparr>mj_entries := mj_entries j @
               [\<lparr>en_sequence = sequence, en_kind = kind, en_chain = chain, en_payload = payload,
                 en_corrupted = False\<rparr>],
             mj_bytes := mj_bytes j + growth\<rparr>))"

definition mem_begin_replay :: "InMemoryJournal \<Rightarrow> Status \<times> InMemoryJournal" where
  "mem_begin_replay j = (success, j\<lparr>mj_cursor := 0, mj_replaying := True, mj_torn := False\<rparr>)"

definition mem_next_record :: "InMemoryJournal \<Rightarrow> Status \<times> JournalRecord \<times> InMemoryJournal" where
  "mem_next_record j =
     (if mj_cursor j < length (mj_entries j) then
        let entry = mj_entries j ! mj_cursor j in
        if en_corrupted entry then (success, default_journal_record, j\<lparr>mj_torn := True\<rparr>)
        else
          (success,
           \<lparr>jr_valid = True, jr_sequence = en_sequence entry, jr_kind = en_kind entry,
            jr_chain = en_chain entry, jr_payload = en_payload entry,
            jr_offset = of_nat (mj_cursor j)\<rparr>,
           j\<lparr>mj_cursor := Suc (mj_cursor j)\<rparr>)
      else (success, default_journal_record, j))"

definition mem_end_replay :: "InMemoryJournal \<Rightarrow> Status \<times> InMemoryJournal" where
  "mem_end_replay j = (success, j\<lparr>mj_replaying := False\<rparr>)"

definition mem_rotate :: "u64 \<Rightarrow> InMemoryJournal \<Rightarrow> Status \<times> InMemoryJournal" where
  "mem_rotate snapshot_sequence j =
     (let kept = filter (\<lambda>e. \<not> en_sequence e \<le> snapshot_sequence) (mj_entries j);
          size = fold (\<lambda>e b. b + (of_nat (length (en_payload e)) + 8)) kept 0
      in (success, j\<lparr>mj_entries := kept, mj_bytes := size, mj_cursor := 0\<rparr>))"

definition mem_write_snapshot ::
  "u64 \<Rightarrow> Digest128 \<Rightarrow> bytes \<Rightarrow> InMemoryJournal \<Rightarrow> Status \<times> InMemoryJournal" where
  "mem_write_snapshot sequence chain payload j =
     (if of_nat (length payload) > mj_max_bytes j
      then (refused BudgetExceeded (of_nat (length payload)), j)
      else (success, j\<lparr>mj_has_snapshot := True, mj_snapshot_sequence := sequence,
                       mj_snapshot_chain := chain, mj_snapshot_payload := payload\<rparr>))"

definition mem_read_snapshot ::
  "InMemoryJournal \<Rightarrow> Status \<times> (u64 \<times> Digest128 \<times> bytes) option \<times> InMemoryJournal" where
  "mem_read_snapshot j =
     (success,
      if mj_has_snapshot j
      then Some (mj_snapshot_sequence j, mj_snapshot_chain j, mj_snapshot_payload j) else None, j)"

definition mem_close :: "InMemoryJournal \<Rightarrow> Status \<times> InMemoryJournal" where
  "mem_close j = (success, j\<lparr>mj_replaying := False\<rparr>)"

definition simulate_corruption :: "nat \<Rightarrow> InMemoryJournal \<Rightarrow> InMemoryJournal" where
  "simulate_corruption index j =
     (if index \<ge> length (mj_entries j) then j
      else j\<lparr>mj_entries := (mj_entries j)[index := (mj_entries j ! index)\<lparr>en_corrupted := True\<rparr>]\<rparr>)"

definition simulate_torn_tail :: "InMemoryJournal \<Rightarrow> InMemoryJournal" where
  "simulate_torn_tail j =
     (if mj_entries j = [] then j else simulate_corruption (length (mj_entries j) - 1) j)"

definition set_max_bytes :: "u64 \<Rightarrow> InMemoryJournal \<Rightarrow> InMemoryJournal" where
  "set_max_bytes max_bytes j = j\<lparr>mj_max_bytes := max_bytes\<rparr>"

definition in_memory_ops :: "InMemoryJournal journal_ops" where
  "in_memory_ops =
     \<lparr>j_open = mem_open, j_append = mem_append, j_begin_replay = mem_begin_replay,
      j_next_record = mem_next_record, j_end_replay = mem_end_replay, j_rotate = mem_rotate,
      j_write_snapshot = mem_write_snapshot, j_read_snapshot = mem_read_snapshot,
      j_bytes = mj_bytes, j_records = (\<lambda>j. of_nat (length (mj_entries j))), j_torn_tail = mj_torn,
      j_describe = (\<lambda>_. ''in-memory''), j_close = mem_close\<rparr>"

subsection \<open>The contract\<close>

text \<open>What is durable: the readable log, as the records a replay would return, and the snapshot.\<close>

datatype log_record = LogRecord
  (lr_sequence: u64) (lr_kind: JournalRecordKind) (lr_chain: Digest128) (lr_payload: bytes)

abbreviation record_of :: "log_record \<Rightarrow> u64 \<Rightarrow> JournalRecord" where
  "record_of l n \<equiv>
     \<lparr>jr_valid = True, jr_sequence = lr_sequence l, jr_kind = lr_kind l, jr_chain = lr_chain l,
      jr_payload = lr_payload l, jr_offset = n\<rparr>"

text \<open>The records of successive reads, until one is not valid or fails.\<close>

fun read_all :: "'j journal_ops \<Rightarrow> nat \<Rightarrow> 'j \<Rightarrow> log_record list \<times> 'j" where
  "read_all jops 0 j = ([], j)"
| "read_all jops (Suc fuel) j =
     (case j_next_record jops j of
        (s, r, j1) \<Rightarrow>
          if status_ok s \<and> jr_valid r
          then (case read_all jops fuel j1 of
                  (ls, j2) \<Rightarrow> (LogRecord (jr_sequence r) (jr_kind r) (jr_chain r) (jr_payload r) # ls, j2))
          else ([], j1))"

text \<open>What the engine relies on while it runs. An append that reports success has added its record; one that
  fails may still have left the whole record behind, never a part of it or anything else. Rotation removes
  what a snapshot covers, and may remove more only by failing.\<close>

locale journal_writer =
  fixes jops :: "'j journal_ops"
    and log :: "'j \<Rightarrow> log_record list"
    and snap :: "'j \<Rightarrow> (u64 \<times> Digest128 \<times> bytes) option"
    and ready :: "'j \<Rightarrow> bool"
  assumes append_ok:
      "ready j \<Longrightarrow> k \<noteq> KindUnknown \<Longrightarrow> j_append jops n k c p j = (s, j') \<Longrightarrow> status_ok s \<Longrightarrow>
         log j' = log j @ [LogRecord n k c p] \<and> snap j' = snap j \<and> ready j'"
    and append_failed:
      "ready j \<Longrightarrow> k \<noteq> KindUnknown \<Longrightarrow> j_append jops n k c p j = (s, j') \<Longrightarrow> \<not> status_ok s \<Longrightarrow>
         (log j' = log j \<or> log j' = log j @ [LogRecord n k c p]) \<and> snap j' = snap j"
    and write_snapshot_ok:
      "ready j \<Longrightarrow> j_write_snapshot jops n c p j = (s, j') \<Longrightarrow> status_ok s \<Longrightarrow>
         log j' = log j \<and> snap j' = Some (n, c, p) \<and> ready j'"
    and write_snapshot_failed:
      "ready j \<Longrightarrow> j_write_snapshot jops n c p j = (s, j') \<Longrightarrow> \<not> status_ok s \<Longrightarrow>
         log j' = log j \<and> snap j' = snap j"
    and rotate_ok:
      "ready j \<Longrightarrow> j_rotate jops n j = (s, j') \<Longrightarrow> status_ok s \<Longrightarrow>
         set (log j') \<subseteq> {l \<in> set (log j). n < lr_sequence l} \<and> snap j' = snap j \<and> ready j'"
    and rotate_failed:
      "ready j \<Longrightarrow> j_rotate jops n j = (s, j') \<Longrightarrow> \<not> status_ok s \<Longrightarrow>
         (log j' = log j \<or> log j' = []) \<and> snap j' = snap j"
begin

text \<open>Whatever an append reports, the log it leaves is the old one, perhaps with the record behind it.\<close>

lemma append_extends:
  assumes "ready j" "k \<noteq> KindUnknown" "j_append jops n k c p j = (s, j')"
  shows "(log j' = log j \<or> log j' = log j @ [LogRecord n k c p]) \<and> snap j' = snap j"
  using append_ok [OF assms] append_failed [OF assms] by blast

end

text \<open>What recovery relies on. A journal is sane when it can be opened and read through; opened it is fresh,
  and between \<open>begin_replay\<close> and \<open>end_replay\<close> it is reading, \<open>pending\<close> being what is still to come.\<close>

locale journal_contract = journal_writer jops log snap ready
  for jops :: "'j journal_ops"
    and log :: "'j \<Rightarrow> log_record list"
    and snap :: "'j \<Rightarrow> (u64 \<times> Digest128 \<times> bytes) option"
    and ready :: "'j \<Rightarrow> bool" +
  fixes sane :: "'j \<Rightarrow> bool"
    and fresh :: "'j \<Rightarrow> bool"
    and reading :: "'j \<Rightarrow> bool"
    and pending :: "'j \<Rightarrow> log_record list"
  assumes open_sane:
      "sane j \<Longrightarrow> \<exists>j'. j_open jops j = (success, j') \<and> fresh j' \<and> log j' = log j \<and> snap j' = snap j"
    and read_snapshot_fresh:
      "fresh j \<Longrightarrow> \<exists>j'. j_read_snapshot jops j = (success, snap j, j') \<and> fresh j' \<and> log j' = log j \<and> snap j' = snap j"
    and begin_replay_fresh:
      "fresh j \<Longrightarrow> \<exists>j'. j_begin_replay jops j = (success, j') \<and> reading j' \<and> pending j' = log j \<and>
         log j' = log j \<and> snap j' = snap j"
    and next_record_some:
      "reading j \<Longrightarrow> pending j = l # ls \<Longrightarrow>
         \<exists>n j'. j_next_record jops j = (success, record_of l n, j') \<and> reading j' \<and> pending j' = ls \<and>
           log j' = log j \<and> snap j' = snap j"
    and next_record_end:
      "reading j \<Longrightarrow> pending j = [] \<Longrightarrow>
         \<exists>r j'. j_next_record jops j = (success, r, j') \<and> \<not> jr_valid r \<and> reading j' \<and> pending j' = [] \<and>
           log j' = log j \<and> snap j' = snap j"
    and end_replay_reading:
      "reading j \<Longrightarrow> pending j = [] \<Longrightarrow>
         \<exists>j'. j_end_replay jops j = (success, j') \<and> log j' = log j \<and> snap j' = snap j"
begin

text \<open>Reading a sane journal through, with one read more than there are records, returns its log.\<close>

lemma read_all_pending:
  assumes "reading j" "length (pending j) < fuel"
  shows "\<exists>j'. read_all jops fuel j = (pending j, j') \<and> reading j' \<and> pending j' = [] \<and> log j' = log j \<and> snap j' = snap j"
  using assms
proof (induction fuel arbitrary: j)
  case (Suc fuel)
  show ?case
  proof (cases "pending j")
    case Nil
    then show ?thesis using next_record_end [OF Suc.prems(1) Nil] by auto
  next
    case (Cons l ls)
    obtain n j1 where n: "j_next_record jops j = (success, record_of l n, j1)" "reading j1" "pending j1 = ls"
      "log j1 = log j" "snap j1 = snap j"
      using next_record_some [OF Suc.prems(1) Cons] by blast
    then show ?thesis using Suc.IH [of j1] Suc.prems(2) Cons by auto
  qed
qed simp

lemma read_back:
  assumes "sane j" "length (log j) < fuel"
  shows "\<exists>j1 j2 j3 j4. j_open jops j = (success, j1) \<and> j_begin_replay jops j1 = (success, j2) \<and>
           read_all jops fuel j2 = (log j, j3) \<and> j_end_replay jops j3 = (success, j4) \<and> log j4 = log j \<and> snap j4 = snap j"
proof -
  obtain j1 where j1: "j_open jops j = (success, j1)" "fresh j1" "log j1 = log j" "snap j1 = snap j"
    using open_sane [OF assms(1)] by blast
  obtain j2 where j2: "j_begin_replay jops j1 = (success, j2)" "reading j2" "pending j2 = log j1" "log j2 = log j1" "snap j2 = snap j1"
    using begin_replay_fresh [OF j1(2)] by blast
  obtain j3 where j3: "read_all jops fuel j2 = (log j, j3)" "reading j3" "pending j3 = []" "log j3 = log j" "snap j3 = snap j"
    using read_all_pending [OF j2(2), of fuel] assms(2) j1 j2 by auto
  from end_replay_reading [OF j3(2,3)] show ?thesis using j1 j2 j3 by auto
qed

end

text \<open>The readable log of the in-memory journal stops at the first corrupted entry.\<close>

definition log_of_entry :: "Entry \<Rightarrow> log_record" where
  "log_of_entry e = LogRecord (en_sequence e) (en_kind e) (en_chain e) (en_payload e)"

definition mem_log :: "InMemoryJournal \<Rightarrow> log_record list" where
  "mem_log j = map log_of_entry (takeWhile (\<lambda>e. \<not> en_corrupted e) (mj_entries j))"

definition mem_snap :: "InMemoryJournal \<Rightarrow> (u64 \<times> Digest128 \<times> bytes) option" where
  "mem_snap j =
     (if mj_has_snapshot j
      then Some (mj_snapshot_sequence j, mj_snapshot_chain j, mj_snapshot_payload j) else None)"

definition mem_ready :: "InMemoryJournal \<Rightarrow> bool" where
  "mem_ready j \<longleftrightarrow> \<not> mj_replaying j \<and> list_all (\<lambda>e. \<not> en_corrupted e) (mj_entries j)"

definition mem_pending :: "InMemoryJournal \<Rightarrow> log_record list" where
  "mem_pending j =
     map log_of_entry (takeWhile (\<lambda>e. \<not> en_corrupted e) (drop (mj_cursor j) (mj_entries j)))"

lemma takeWhile_all: "list_all P xs \<Longrightarrow> takeWhile P xs = xs"
  by (simp add: list_all_iff takeWhile_eq_all_conv)

interpretation mem: journal_contract in_memory_ops mem_log mem_snap mem_ready "\<lambda>_. True" "\<lambda>_. True" "\<lambda>_. True" mem_pending
proof unfold_locales
  fix j :: InMemoryJournal and l ls
  assume p: "mem_pending j = l # ls"
  then obtain e es where d: "drop (mj_cursor j) (mj_entries j) = e # es" "\<not> en_corrupted e"
    "l = log_of_entry e" "ls = map log_of_entry (takeWhile (\<lambda>e. \<not> en_corrupted e) es)"
    by (cases "drop (mj_cursor j) (mj_entries j)") (auto simp: mem_pending_def split: if_splits)
  have c: "mj_cursor j < length (mj_entries j)" using d(1) by (metis drop_all list.discI not_le)
  then have "mj_entries j ! mj_cursor j = e" "drop (Suc (mj_cursor j)) (mj_entries j) = es"
    using d(1) Cons_nth_drop_Suc [OF c] by simp_all
  with c d show "\<exists>n j'. j_next_record in_memory_ops j = (success, record_of l n, j') \<and> True \<and> mem_pending j' = ls \<and>
      mem_log j' = mem_log j \<and> mem_snap j' = mem_snap j"
    by (auto simp: in_memory_ops_def mem_next_record_def Let_def log_of_entry_def mem_pending_def mem_log_def mem_snap_def)
next
  fix j :: InMemoryJournal
  assume p: "mem_pending j = []"
  then show "\<exists>r j'. j_next_record in_memory_ops j = (success, r, j') \<and> \<not> jr_valid r \<and> True \<and> mem_pending j' = [] \<and>
      mem_log j' = mem_log j \<and> mem_snap j' = mem_snap j"
    by (cases "mj_cursor j < length (mj_entries j)")
       (auto simp: in_memory_ops_def mem_next_record_def default_journal_record_def Let_def mem_pending_def
          mem_log_def mem_snap_def Cons_nth_drop_Suc [symmetric] split: if_splits)
qed (auto simp: in_memory_ops_def mem_append_def mem_rotate_def mem_write_snapshot_def mem_open_def mem_end_replay_def
      mem_begin_replay_def mem_read_snapshot_def mem_log_def mem_snap_def mem_ready_def mem_pending_def
      log_of_entry_def takeWhile_all Let_def list_all_iff not_le split: if_splits)

subsection \<open>Space\<close>

text \<open>While a journal is usable and has the space, an append succeeds, costs its payload and a constant, and leaves what
  is \<open>kept\<close>, the snapshot for instance.\<close>

locale journal_space =
  fixes jops :: "'j journal_ops"
    and kept :: "'j \<Rightarrow> 'k"
    and usable :: "'j \<Rightarrow> bool"
    and space :: "'j \<Rightarrow> nat"
  assumes append_usable:
      "usable j \<Longrightarrow> k \<noteq> KindUnknown \<Longrightarrow> length p + 40 \<le> space j \<Longrightarrow>
         \<exists>j'. j_append jops n k c p j = (success, j') \<and> usable j' \<and> space j \<le> space j' + length p + 40 \<and>
           unat (j_bytes jops j') \<le> unat (j_bytes jops j) + length p + 40 \<and> kept j' = kept j"

lemma room_growth:
  fixes b m :: u64
  assumes "unat b + n + 8 \<le> unat m" "b' = b + (of_nat n + 8)"
  shows "\<not> m < b'" "unat b' = unat b + n + 8"
proof -
  have "unat m < 2 ^ 64" using unsigned_less [of m] by simp
  then have lt: "unat b + (n + 8) < 2 ^ 64" using assms(1) by linarith
  then have u: "unat (of_nat n + 8 :: u64) = n + 8"
    by (simp add: unat_word_ariths unat_of_nat take_bit_eq_mod)
  show "unat b' = unat b + n + 8"
    using u lt unfolding assms(2) by (subst unat_word_ariths) (simp add: u)
  then show "\<not> m < b'" using assms(1) by (simp add: word_less_nat_alt)
qed

lemma in_memory_bytes: "j_bytes in_memory_ops = mj_bytes"
  by (simp add: in_memory_ops_def)

interpretation mem_space: journal_space in_memory_ops mem_snap "\<lambda>j. \<not> mj_replaying j" "\<lambda>j. unat (mj_max_bytes j) - unat (mj_bytes j)"
proof unfold_locales
  fix j :: InMemoryJournal and k n c and p :: bytes
  assume a: "\<not> mj_replaying j" "k \<noteq> KindUnknown" "length p + 40 \<le> unat (mj_max_bytes j) - unat (mj_bytes j)"
  then have "unat (mj_bytes j) + length p + 8 \<le> unat (mj_max_bytes j)" by linarith
  note g = room_growth [OF this refl]
  show "\<exists>j'. j_append in_memory_ops n k c p j = (success, j') \<and> \<not> mj_replaying j' \<and>
      unat (mj_max_bytes j) - unat (mj_bytes j) \<le> unat (mj_max_bytes j') - unat (mj_bytes j') + length p + 40 \<and>
      unat (j_bytes in_memory_ops j') \<le> unat (j_bytes in_memory_ops j) + length p + 40 \<and> mem_snap j' = mem_snap j"
    using a(1) g by (simp add: in_memory_ops_def mem_append_def Let_def mem_snap_def)
qed

end
