(* ===== verification/FileJournal.thy ===== *)
theory FileJournal
  imports Platform Journal
begin

text \<open>
  The file journal (\<open>include/creditfabric/file_journal.hpp\<close>, \<open>src/file_journal.cpp\<close>): an append-only
  log of length-prefixed, CRC-protected records behind a 12-byte header, and a snapshot file replaced
  by rename. The object carries the file world it works on. Multi-byte fields are little-endian, the
  layout the sources document for their \<open>memcpy\<close>.
\<close>

subsection \<open>Layout\<close>

definition kJournalMagic :: u32 where
  "kJournalMagic = 0x314A4643"

definition kSnapshotMagic :: u32 where
  "kSnapshotMagic = 0x31534643"

definition kHeaderBytes :: nat where
  "kHeaderBytes = 12"

definition kRecordOverhead :: nat where
  "kRecordOverhead = 8"

definition kEnvelopeBytes :: nat where
  "kEnvelopeBytes = 25"

definition kSnapshotPayloadLimit :: nat where
  "kSnapshotPayloadLimit = 67108864"

definition get_u64 :: "bytes \<Rightarrow> u64" where
  "get_u64 source = le_decode 8 source"

definition encode_envelope :: "u64 \<Rightarrow> JournalRecordKind \<Rightarrow> Digest128 \<Rightarrow> bytes \<Rightarrow> bytes" where
  "encode_envelope sequence kind chain payload =
     bw_u64 sequence @ [of_nat (record_kind_value kind)] @ bw_u64 (dg_lo chain) @ bw_u64 (dg_hi chain) @ payload"

definition file_header :: "u32 \<Rightarrow> bytes" where
  "file_header magic =
     (let start = bw_u32 magic @ [ucast kFormatVersion, 0, 0, 0] in start @ bw_u32 (crc32c start 0))"

subsection \<open>State\<close>

record FileJournalOptions =
  fo_prefix :: string
  fo_max_record_bytes :: nat
  fo_max_bytes :: u64
  fo_records_per_snapshot :: nat
  fo_truncate_torn_tail :: bool

definition default_file_options :: FileJournalOptions where
  "default_file_options =
     \<lparr>fo_prefix = ''creditfabric'', fo_max_record_bytes = 1048576, fo_max_bytes = 67108864,
      fo_records_per_snapshot = 4096, fo_truncate_torn_tail = True\<rparr>"

record FileJournal =
  fj_options :: FileJournalOptions
  fj_journal_path :: string
  fj_snapshot_path :: string
  fj_stream :: bool
  fj_write_offset :: nat
  fj_scan_offset :: nat
  fj_bytes :: nat
  fj_records :: nat
  fj_truncated_bytes :: nat
  fj_replaying :: bool
  fj_torn :: bool
  fj_open :: bool
  fj_world :: file_world

definition make_file_journal :: "FileJournalOptions \<Rightarrow> file_world \<Rightarrow> FileJournal" where
  "make_file_journal options w =
     \<lparr>fj_options = options, fj_journal_path = fo_prefix options @ ''.jrnl'',
      fj_snapshot_path = fo_prefix options @ ''.snap'', fj_stream = False, fj_write_offset = 0,
      fj_scan_offset = 0, fj_bytes = 0, fj_records = 0, fj_truncated_bytes = 0, fj_replaying = False,
      fj_torn = False, fj_open = False, fj_world = w\<rparr>"

subsection \<open>Operations\<close>

definition truncate_stream :: "string \<Rightarrow> nat \<Rightarrow> file_world \<Rightarrow> Status \<times> file_world" where
  "truncate_stream path keep w =
     (case libc_call w of
        (flushed, w1) \<Rightarrow>
          if \<not> flushed then (refused IoError 1, w1)
          else case libc_call w1 of
            (descriptor, w2) \<Rightarrow>
              if \<not> descriptor then (refused IoError 2, w2)
              else case libc_ftruncate path keep w2 of
                (done_, w3) \<Rightarrow> (if done_ then success else refused IoError 3, w3))"

text \<open>The two branches of \<open>open\<close>: write a new header, or check the one that is there.\<close>

definition create_header :: "string \<Rightarrow> file_world \<Rightarrow> Status \<times> file_world" where
  "create_header path w =
     (case libc_fwrite path 0 (file_header kJournalMagic) w of
        (n, w1) \<Rightarrow>
          if n \<noteq> length (file_header kJournalMagic) then (refused IoError 11, w1)
          else durable_flush True w1)"

definition check_header :: "string \<Rightarrow> file_world \<Rightarrow> Status \<times> file_world" where
  "check_header path w =
     (case libc_fread path 0 kHeaderBytes w of
        (header, w1) \<Rightarrow>
          (if length header \<noteq> kHeaderBytes then refused JournalCorrupt 12
           else if read_u32 header \<noteq> kJournalMagic then refused JournalCorrupt 13
           else if header ! 4 \<noteq> ucast kFormatVersion
           then refused JournalVersionUnsupported (ucast (header ! 4))
           else if read_u32 (drop 8 header) \<noteq> crc32c (take 8 header) 0 then refused JournalCorrupt 14
           else success, w1))"

definition fj_open_call :: "FileJournal \<Rightarrow> Status \<times> FileJournal" where
  "fj_open_call j =
     (let path = fj_journal_path j in
      case ensure_parent_directory path (fj_world j) of
        (s0, w0) \<Rightarrow>
          if \<not> status_ok s0 then (s0, j\<lparr>fj_world := w0\<rparr>)
          else case file_exists path w0 of
            (existed, w1) \<Rightarrow>
              (case libc_fopen path (if existed then OpenUpdate else OpenCreate) w1 of
                 (opened, w2) \<Rightarrow>
                   if \<not> opened then (refused IoError 10, j\<lparr>fj_world := w2\<rparr>)
                   else case (if existed then check_header path w2 else create_header path w2) of
                     (s3, w3) \<Rightarrow>
                       if \<not> status_ok s3 then (s3, j\<lparr>fj_world := w3\<rparr>)
                       else
                         let j1 = j\<lparr>fj_stream := True, fj_open := True, fj_replaying := False,
                                    fj_torn := False, fj_truncated_bytes := 0\<rparr> in
                         case libc_call w3 of
                           (sought, w4) \<Rightarrow>
                             if \<not> sought then (refused IoError 15, j1\<lparr>fj_world := w4\<rparr>)
                             else case libc_call w4 of
                               (told, w5) \<Rightarrow>
                                 if \<not> told then (refused IoError 16, j1\<lparr>fj_world := w5\<rparr>)
                                 else
                                   let n = length (fw_content path w5) in
                                   (success,
                                    j1\<lparr>fj_world := w5, fj_write_offset := n,
                                       fj_scan_offset := kHeaderBytes, fj_bytes := n,
                                       fj_records := 0\<rparr>)))"

definition rewrite_journal_header :: "FileJournal \<Rightarrow> Status \<times> FileJournal" where
  "rewrite_journal_header j =
     (if \<not> fj_stream j then (refused InvalidState 20, j)
      else case libc_call (fj_world j) of
        (sought, w1) \<Rightarrow>
          if \<not> sought then (refused IoError 21, j\<lparr>fj_world := w1\<rparr>)
          else case libc_fwrite (fj_journal_path j) 0 (file_header kJournalMagic) w1 of
            (n, w2) \<Rightarrow>
              if n \<noteq> length (file_header kJournalMagic) then (refused IoError 22, j\<lparr>fj_world := w2\<rparr>)
              else case durable_flush True w2 of (s, w3) \<Rightarrow> (s, j\<lparr>fj_world := w3\<rparr>))"

definition fj_begin_replay :: "FileJournal \<Rightarrow> Status \<times> FileJournal" where
  "fj_begin_replay j =
     (if \<not> fj_open j then (refused InvalidState 30, j)
      else if fj_replaying j then (refused InvalidState 31, j)
      else (success, j\<lparr>fj_scan_offset := kHeaderBytes, fj_records := 0, fj_torn := False,
                       fj_replaying := True\<rparr>))"

definition mark_torn :: "FileJournal \<Rightarrow> FileJournal" where
  "mark_torn j = j\<lparr>fj_torn := True, fj_truncated_bytes := fj_write_offset j - fj_scan_offset j\<rparr>"

definition record_kind_of :: "u8 \<Rightarrow> JournalRecordKind option" where
  "record_kind_of b =
     (if b = 1 then Some KindAttempt else if b = 2 then Some KindSnapshot
      else if b = 3 then Some KindIntent else None)"

definition fj_next_record :: "FileJournal \<Rightarrow> Status \<times> JournalRecord \<times> FileJournal" where
  "fj_next_record j =
     (let none = default_journal_record; path = fj_journal_path j; scan = fj_scan_offset j in
      if \<not> fj_open j then (refused InvalidState 32, none, j)
      else if \<not> fj_stream j then (refused InvalidState 33, none, j)
      else if scan + kRecordOverhead > fj_write_offset j
      then (success, none, if scan \<noteq> fj_write_offset j then mark_torn j else j)
      else case libc_call (fj_world j) of
        (sought, w1) \<Rightarrow>
          let j1 = j\<lparr>fj_world := w1\<rparr> in
          if \<not> sought then (refused IoError 34, none, j1)
          else case libc_fread path scan kRecordOverhead w1 of
            (start, w2) \<Rightarrow>
              let j2 = j1\<lparr>fj_world := w2\<rparr> in
              if length start < kRecordOverhead then (success, none, mark_torn j2)
              else
                let n = unat (read_u32 start); expected_crc = read_u32 (drop 4 start) in
                if n > fo_max_record_bytes (fj_options j) \<or> n < kEnvelopeBytes \<or>
                   scan + kRecordOverhead + n > fj_write_offset j
                then (success, none, mark_torn j2)
                else case libc_fread path (scan + kRecordOverhead) n w2 of
                  (envelope, w3) \<Rightarrow>
                    let j3 = j2\<lparr>fj_world := w3\<rparr> in
                    if length envelope \<noteq> n then (success, none, mark_torn j3)
                    else if crc32c envelope 0 \<noteq> expected_crc then (success, none, mark_torn j3)
                    else case record_kind_of (envelope ! 8) of
                      None \<Rightarrow> (success, none, mark_torn j3)
                    | Some kind \<Rightarrow>
                        (success,
                         \<lparr>jr_valid = True, jr_sequence = get_u64 envelope, jr_kind = kind,
                          jr_chain = Digest128 (get_u64 (drop 9 envelope)) (get_u64 (drop 17 envelope)),
                          jr_payload = drop kEnvelopeBytes envelope, jr_offset = of_nat scan\<rparr>,
                         j3\<lparr>fj_scan_offset := scan + kRecordOverhead + n,
                            fj_records := Suc (fj_records j3)\<rparr>))"

definition fj_end_replay :: "FileJournal \<Rightarrow> Status \<times> FileJournal" where
  "fj_end_replay j =
     (if \<not> fj_open j then (refused InvalidState 40, j)
      else if \<not> fj_replaying j then (refused InvalidState 42, j)
      else
        let j1 = j\<lparr>fj_replaying := False\<rparr> in
        if \<not> fj_stream j then (refused InvalidState 41, j1)
        else if fj_torn j then
          if \<not> fo_truncate_torn_tail (fj_options j)
          then (refused JournalTorn (of_nat (fj_truncated_bytes j)), j1)
          else case truncate_stream (fj_journal_path j) (fj_scan_offset j) (fj_world j) of
            (s, w1) \<Rightarrow>
              if \<not> status_ok s then (s, j1\<lparr>fj_world := w1\<rparr>)
              else (success, j1\<lparr>fj_world := w1, fj_write_offset := fj_scan_offset j,
                                fj_bytes := fj_scan_offset j\<rparr>)
        else (success, j1))"

definition fj_append ::
  "u64 \<Rightarrow> JournalRecordKind \<Rightarrow> Digest128 \<Rightarrow> bytes \<Rightarrow> FileJournal \<Rightarrow> Status \<times> FileJournal" where
  "fj_append sequence kind chain payload j =
     (if \<not> fj_open j then (refused InvalidState 50, j)
      else if fj_replaying j then (refused InvalidState 51, j)
      else if fj_torn j then (refused JournalTorn (of_nat (fj_truncated_bytes j)), j)
      else if length payload + kEnvelopeBytes > fo_max_record_bytes (fj_options j)
      then (refused OversizedFrame (of_nat (length payload)), j)
      else if fj_bytes j + length payload + kEnvelopeBytes + kRecordOverhead > unat (fo_max_bytes (fj_options j))
      then (refused BudgetExceeded (of_nat (fj_bytes j)), j)
      else if \<not> fj_stream j then (refused InvalidState 52, j)
      else case libc_call (fj_world j) of
        (sought, w1) \<Rightarrow>
          if \<not> sought then (refused IoError 53, j\<lparr>fj_world := w1\<rparr>)
          else
            let path = fj_journal_path j; envelope = encode_envelope sequence kind chain payload;
                start = bw_u32 (of_nat (length envelope)) @ bw_u32 (crc32c envelope 0) in
            case libc_fwrite path (fj_write_offset j) start w1 of
              (n1, w2) \<Rightarrow>
                if n1 \<noteq> length start then (refused IoError 54, j\<lparr>fj_world := w2\<rparr>)
                else case libc_fwrite path (fj_write_offset j + kRecordOverhead) envelope w2 of
                  (n2, w3) \<Rightarrow>
                    if n2 \<noteq> length envelope then (refused IoError 55, j\<lparr>fj_world := w3\<rparr>)
                    else case durable_flush True w3 of
                      (s, w4) \<Rightarrow>
                        if \<not> status_ok s then (s, j\<lparr>fj_world := w4\<rparr>)
                        else
                          let size' = fj_write_offset j + kRecordOverhead + length envelope in
                          (success, j\<lparr>fj_world := w4, fj_write_offset := size', fj_bytes := size',
                                      fj_records := Suc (fj_records j)\<rparr>))"

definition fj_rotate :: "u64 \<Rightarrow> FileJournal \<Rightarrow> Status \<times> FileJournal" where
  "fj_rotate snapshot_sequence j =
     (if \<not> fj_open j then (refused InvalidState 60, j)
      else if \<not> fj_stream j then (refused InvalidState 61, j)
      else case rewrite_journal_header j of
        (s1, j1) \<Rightarrow>
          if \<not> status_ok s1 then (s1, j1)
          else case truncate_stream (fj_journal_path j1) kHeaderBytes (fj_world j1) of
            (s2, w2) \<Rightarrow>
              if \<not> status_ok s2 then (s2, j1\<lparr>fj_world := w2\<rparr>)
              else case durable_flush True w2 of
                (s3, w3) \<Rightarrow>
                  if \<not> status_ok s3 then (s3, j1\<lparr>fj_world := w3\<rparr>)
                  else (success,
                        j1\<lparr>fj_world := w3, fj_write_offset := kHeaderBytes,
                           fj_scan_offset := kHeaderBytes, fj_bytes := kHeaderBytes, fj_records := 0,
                           fj_torn := False, fj_truncated_bytes := 0\<rparr>))"

subsection \<open>The snapshot file\<close>

definition snapshot_head :: "u64 \<Rightarrow> Digest128 \<Rightarrow> bytes" where
  "snapshot_head sequence chain = file_header kSnapshotMagic @ bw_u64 sequence @ bw_u64 (dg_lo chain)"

definition snapshot_trailer :: "Digest128 \<Rightarrow> bytes \<Rightarrow> bytes" where
  "snapshot_trailer chain payload =
     bw_u64 (dg_hi chain) @ bw_u32 (of_nat (length payload)) @ bw_u32 (crc32c payload 0)"

text \<open>The three writes, each attempted only when the ones before it were complete.\<close>

definition write_parts :: "string \<Rightarrow> nat \<Rightarrow> bytes list \<Rightarrow> file_world \<Rightarrow> bool \<times> file_world" where
  "write_parts path pos parts w =
     (case foldl (\<lambda>(ok, k, v) bs.
               if \<not> ok then (ok, k, v)
               else if bs = [] then (True, k, v)
               else case libc_fwrite path k bs v of (n, v') \<Rightarrow> (n = length bs, k + length bs, v'))
             (True, pos, w) parts of
        (ok, _, v) \<Rightarrow> (ok, v))"

definition fj_write_snapshot ::
  "u64 \<Rightarrow> Digest128 \<Rightarrow> bytes \<Rightarrow> FileJournal \<Rightarrow> Status \<times> FileJournal" where
  "fj_write_snapshot sequence chain payload j =
     (if length payload > kSnapshotPayloadLimit then (refused OversizedFrame (of_nat (length payload)), j)
      else
        let temporary = fj_snapshot_path j @ ''.tmp'';
            discard = (\<lambda>s v. (s, j\<lparr>fj_world := snd (remove_file temporary v)\<rparr>)) in
        case libc_fopen temporary OpenCreate (fj_world j) of
          (opened, w1) \<Rightarrow>
            if \<not> opened then (refused IoError 70, j\<lparr>fj_world := w1\<rparr>)
            else case write_parts temporary 0 [snapshot_head sequence chain, payload, snapshot_trailer chain payload] w1 of
              (ok, w2) \<Rightarrow>
                if \<not> ok then discard (refused IoError 71) w2
                else case durable_flush True w2 of
                  (flushed, w3) \<Rightarrow>
                    if \<not> status_ok flushed then discard flushed w3
                    else case atomic_replace_file temporary (fj_snapshot_path j) w3 of
                      (replaced, w4) \<Rightarrow>
                        if \<not> status_ok replaced then discard replaced w4
                        else (success, j\<lparr>fj_world := w4\<rparr>))"

definition fj_read_snapshot ::
  "FileJournal \<Rightarrow> Status \<times> (u64 \<times> Digest128 \<times> bytes) option \<times> FileJournal" where
  "fj_read_snapshot j =
     (let path = fj_snapshot_path j; fail = (\<lambda>r d v. (refused r d, None, j\<lparr>fj_world := v\<rparr>)) in
      case file_exists path (fj_world j) of
        (found, w1) \<Rightarrow>
          if \<not> found then (success, None, j\<lparr>fj_world := w1\<rparr>)
          else case libc_fopen path OpenRead w1 of
            (opened, w2) \<Rightarrow>
              if \<not> opened then fail IoError 80 w2
              else case libc_fread path 0 (kHeaderBytes + 16) w2 of
                (header, w3) \<Rightarrow>
                  if length header \<noteq> kHeaderBytes + 16 then fail JournalCorrupt 81 w3
                  else if read_u32 header \<noteq> kSnapshotMagic then fail JournalCorrupt 82 w3
                  else if header ! 4 \<noteq> ucast kFormatVersion
                  then fail JournalVersionUnsupported (ucast (header ! 4)) w3
                  else if read_u32 (drop 8 header) \<noteq> crc32c (take 8 header) 0 then fail JournalCorrupt 83 w3
                  else case libc_call w3 of
                    (sought, w4) \<Rightarrow>
                      if \<not> sought then fail JournalCorrupt 84 w4
                      else case libc_fread path (length (fw_content path w4) - 16) 16 w4 of
                        (trailer, w5) \<Rightarrow>
                          if length trailer \<noteq> 16 then fail JournalCorrupt 84 w5
                          else
                            let n = unat (read_u32 (drop 8 trailer));
                                expected_crc = read_u32 (drop 12 trailer) in
                            if n > kSnapshotPayloadLimit then fail JournalCorrupt 85 w5
                            else case libc_call w5 of
                              (again, w6) \<Rightarrow>
                                if \<not> again then fail JournalCorrupt 86 w6
                                else case (if n = 0 then ([], w6) else libc_fread path (kHeaderBytes + 16) n w6) of
                                  (payload, w7) \<Rightarrow>
                                    if length payload \<noteq> n then fail JournalCorrupt 86 w7
                                    else if crc32c payload 0 \<noteq> expected_crc then fail JournalCorrupt 87 w7
                                    else (success,
                                          Some (get_u64 (drop 12 header),
                                                Digest128 (get_u64 (drop 20 header)) (get_u64 trailer),
                                                payload),
                                          j\<lparr>fj_world := w7\<rparr>))"

definition fj_describe :: "FileJournal \<Rightarrow> string" where
  "fj_describe j =
     fj_journal_path j @ '' (bytes='' @ to_string_u64 (of_nat (fj_bytes j)) @ '' records='' @
     to_string_u64 (of_nat (fj_records j)) @ (if fj_torn j then '' torn=yes'' else '' torn=no'') @ '')''"

definition fj_close :: "FileJournal \<Rightarrow> Status \<times> FileJournal" where
  "fj_close j =
     (let j1 = (if fj_stream j
                then j\<lparr>fj_world := snd (durable_flush True (fj_world j)), fj_stream := False\<rparr> else j)
      in (success, j1\<lparr>fj_open := False, fj_replaying := False\<rparr>))"

definition file_ops :: "FileJournal journal_ops" where
  "file_ops =
     \<lparr>j_open = fj_open_call, j_append = fj_append, j_begin_replay = fj_begin_replay,
      j_next_record = fj_next_record, j_end_replay = fj_end_replay, j_rotate = fj_rotate,
      j_write_snapshot = fj_write_snapshot, j_read_snapshot = fj_read_snapshot,
      j_bytes = (\<lambda>j. of_nat (fj_bytes j)), j_records = (\<lambda>j. of_nat (fj_records j)),
      j_torn_tail = fj_torn, j_describe = fj_describe, j_close = fj_close\<rparr>"

end
