(* ===== verification/Window.thy ===== *)
theory Window
  imports Messages
begin

text \<open>
  The attempt window (\<open>CreditEngine::AttemptWindow\<close> of \<open>src/engine.cpp\<close>): the bounded memory of decided
  attempts that makes a retry a duplicate. The hash maps are finite maps; their iteration order is
  never observed. Locale \<open>replay_memory\<close> is the contract the engine relies on: what a lookup returns
  after an insertion, and how long an entry is remembered.
\<close>

subsection \<open>State and operations\<close>

datatype window_key = Key (key_incarnation: u64) (key_sequence: u64)

record WindowEntry =
  we_key :: window_key
  we_attempt :: AttemptId
  we_request :: Digest128
  we_status :: Status
  we_applied :: bool
  we_view :: CreditView

definition default_window_entry :: WindowEntry where
  "default_window_entry =
     \<lparr>we_key = Key 0 0, we_attempt = AttemptId zero_digest, we_request = zero_digest,
      we_status = success, we_applied = False, we_view = zero_view\<rparr>"

record AttemptWindow =
  aw_order :: "window_key list"
  aw_by_key :: "(window_key, WindowEntry) fmap"
  aw_by_attempt :: "(AttemptId, window_key) fmap"
  aw_limit :: nat

definition make_window :: "nat \<Rightarrow> AttemptWindow" where
  "make_window limit =
     \<lparr>aw_order = [], aw_by_key = fmempty, aw_by_attempt = fmempty,
      aw_limit = (if limit = 0 then 1 else limit)\<rparr>"

definition window_find :: "AttemptWindow \<Rightarrow> window_key \<Rightarrow> WindowEntry option" where
  "window_find w key = fmlookup (aw_by_key w) key"

definition window_find_by_attempt :: "AttemptWindow \<Rightarrow> AttemptId \<Rightarrow> WindowEntry option" where
  "window_find_by_attempt w a =
     (case fmlookup (aw_by_attempt w) a of None \<Rightarrow> None | Some key \<Rightarrow> window_find w key)"

text \<open>The eviction loop \<open>while (order_.size() > limit_)\<close> and its body.\<close>

definition window_pop :: "AttemptWindow \<Rightarrow> AttemptWindow" where
  "window_pop w =
     (case aw_order w of
        [] \<Rightarrow> w
      | oldest # rest \<Rightarrow>
          (case fmlookup (aw_by_key w) oldest of
             None \<Rightarrow> w\<lparr>aw_order := rest\<rparr>
           | Some e \<Rightarrow> w\<lparr>aw_order := rest, aw_by_attempt := fmdrop (we_attempt e) (aw_by_attempt w),
                         aw_by_key := fmdrop oldest (aw_by_key w)\<rparr>))"

lemma window_pop_order [simp]: "aw_order (window_pop w) = tl (aw_order w)"
  by (simp add: window_pop_def split: list.splits option.splits)

lemma window_pop_limit [simp]: "aw_limit (window_pop w) = aw_limit w"
  by (simp add: window_pop_def split: list.splits option.splits)

function window_evict :: "AttemptWindow \<Rightarrow> AttemptWindow" where
  "window_evict w = (if length (aw_order w) > aw_limit w then window_evict (window_pop w) else w)"
  by pat_completeness auto
termination
  by (relation "measure (\<lambda>w. length (aw_order w))") auto

declare window_evict.simps [simp del]

definition window_insert :: "WindowEntry \<Rightarrow> AttemptWindow \<Rightarrow> AttemptWindow" where
  "window_insert entry w =
     (let w1 = (case fmlookup (aw_by_key w) (we_key entry) of
                  None \<Rightarrow> w
                | Some previous \<Rightarrow>
                    w\<lparr>aw_by_attempt := fmdrop (we_attempt previous) (aw_by_attempt w)\<rparr>)
      in window_evict
           (w1\<lparr>aw_by_key := fmupd (we_key entry) entry (aw_by_key w1),
               aw_by_attempt := fmupd (we_attempt entry) (we_key entry) (aw_by_attempt w1),
               aw_order := aw_order w1 @ [we_key entry]\<rparr>))"

definition window_clear :: "AttemptWindow \<Rightarrow> AttemptWindow" where
  "window_clear w = w\<lparr>aw_order := [], aw_by_key := fmempty, aw_by_attempt := fmempty\<rparr>"

definition window_identities :: "AttemptWindow \<Rightarrow> (u64 \<times> u64) list" where
  "window_identities w = map (\<lambda>k. (key_incarnation k, key_sequence k)) (aw_order w)"

definition window_size :: "AttemptWindow \<Rightarrow> nat" where
  "window_size w = fcard (fmdom (aw_by_key w))"

subsection \<open>Invariant\<close>

definition window_indexed :: "AttemptWindow \<Rightarrow> bool" where
  "window_indexed w \<longleftrightarrow>
     (\<forall>k e. fmlookup (aw_by_key w) k = Some e \<longrightarrow> we_key e = k \<and> k \<in> set (aw_order w)) \<and>
     (\<forall>a k. fmlookup (aw_by_attempt w) a = Some k \<longrightarrow>
        (\<exists>e. fmlookup (aw_by_key w) k = Some e \<and> we_attempt e = a))"

definition window_inv :: "AttemptWindow \<Rightarrow> bool" where
  "window_inv w \<longleftrightarrow> window_indexed w \<and> distinct (aw_order w) \<and>
     length (aw_order w) \<le> aw_limit w \<and> 0 < aw_limit w"

lemma make_window_inv: "window_inv (make_window n)"
  by (simp add: window_inv_def window_indexed_def make_window_def)

lemma window_evict_limit [simp]: "aw_limit (window_evict w) = aw_limit w"
  by (induction w rule: window_evict.induct) (subst window_evict.simps, simp)

lemma window_evict_order: "aw_order (window_evict w) = drop (length (aw_order w) - aw_limit w) (aw_order w)"
proof (induction w rule: window_evict.induct)
  case (1 w)
  show ?case
  proof (cases "length (aw_order w) > aw_limit w")
    case True
    then have "length (aw_order w) - aw_limit w = Suc (length (tl (aw_order w)) - aw_limit w)" by simp
    then show ?thesis
      using True "1.IH" by (subst window_evict.simps) (simp add: drop_Suc)
  qed (subst window_evict.simps, simp)
qed

lemma window_pop_indexed:
  assumes w: "window_indexed w"
  shows "window_indexed (window_pop w)"
proof (cases "aw_order w")
  case (Cons k ks)
  show ?thesis
  proof (cases "fmlookup (aw_by_key w) k")
    case None
    then have "window_pop w = w\<lparr>aw_order := ks\<rparr>" by (simp add: window_pop_def Cons)
    then show ?thesis using w None Cons unfolding window_indexed_def by fastforce
  next
    case (Some e)
    then have "window_pop w = w\<lparr>aw_order := ks, aw_by_attempt := fmdrop (we_attempt e) (aw_by_attempt w),
        aw_by_key := fmdrop k (aw_by_key w)\<rparr>" by (simp add: window_pop_def Cons)
    then show ?thesis using w Some Cons unfolding window_indexed_def by (auto split: if_splits) fastforce
  qed
qed (simp add: window_pop_def w)

lemma window_evict_indexed: "window_indexed w \<Longrightarrow> window_indexed (window_evict w)"
  by (induction w rule: window_evict.induct)
     (subst window_evict.simps, simp add: window_pop_indexed)

text \<open>Keys that stay in the order keep their entries.\<close>

lemma window_pop_find:
  "distinct (aw_order w) \<Longrightarrow> k \<in> set (tl (aw_order w)) \<Longrightarrow> window_find (window_pop w) k = window_find w k"
  by (auto simp: window_pop_def window_find_def split: list.splits option.splits)

lemma window_evict_find:
  "distinct (aw_order w) \<Longrightarrow> k \<in> set (aw_order (window_evict w)) \<Longrightarrow>
     window_find (window_evict w) k = window_find w k"
proof (induction w rule: window_evict.induct)
  case (1 w)
  show ?case
  proof (cases "length (aw_order w) > aw_limit w")
    case True
    then have ev: "window_evict w = window_evict (window_pop w)" by (subst window_evict.simps) simp
    have "k \<in> set (tl (aw_order w))"
      using "1.prems"(2) unfolding ev window_evict_order by (simp add: in_set_dropD)
    then show ?thesis
      using "1.IH" [OF True] "1.prems" window_pop_find [of w k] by (simp add: ev distinct_tl)
  qed (subst window_evict.simps, simp)
qed

lemma window_insert_order:
  "aw_order (window_insert e w) =
     drop (Suc (length (aw_order w)) - aw_limit w) (aw_order w @ [we_key e])"
  by (simp add: window_insert_def Let_def window_evict_order split: option.splits)

lemma window_insert_limit [simp]: "aw_limit (window_insert e w) = aw_limit w"
  by (simp add: window_insert_def Let_def split: option.splits)

text \<open>The window before the eviction loop runs.\<close>

lemma window_insert_staged:
  assumes "window_indexed w"
  obtains v where "window_insert e w = window_evict v" "aw_order v = aw_order w @ [we_key e]"
    "aw_by_key v = fmupd (we_key e) e (aw_by_key w)" "window_indexed v" "aw_limit v = aw_limit w"
proof -
  define t where "t = (case fmlookup (aw_by_key w) (we_key e) of None \<Rightarrow> aw_by_attempt w
    | Some previous \<Rightarrow> fmdrop (we_attempt previous) (aw_by_attempt w))"
  define v where "v = w\<lparr>aw_by_key := fmupd (we_key e) e (aw_by_key w),
      aw_by_attempt := fmupd (we_attempt e) (we_key e) t, aw_order := aw_order w @ [we_key e]\<rparr>"
  have t: "fmlookup t a = Some k \<Longrightarrow> k \<noteq> we_key e \<and> fmlookup (aw_by_attempt w) a = Some k" for a k
    using assms unfolding t_def window_indexed_def by (auto split: option.splits if_splits) fastforce+
  have "window_indexed v"
    using assms unfolding window_indexed_def v_def by (auto split: if_splits dest!: t)
  moreover have "window_insert e w = window_evict v"
    by (simp add: window_insert_def Let_def v_def t_def split: option.splits)
  ultimately show thesis
    by (intro that [of v]) (simp_all add: v_def)
qed

lemma window_insert_inv:
  assumes "window_inv w" "we_key e \<notin> set (aw_order w)"
  shows "window_inv (window_insert e w)"
proof -
  obtain v where v: "window_insert e w = window_evict v" "aw_order v = aw_order w @ [we_key e]"
    "window_indexed v" "aw_limit v = aw_limit w"
    using window_insert_staged [of w e] assms(1) by (auto simp: window_inv_def)
  then show ?thesis
    using assms unfolding window_inv_def
    by (auto simp: window_evict_indexed window_evict_order dest: in_set_dropD)
qed

lemma window_insert_find:
  assumes "window_inv w" "we_key e \<notin> set (aw_order w)"
  shows "k \<in> set (aw_order (window_insert e w)) \<Longrightarrow>
           window_find (window_insert e w) k = (if k = we_key e then Some e else window_find w k)"
    and "window_find (window_insert e w) (we_key e) = Some e"
proof -
  obtain v where v: "window_insert e w = window_evict v" "aw_order v = aw_order w @ [we_key e]"
    "aw_by_key v = fmupd (we_key e) e (aw_by_key w)"
    using window_insert_staged [of w e] assms(1) by (auto simp: window_inv_def)
  have d: "distinct (aw_order v)" using assms v(2) by (simp add: window_inv_def)
  show "window_find (window_insert e w) k = (if k = we_key e then Some e else window_find w k)"
    if "k \<in> set (aw_order (window_insert e w))" for k
    using window_evict_find [OF d] that unfolding v(1)
    by (simp add: window_find_def v(3))
  moreover have "we_key e \<in> set (aw_order (window_insert e w))"
    using assms(1) unfolding window_insert_order window_inv_def by (simp add: drop_append Suc_diff_le)
  ultimately show "window_find (window_insert e w) (we_key e) = Some e" by simp
qed

lemma window_find_order: "window_inv w \<Longrightarrow> window_find w k = Some e \<Longrightarrow> k \<in> set (aw_order w) \<and> we_key e = k"
  by (auto simp: window_inv_def window_indexed_def window_find_def)

lemma window_find_by_attempt_sound:
  "window_inv w \<Longrightarrow> window_find_by_attempt w a = Some e \<Longrightarrow> we_attempt e = a \<and> window_find w (we_key e) = Some e"
  unfolding window_inv_def window_indexed_def window_find_by_attempt_def window_find_def
  by (auto split: option.splits) fastforce+

lemma window_size_bound: "window_inv w \<Longrightarrow> window_size w \<le> aw_limit w"
proof -
  assume w: "window_inv w"
  then have "fset (fmdom (aw_by_key w)) \<subseteq> set (aw_order w)"
    by (auto simp: window_inv_def window_indexed_def fmlookup_dom_iff)
  then have "card (fset (fmdom (aw_by_key w))) \<le> card (set (aw_order w))" by (intro card_mono) auto
  also have "\<dots> \<le> aw_limit w" using w card_length [of "aw_order w"] by (auto simp: window_inv_def)
  finally show ?thesis by (simp add: window_size_def fcard.rep_eq)
qed

subsection \<open>The contract: what the window remembers, and for how long\<close>

locale replay_memory =
  fixes lookup :: "'w \<Rightarrow> 'k \<Rightarrow> 'e option"
    and store :: "'e \<Rightarrow> 'w \<Rightarrow> 'w"
    and key_of :: "'e \<Rightarrow> 'k"
    and trail :: "'w \<Rightarrow> 'k list"
    and cap :: "'w \<Rightarrow> nat"
    and inv :: "'w \<Rightarrow> bool"
  assumes store_inv: "inv w \<Longrightarrow> key_of e \<notin> set (trail w) \<Longrightarrow> inv (store e w)"
    and store_trail: "trail (store e w) = drop (Suc (length (trail w)) - cap w) (trail w @ [key_of e])"
    and store_cap: "cap (store e w) = cap w"
    and lookup_new: "inv w \<Longrightarrow> key_of e \<notin> set (trail w) \<Longrightarrow> lookup (store e w) (key_of e) = Some e"
    and lookup_old:
      "inv w \<Longrightarrow> key_of e \<notin> set (trail w) \<Longrightarrow> k \<in> set (trail (store e w)) \<Longrightarrow> k \<noteq> key_of e \<Longrightarrow>
         lookup (store e w) k = lookup w k"
    and bounded: "inv w \<Longrightarrow> length (trail w) \<le> cap w \<and> 0 < cap w"
    and lookup_trail: "inv w \<Longrightarrow> lookup w k = Some e \<Longrightarrow> k \<in> set (trail w) \<and> key_of e = k"
begin

text \<open>An entry with \<open>m\<close> keys behind it survives while fewer than \<open>cap - m\<close> others arrive.\<close>

lemma remembered:
  assumes "inv w" "lookup w k = Some e" "trail w = us @ k # vs" "length vs + length es < cap w"
    "distinct (map key_of es)" "set (map key_of es) \<inter> set (trail w) = {}"
  shows "lookup (fold store es w) k = Some e \<and> inv (fold store es w)"
  using assms
proof (induction es arbitrary: w us vs)
  case (Cons x xs)
  let ?n = "Suc (length (trail w)) - cap w"
  have fresh: "key_of x \<notin> set (trail w)" using Cons.prems(6) by auto
  have n: "?n \<le> length us" using Cons.prems(3,4) bounded [OF Cons.prems(1)] by simp
  have trail': "trail (store x w) = drop ?n us @ k # vs @ [key_of x]"
    using n by (simp add: store_trail Cons.prems(3))
  have sub: "set (trail (store x w)) \<subseteq> set (trail w) \<union> {key_of x}"
    unfolding store_trail by (auto dest: in_set_dropD)
  have "lookup (store x w) k = Some e"
    using lookup_old [OF Cons.prems(1) fresh, of k] Cons.prems(2,3) fresh by (auto simp: trail')
  moreover have "set (map key_of xs) \<inter> set (trail (store x w)) = {}"
  proof -
    have "key_of x \<notin> set (map key_of xs)" "set (map key_of xs) \<inter> set (trail w) = {}"
      using Cons.prems(5,6) by auto
    with sub show ?thesis by blast
  qed
  ultimately show ?case
    using Cons.IH [of "store x w" "drop ?n us" "vs @ [key_of x]"] store_inv [OF Cons.prems(1) fresh]
      Cons.prems(4,5) trail'
    by (simp add: store_cap)
qed simp

lemma fresh_remembered:
  assumes "inv w" "distinct (map key_of (e # es))" "set (map key_of (e # es)) \<inter> set (trail w) = {}"
    "length es < cap w"
  shows "lookup (fold store es (store e w)) (key_of e) = Some e"
proof -
  have fresh: "key_of e \<notin> set (trail w)" using assms(3) by auto
  have n: "Suc (length (trail w)) - cap w \<le> length (trail w)" using bounded [OF assms(1)] by linarith
  have t: "trail (store e w) = drop (Suc (length (trail w)) - cap w) (trail w) @ [key_of e]"
    using n by (simp add: store_trail)
  then have "set (map key_of es) \<inter> set (trail (store e w)) = {}"
    using assms(2,3) by (auto dest: in_set_dropD)
  then show ?thesis
    using remembered [of "store e w" "key_of e" e _ "[]" es] store_inv [OF assms(1) fresh]
      lookup_new [OF assms(1) fresh] t assms(2,4) by (simp add: store_cap)
qed

end

interpretation window: replay_memory window_find window_insert we_key aw_order aw_limit window_inv
proof unfold_locales
  show "window_inv w \<Longrightarrow> length (aw_order w) \<le> aw_limit w \<and> 0 < aw_limit w" for w
    by (simp add: window_inv_def)
qed (simp_all add: window_insert_inv window_insert_order window_insert_find window_find_order)

text \<open>C33: the attempt window remembers: starting from any well-formed window, an inserted entry is
  found under its key, unchanged, after any further insertions of fewer than \<open>limit\<close> attempts with
  new identities, and the window never holds more than \<open>limit\<close> entries.\<close>

theorem window_remembers_recent_attempts:
  assumes "window_inv w" "distinct (map we_key (e # es))" "set (map we_key (e # es)) \<inter> set (aw_order w) = {}"
    "length es < aw_limit w"
  shows "window_find (fold window_insert es (window_insert e w)) (we_key e) = Some e \<and>
         window_size (window_insert e w) \<le> aw_limit w"
  using window.fresh_remembered [OF assms] window_size_bound [OF window_insert_inv [OF assms(1), of e]] assms(3)
  by simp

theorem window_remembers_recent_attempts_witness:
  "let e = default_window_entry\<lparr>we_key := Key 5 1\<rparr>; f = default_window_entry\<lparr>we_key := Key 5 2\<rparr>
   in window_find (window_insert f (window_insert e (make_window 2))) (Key 5 1) = Some e"
  using window_remembers_recent_attempts [OF make_window_inv [of 2],
      of "default_window_entry\<lparr>we_key := Key 5 1\<rparr>" "[default_window_entry\<lparr>we_key := Key 5 2\<rparr>]"]
  by (simp add: make_window_def)

end
