(* ===== verification/Account.thy ===== *)
theory Account
  imports Journal Window
begin

text \<open>
  One credit account of the engine (\<open>CreditEngine::AccountState\<close> and the functions of
  \<open>src/engine.cpp\<close> that read or write a single account): its digest, the constant-space backup, the
  publication of a decided attempt, the refusal log, and the transitions a data or control
  operation makes, live and on replay. Hash maps are finite maps; where the source iterates one
  without sorting, the model takes ascending key order.
\<close>

subsection \<open>State\<close>

record AccountState =
  as_config :: AccountConfig
  as_domain :: DomainId
  as_account :: AccountId
  as_epoch :: EpochId
  as_generation :: Generation
  as_capacity :: u64
  as_totals :: CreditTotals
  as_hard_exhausted :: bool
  as_exhaustion_cause :: Reason
  as_window :: AttemptWindow
  as_incarnations :: "(u64, IncarnationRecord) fmap"
  as_fences :: "FenceRecord list"
  as_ambiguous :: "AmbiguousNote list"
  as_refusals :: "RefusalNote list"
  as_refusal_cursor :: nat
  as_committed_attempts :: u64
  as_refused_attempts :: u64

definition make_account :: "nat \<Rightarrow> AccountState" where
  "make_account window_limit =
     \<lparr>as_config = default_config, as_domain = unset_id, as_account = unset_id, as_epoch = StrongId 1,
      as_generation = StrongId 1, as_capacity = 0, as_totals = zero_totals,
      as_hard_exhausted = False, as_exhaustion_cause = Ok, as_window = make_window window_limit,
      as_incarnations = fmempty, as_fences = [], as_ambiguous = [], as_refusals = [],
      as_refusal_cursor = 0, as_committed_attempts = 0, as_refused_attempts = 0\<rparr>"

definition account_view :: "AccountState \<Rightarrow> CreditView" where
  "account_view a = compute_view (as_capacity a) (as_totals a)"

definition find_incarnation :: "AccountState \<Rightarrow> IncarnationId \<Rightarrow> IncarnationRecord option" where
  "find_incarnation a i = fmlookup (as_incarnations a) (id_value i)"

definition is_fenced :: "AccountState \<Rightarrow> IncarnationId \<Rightarrow> bool" where
  "is_fenced a i \<longleftrightarrow> list_ex (\<lambda>f. fr_incarnation f = i) (as_fences a)"

text \<open>\<open>account.incarnations[id] = record\<close>, and a write through a found pointer (nothing when the
  pointer is null).\<close>

definition set_incarnation :: "u64 \<Rightarrow> IncarnationRecord \<Rightarrow> AccountState \<Rightarrow> AccountState" where
  "set_incarnation k r a = a\<lparr>as_incarnations := fmupd k r (as_incarnations a)\<rparr>"

definition update_incarnation ::
  "IncarnationId \<Rightarrow> (IncarnationRecord \<Rightarrow> IncarnationRecord) \<Rightarrow> AccountState \<Rightarrow> AccountState" where
  "update_incarnation i f a =
     (case find_incarnation a i of None \<Rightarrow> a | Some r \<Rightarrow> set_incarnation (id_value i) (f r) a)"

definition sorted_keys :: "(u64, 'v) fmap \<Rightarrow> u64 list" where
  "sorted_keys m = sorted_list_of_fset (fmdom m)"

definition fence_items :: "FenceRecord \<Rightarrow> digest_item list" where
  "fence_items f =
     [DU64 (id_value (fr_incarnation f)), DU64 (id_value (fr_epoch f)),
      DU64 (id_value (fr_generation f)), DU64 (of_nat (reason_value (fr_cause f))),
      DU64 (fr_sequence f), DU64 (fr_fenced_credit f)]"

definition incarnation_items :: "IncarnationRecord \<Rightarrow> digest_item list" where
  "incarnation_items r =
     [DU64 (id_value (ir_id r)), DU64 (id_value (ir_publisher r)), DU64 (id_value (ir_boot r)),
      DU64 (of_nat (authority_state_value (ir_state r))), DU64 (id_value (ir_reconciled_epoch r)),
      DU64 (id_value (ir_reconciled_generation r)), DU64 (id_value (ir_producer r)),
      DU64 (id_value (ir_consumer r)), DU64 (id_value (ir_grant r)), DU64 (ir_last_sequence r),
      DU64 (ir_committed_ops r), DU64 (ir_refused_ops r)]"

definition account_digest :: "AccountState \<Rightarrow> Digest128" where
  "account_digest a =
     digest_of (Digest128 0x51ED270B5A3D8F11 0x118F3D5A0B27ED51)
       ([DDigest (config_digest (as_config a)), DU64 (id_value (as_epoch a)),
         DU64 (id_value (as_generation a)), DU64 (as_capacity a), DU64 (issued (as_totals a)),
         DU64 (consumed (as_totals a)), DU64 (returned (as_totals a)), DU64 (stale (as_totals a)),
         DU64 (protected_credits (as_totals a)), DBool (as_hard_exhausted a),
         DU64 (of_nat (reason_value (as_exhaustion_cause a))), DU64 (as_committed_attempts a),
         DU64 (as_refused_attempts a), DU64 (of_nat (length (as_fences a)))] @
        concat (map fence_items (as_fences a)) @
        [DU64 (of_nat (length (sorted_keys (as_incarnations a))))] @
        concat (map (\<lambda>k. incarnation_items (the (fmlookup (as_incarnations a) k)))
                    (sorted_keys (as_incarnations a))))"

subsection \<open>Backup\<close>

record AccountBackup =
  bk_totals :: CreditTotals
  bk_capacity :: u64
  bk_hard_exhausted :: bool
  bk_exhaustion_cause :: Reason
  bk_epoch :: EpochId
  bk_generation :: Generation
  bk_committed_attempts :: u64
  bk_refused_attempts :: u64
  bk_fence_count :: nat
  bk_caller :: "IncarnationRecord option"
  bk_target :: "IncarnationRecord option"

text \<open>The flag and record pairs \<open>caller_existed\<close>/\<open>caller\<close> and \<open>target_existed\<close>/\<open>target\<close> are options.\<close>

definition capture_backup :: "AccountState \<Rightarrow> IncarnationId \<Rightarrow> IncarnationId \<Rightarrow> AccountBackup" where
  "capture_backup a caller subject =
     \<lparr>bk_totals = as_totals a, bk_capacity = as_capacity a, bk_hard_exhausted = as_hard_exhausted a,
      bk_exhaustion_cause = as_exhaustion_cause a, bk_epoch = as_epoch a,
      bk_generation = as_generation a, bk_committed_attempts = as_committed_attempts a,
      bk_refused_attempts = as_refused_attempts a, bk_fence_count = length (as_fences a),
      bk_caller = find_incarnation a caller,
      bk_target = (if is_set subject \<and> subject \<noteq> caller then find_incarnation a subject
                   else find_incarnation a caller)\<rparr>"

text \<open>\<open>account.fences.resize(count)\<close> only ever shrinks the list back.\<close>

definition put_back :: "IncarnationId \<Rightarrow> IncarnationRecord option \<Rightarrow> AccountState \<Rightarrow> AccountState" where
  "put_back i r a =
     (case r of
        Some rec \<Rightarrow> a\<lparr>as_incarnations := fmupd (id_value i) rec (as_incarnations a)\<rparr>
      | None \<Rightarrow> a\<lparr>as_incarnations := fmdrop (id_value i) (as_incarnations a)\<rparr>)"

definition restore_backup ::
  "AccountBackup \<Rightarrow> IncarnationId \<Rightarrow> IncarnationId \<Rightarrow> AccountState \<Rightarrow> AccountState" where
  "restore_backup b caller subject a =
     (let a1 = a\<lparr>as_totals := bk_totals b, as_capacity := bk_capacity b,
                 as_hard_exhausted := bk_hard_exhausted b,
                 as_exhaustion_cause := bk_exhaustion_cause b, as_epoch := bk_epoch b,
                 as_generation := bk_generation b, as_committed_attempts := bk_committed_attempts b,
                 as_refused_attempts := bk_refused_attempts b,
                 as_fences := take (bk_fence_count b) (as_fences a)\<rparr>;
          a2 = put_back caller (bk_caller b) a1
      in if is_set subject \<and> subject \<noteq> caller then put_back subject (bk_target b) a2 else a2)"

subsection \<open>Window publication, ambiguity and the refusal log\<close>

definition resolve_ambiguous :: "IncarnationId \<Rightarrow> u64 \<Rightarrow> AccountState \<Rightarrow> AccountState" where
  "resolve_ambiguous i sequence a =
     a\<lparr>as_ambiguous := filter (\<lambda>n. \<not> (am_incarnation n = i \<and> am_sequence n = sequence)) (as_ambiguous a)\<rparr>"

definition publish_window :: "CreditRequest \<Rightarrow> CreditOutcome \<Rightarrow> AccountState \<Rightarrow> AccountState" where
  "publish_window request outcome a =
     (let i = av_incarnation (req_authority request);
          entry = \<lparr>we_key = Key (id_value i) (req_sequence request),
                   we_attempt = req_attempt request, we_request = request_digest request,
                   we_status = out_status outcome, we_applied = out_applied outcome,
                   we_view = out_view outcome\<rparr>;
          a1 = a\<lparr>as_window := window_insert entry (as_window a)\<rparr>;
          a2 = update_incarnation i (\<lambda>r. r\<lparr>ir_last_sequence := req_sequence request\<rparr>) a1
      in resolve_ambiguous i (req_sequence request) a2)"

definition record_refusal :: "nat \<Rightarrow> CreditRequest \<Rightarrow> CreditOutcome \<Rightarrow> AccountState \<Rightarrow> AccountState" where
  "record_refusal max_log request outcome a =
     (let note = \<lparr>rn_attempt = req_attempt request, rn_op = req_op request,
                  rn_sequence = req_sequence request,
                  rn_incarnation = av_incarnation (req_authority request),
                  rn_reason = reason (out_status outcome), rn_detail = detail (out_status outcome),
                  rn_epoch = as_epoch a, rn_generation = as_generation a\<rparr>
      in if length (as_refusals a) < max_log then a\<lparr>as_refusals := as_refusals a @ [note]\<rparr>
         else a\<lparr>as_refusals := (as_refusals a)[as_refusal_cursor a mod max_log := note],
                as_refusal_cursor := (as_refusal_cursor a + 1) mod max_log\<rparr>)"

subsection \<open>Transitions\<close>

definition ledger_apply :: "AccountState \<Rightarrow> CreditRequest \<Rightarrow> LedgerPlan \<Rightarrow> Status \<times> LedgerPlan" where
  "ledger_apply a request p =
     (let verdict = (\<lambda>(ok, p'). (if ok then success else p_status p', p')) in
      case req_op request of
        Issue \<Rightarrow> verdict (plan_issue (req_count request) (min_issue (cfg_rules (as_config a)))
                            (max_issue_per_attempt (cfg_rules (as_config a))) p)
      | Consume \<Rightarrow> verdict (plan_consume (req_count request) p)
      | Return \<Rightarrow>
          if \<not> allow_return (cfg_rules (as_config a)) then (refused PolicyRefused 2, p)
          else verdict (plan_give_back (req_count request) p)
      | Protect \<Rightarrow> verdict (plan_protect (req_count request) (allow_protect (cfg_rules (as_config a))) p)
      | Unprotect \<Rightarrow> verdict (plan_unprotect (req_count request) p)
      | _ \<Rightarrow> (refused InvalidState 10, p))"

text \<open>The first issue of an incarnation binds its producer, consumer and grant; the three checks run
  in sequence, and what an earlier one wrote stays when a later one refuses.\<close>

definition bind_issue :: "CreditRequest \<Rightarrow> IncarnationRecord \<Rightarrow> (Reason \<times> u64) option \<times> IncarnationRecord" where
  "bind_issue request r0 =
     (if is_set (req_producer request) \<and> is_set (ir_producer r0) \<and> ir_producer r0 \<noteq> req_producer request
      then (Some (ProducerMismatch, id_value (ir_producer r0)), r0)
      else
        let r1 = (if is_set (req_producer request) then r0\<lparr>ir_producer := req_producer request\<rparr> else r0) in
        if is_set (req_consumer request) \<and> is_set (ir_consumer r1) \<and> ir_consumer r1 \<noteq> req_consumer request
        then (Some (ConsumerMismatch, id_value (ir_consumer r1)), r1)
        else
          let r2 = (if is_set (req_consumer request) then r1\<lparr>ir_consumer := req_consumer request\<rparr> else r1) in
          if is_set (req_grant request) \<and> is_set (ir_grant r2) \<and> ir_grant r2 \<noteq> req_grant request
          then (Some (GrantMismatch, id_value (ir_grant r2)), r2)
          else (None, if is_set (req_grant request) then r2\<lparr>ir_grant := req_grant request\<rparr> else r2))"

definition demote :: "IncarnationRecord \<Rightarrow> IncarnationRecord" where
  "demote r = (if ir_state r = Reconciled then r\<lparr>ir_state := Unknown\<rparr> else r)"

definition demote_all :: "AccountState \<Rightarrow> AccountState" where
  "demote_all a = a\<lparr>as_incarnations := fmmap demote (as_incarnations a)\<rparr>"

definition reconcile_incarnation :: "CreditRequest \<Rightarrow> AccountState \<Rightarrow> AccountState" where
  "reconcile_incarnation request a =
     (let i = av_incarnation (req_authority request);
          fresh = default_incarnation_record
            \<lparr>ir_id := i, ir_publisher := inc_publisher (req_presenter request),
             ir_boot := inc_boot (req_presenter request)\<rparr>;
          a1 = (case find_incarnation a i of
                  None \<Rightarrow> set_incarnation (id_value i) fresh a | Some _ \<Rightarrow> a)
      in update_incarnation i
           (\<lambda>r. r\<lparr>ir_state := Reconciled, ir_reconciled_epoch := as_epoch a,
                  ir_reconciled_generation := as_generation a,
                  ir_reconciliation_proof := req_proof request\<rparr>) a1)"

text \<open>Writing a fence: the target's record becomes \<open>Fenced\<close> and a \<open>FenceRecord\<close> is appended.\<close>

definition fence_target :: "CreditRequest \<Rightarrow> AccountState \<Rightarrow> AccountState" where
  "fence_target request a =
     (let before = account_view a;
          fence = \<lparr>fr_incarnation = req_target request, fr_epoch = as_epoch a,
                   fr_generation = as_generation a, fr_cause = req_fence_cause request,
                   fr_sequence = req_sequence request,
                   fr_fenced_credit = v_in_flight before - v_stale before\<rparr>;
          a1 = update_incarnation (req_target request)
                 (\<lambda>r. r\<lparr>ir_state := Fenced, ir_fenced_at_sequence := req_sequence request\<rparr>) a
      in a1\<lparr>as_fences := as_fences a1 @ [fence]\<rparr>)"

text \<open>What the \<open>switch\<close> of \<open>decide_control_locked\<close> does to the account: return \<open>refused\<close> (with the account
  as it is then), go through \<open>finish_decided\<close> with a refusal, or fall through to the commit.\<close>

datatype control_step =
    CtlRefused Reason u64 AccountState
  | CtlDecided Reason u64
  | CtlApplied AccountState

definition ctl_plan :: "(bool \<times> LedgerPlan) \<Rightarrow> (LedgerPlan \<Rightarrow> AccountState) \<Rightarrow> control_step" where
  "ctl_plan r f =
     (case r of
        (True, p) \<Rightarrow> CtlApplied (f p)
      | (False, p) \<Rightarrow> CtlDecided (reason (p_status p)) (detail (p_status p)))"

definition control_advance :: "CreditRequest \<Rightarrow> AccountState \<Rightarrow> control_step" where
  "control_advance request a =
     (let epoch = id_value (as_epoch a); generation = id_value (as_generation a);
          (epoch_over, bumped) = add_overflow epoch 1;
          next_epoch = (if req_op request = Rotate then req_count request else bumped);
          (generation_over, next_generation) = add_overflow generation 1
      in if req_op request = Rotate \<and> next_epoch \<le> epoch then CtlRefused InvalidState epoch a
         else if req_op request \<noteq> Rotate \<and> epoch_over then CtlRefused CountOverflow epoch a
         else if generation_over then CtlRefused CountOverflow generation a
         else
           case plan_quarantine_in_flight (make_plan (as_capacity a) (as_totals a)) of
             (False, p) \<Rightarrow> CtlRefused (reason (p_status p)) (detail (p_status p)) a
           | (True, p) \<Rightarrow>
               CtlApplied (demote_all (a\<lparr>as_totals := p_totals p, as_epoch := StrongId next_epoch,
                                          as_generation := StrongId next_generation\<rparr>)))"

definition control_fence :: "EngineLimits \<Rightarrow> CreditRequest \<Rightarrow> AccountState \<Rightarrow> control_step" where
  "control_fence limits request a =
     (if \<not> is_set (req_target request) then CtlRefused MalformedMessage 5 a
      else if req_fence_cause request = Ok then CtlRefused PolicyRefused 5 a
      else if is_fenced a (req_target request) then CtlDecided InvalidState 1
      else if find_incarnation a (req_target request) = None \<and>
              fcard (fmdom (as_incarnations a)) \<ge> max_incarnations_per_account limits
      then CtlRefused BudgetExceeded (of_nat (fcard (fmdom (as_incarnations a)))) a
      else
        let a1 = (case find_incarnation a (req_target request) of
                    None \<Rightarrow> set_incarnation (id_value (req_target request))
                              (default_incarnation_record\<lparr>ir_id := req_target request\<rparr>) a
                  | Some _ \<Rightarrow> a)
        in if length (as_fences a1) \<ge> max_fences_per_account limits
           then CtlRefused BudgetExceeded (of_nat (length (as_fences a1))) a1
           else CtlApplied (fence_target request a1))"

definition control_retire_incarnation :: "CreditRequest \<Rightarrow> AccountState \<Rightarrow> control_step" where
  "control_retire_incarnation request a =
     (if \<not> is_set (req_target request) then CtlRefused MalformedMessage 6 a
      else case find_incarnation a (req_target request) of
        None \<Rightarrow> CtlRefused UnknownIncarnation 2 a
      | Some r \<Rightarrow>
          if ir_state r = Fenced then CtlDecided FencedIncarnation 1
          else CtlApplied (set_incarnation (id_value (req_target request)) (r\<lparr>ir_state := Retired\<rparr>) a))"

definition control_transition :: "EngineLimits \<Rightarrow> CreditRequest \<Rightarrow> AccountState \<Rightarrow> control_step" where
  "control_transition limits request a =
     (let plan = make_plan (as_capacity a) (as_totals a) in
      case req_op request of
        Exhaust \<Rightarrow>
          if as_hard_exhausted a then CtlDecided ExhaustedHard 1
          else if req_fence_cause request = Ok then CtlRefused PolicyRefused 3 a
          else CtlApplied (a\<lparr>as_hard_exhausted := True, as_exhaustion_cause := req_fence_cause request\<rparr>)
      | ClearExhaustion \<Rightarrow>
          if \<not> as_hard_exhausted a then CtlDecided NotExhausted 1
          else CtlApplied (a\<lparr>as_hard_exhausted := False, as_exhaustion_cause := Ok\<rparr>)
      | SetCapacity \<Rightarrow>
          ctl_plan (plan_set_capacity (req_new_capacity request) (cfg_max_capacity (as_config a))
                      (allow_capacity_growth (cfg_rules (as_config a))) plan)
                   (\<lambda>p. a\<lparr>as_capacity := p_capacity p\<rparr>)
      | AdvanceEpoch \<Rightarrow> control_advance request a
      | Rotate \<Rightarrow> control_advance request a
      | Retire \<Rightarrow> ctl_plan (plan_retire_stale (req_count request) plan) (\<lambda>p. a\<lparr>as_totals := p_totals p\<rparr>)
      | Revalidate \<Rightarrow>
          if req_decision request = NoDecision then CtlRefused PolicyRefused 4 a
          else ctl_plan
                 (if req_decision request = ToReturned
                  then plan_revalidate_to_returned (req_count request) plan
                  else plan_revalidate_to_consumed (req_count request) plan)
                 (\<lambda>p. a\<lparr>as_totals := p_totals p\<rparr>)
      | Fence \<Rightarrow> control_fence limits request a
      | RetireIncarnation \<Rightarrow> control_retire_incarnation request a
      | _ \<Rightarrow> CtlRefused Unsupported (of_nat (op_value (req_op request))) a)"

subsection \<open>Replay of a committed transition\<close>

definition replay_plan :: "(bool \<times> LedgerPlan) \<Rightarrow> u64 \<Rightarrow> (LedgerPlan \<Rightarrow> AccountState) \<Rightarrow> AccountState \<Rightarrow> Status \<times> AccountState" where
  "replay_plan r code f a =
     (case r of (True, p) \<Rightarrow> (success, f p) | (False, p) \<Rightarrow> (refused JournalDigestMismatch code, a))"

definition replay_advance :: "CreditRequest \<Rightarrow> AccountState \<Rightarrow> Status \<times> AccountState" where
  "replay_advance request a =
     (let next_epoch = (if req_op request = Rotate then req_count request else id_value (as_epoch a) + 1)
      in case plan_quarantine_in_flight (make_plan (as_capacity a) (as_totals a)) of
           (False, p) \<Rightarrow> (refused JournalDigestMismatch 142, a)
         | (True, p) \<Rightarrow>
             (success,
              demote_all (a\<lparr>as_totals := p_totals p, as_epoch := StrongId next_epoch,
                             as_generation := StrongId (id_value (as_generation a) + 1)\<rparr>)))"

definition apply_replay_transition :: "CreditRequest \<Rightarrow> AccountState \<Rightarrow> Status \<times> AccountState" where
  "apply_replay_transition request a =
     (let plan = make_plan (as_capacity a) (as_totals a) in
      case req_op request of
        Open \<Rightarrow> (success, a)
      | Reconcile \<Rightarrow> (success, a)
      | Fence \<Rightarrow> (success, a)
      | RetireIncarnation \<Rightarrow> (success, a)
      | Describe \<Rightarrow> (success, a)
      | Exhaust \<Rightarrow>
          (success, a\<lparr>as_hard_exhausted := True, as_exhaustion_cause := req_fence_cause request\<rparr>)
      | ClearExhaustion \<Rightarrow> (success, a\<lparr>as_hard_exhausted := False, as_exhaustion_cause := Ok\<rparr>)
      | SetCapacity \<Rightarrow>
          replay_plan (plan_set_capacity (req_new_capacity request) (cfg_max_capacity (as_config a))
                         (allow_capacity_growth (cfg_rules (as_config a))) plan) 141
                      (\<lambda>p. a\<lparr>as_capacity := p_capacity p\<rparr>) a
      | AdvanceEpoch \<Rightarrow> replay_advance request a
      | Rotate \<Rightarrow> replay_advance request a
      | Retire \<Rightarrow>
          replay_plan (plan_retire_stale (req_count request) plan) 143 (\<lambda>p. a\<lparr>as_totals := p_totals p\<rparr>) a
      | Revalidate \<Rightarrow>
          replay_plan (if req_decision request = ToReturned
                       then plan_revalidate_to_returned (req_count request) plan
                       else plan_revalidate_to_consumed (req_count request) plan) 144
                      (\<lambda>p. a\<lparr>as_totals := p_totals p\<rparr>) a
      | _ \<Rightarrow>
          (case ledger_apply a request plan of
             (s, p) \<Rightarrow> if \<not> status_ok s then (refused JournalDigestMismatch 140, a)
                       else (success, a\<lparr>as_totals := p_totals p\<rparr>)))"

text \<open>The per-operation part of \<open>replay_attempt\<close> for an applied attempt on an existing account.\<close>

definition replay_subject :: "CreditRequest \<Rightarrow> AccountState \<Rightarrow> Status \<times> AccountState" where
  "replay_subject request a =
     (case req_op request of
        Reconcile \<Rightarrow> (success, reconcile_incarnation request a)
      | Fence \<Rightarrow>
          (success,
           fence_target request
             (case find_incarnation a (req_target request) of
                None \<Rightarrow> set_incarnation (id_value (req_target request))
                          (default_incarnation_record\<lparr>ir_id := req_target request\<rparr>) a
              | Some _ \<Rightarrow> a))
      | RetireIncarnation \<Rightarrow>
          (case find_incarnation a (req_target request) of
             None \<Rightarrow> (refused JournalCorrupt 134, a)
           | Some r \<Rightarrow>
               (success, set_incarnation (id_value (req_target request)) (r\<lparr>ir_state := Retired\<rparr>) a))
      | Issue \<Rightarrow>
          (case find_incarnation a (av_incarnation (req_authority request)) of
             None \<Rightarrow> (refused JournalCorrupt 141, a)
           | Some r \<Rightarrow>
               let r1 = (if is_set (req_producer request) then r\<lparr>ir_producer := req_producer request\<rparr> else r);
                   r2 = (if is_set (req_consumer request) then r1\<lparr>ir_consumer := req_consumer request\<rparr> else r1);
                   r3 = (if is_set (req_grant request) then r2\<lparr>ir_grant := req_grant request\<rparr> else r2)
               in (success, set_incarnation (id_value (av_incarnation (req_authority request))) r3 a))
      | _ \<Rightarrow> (success, a))"

definition count_committed :: "CreditRequest \<Rightarrow> AccountState \<Rightarrow> AccountState" where
  "count_committed request a =
     update_incarnation (av_incarnation (req_authority request))
       (\<lambda>r. r\<lparr>ir_committed_ops := ir_committed_ops r + 1\<rparr>)
       (a\<lparr>as_committed_attempts := as_committed_attempts a + 1\<rparr>)"

definition count_refused :: "CreditRequest \<Rightarrow> AccountState \<Rightarrow> AccountState" where
  "count_refused request a =
     update_incarnation (av_incarnation (req_authority request))
       (\<lambda>r. r\<lparr>ir_refused_ops := ir_refused_ops r + 1\<rparr>)
       (a\<lparr>as_refused_attempts := as_refused_attempts a + 1\<rparr>)"

text \<open>A freshly opened account, live (\<open>create_account_locked\<close>) and on replay.\<close>

definition opener_record :: "CreditRequest \<Rightarrow> AccountState \<Rightarrow> IncarnationRecord" where
  "opener_record request a =
     default_incarnation_record
       \<lparr>ir_id := av_incarnation (req_authority request),
        ir_publisher := inc_publisher (req_presenter request),
        ir_boot := inc_boot (req_presenter request), ir_state := Reconciled,
        ir_reconciled_epoch := as_epoch a, ir_reconciled_generation := as_generation a,
        ir_reconciliation_proof := req_proof request, ir_committed_ops := 1\<rparr>"

definition open_account :: "nat \<Rightarrow> CreditRequest \<Rightarrow> AccountState" where
  "open_account window_limit request =
     (let config = req_config request;
          a = (make_account window_limit)
                \<lparr>as_config := config, as_domain := cfg_domain config, as_account := cfg_account config,
                 as_epoch := av_epoch (req_authority request),
                 as_generation := av_generation (req_authority request),
                 as_capacity := cfg_capacity config, as_totals := zero_totals,
                 as_hard_exhausted := False, as_exhaustion_cause := Ok\<rparr>
      in set_incarnation (id_value (av_incarnation (req_authority request))) (opener_record request a)
           (a\<lparr>as_committed_attempts := 1\<rparr>))"

definition replay_open :: "nat \<Rightarrow> DurableAttempt \<Rightarrow> AccountState" where
  "replay_open window_limit t =
     (let d = dt_account t; request = dt_request t;
          a = (make_account window_limit)
                \<lparr>as_config := da_config d, as_domain := cfg_domain (da_config d),
                 as_account := cfg_account (da_config d), as_epoch := da_epoch d,
                 as_generation := da_generation d, as_capacity := da_capacity d,
                 as_totals := da_totals d, as_hard_exhausted := da_hard_exhausted d,
                 as_exhaustion_cause := da_exhaustion_cause d\<rparr>
      in set_incarnation (id_value (av_incarnation (req_authority request))) (opener_record request a)
           (a\<lparr>as_committed_attempts := 1\<rparr>))"

subsection \<open>Durable form of an account\<close>

definition build_durable_account :: "AccountState \<Rightarrow> bool \<Rightarrow> DurableAccount" where
  "build_durable_account a whole =
     (let durable =
        \<lparr>da_config = as_config a, da_epoch = as_epoch a, da_generation = as_generation a,
         da_capacity = as_capacity a, da_totals = as_totals a,
         da_hard_exhausted = as_hard_exhausted a, da_exhaustion_cause = as_exhaustion_cause a,
         da_state_digest = account_digest a, da_incarnations = [], da_fences = [],
         da_ambiguous = [], da_committed_attempts = as_committed_attempts a,
         da_refused_attempts = as_refused_attempts a, da_attempt_window = []\<rparr>
      in if \<not> whole then durable
         else durable
           \<lparr>da_incarnations :=
              map (\<lambda>k. the (fmlookup (as_incarnations a) k)) (sorted_keys (as_incarnations a)),
            da_fences := as_fences a, da_ambiguous := as_ambiguous a,
            da_attempt_window := window_identities (as_window a)\<rparr>)"

definition restored_entry :: "u64 \<times> u64 \<Rightarrow> WindowEntry" where
  "restored_entry p =
     default_window_entry\<lparr>we_key := Key (fst p) (snd p), we_status := refused AttemptUnknown 0\<rparr>"

definition restore_account :: "nat \<Rightarrow> DurableAccount \<Rightarrow> AccountState" where
  "restore_account window_limit d =
     (make_account window_limit)
       \<lparr>as_config := da_config d, as_domain := cfg_domain (da_config d),
        as_account := cfg_account (da_config d), as_epoch := da_epoch d,
        as_generation := da_generation d, as_capacity := da_capacity d, as_totals := da_totals d,
        as_hard_exhausted := da_hard_exhausted d, as_exhaustion_cause := da_exhaustion_cause d,
        as_committed_attempts := da_committed_attempts d,
        as_refused_attempts := da_refused_attempts d, as_fences := da_fences d,
        as_ambiguous := da_ambiguous d,
        as_incarnations := fold (\<lambda>r. fmupd (id_value (ir_id r)) r) (da_incarnations d) fmempty,
        as_window := fold (\<lambda>p. window_insert (restored_entry p)) (da_attempt_window d)
                       (make_window window_limit)\<rparr>"

end
