(* ===== verification/Engine.thy ===== *)
theory Engine
  imports Account
begin

text \<open>
  The credit engine (\<open>CreditEngine\<close> of \<open>include/creditfabric/engine.hpp\<close> and \<open>src/engine.cpp\<close>): live
  decisions, durability, and the read-only projections. Every public call runs under one mutex, so
  a call is a function from engine state to result and engine state, and a concurrent run is a
  sequence of calls. The journal is the record of its virtual operations and its state; the
  operating system's randomness is the challenge nonce the engine is built with. References into
  \<open>accounts_\<close> become a key and an account value that is written back with \<open>put_account\<close> before the
  journal is called, since a snapshot reads all accounts.
\<close>

subsection \<open>State\<close>

record 'j engine =
  e_limits :: EngineLimits
  e_journal :: "'j option"
  e_operator :: Incarnation
  e_challenge :: Digest128
  e_accounts :: "(u64, AccountState) fmap"
  e_next_sequence :: u64
  e_chain :: Digest128
  e_journal_records :: u64
  e_snapshots :: u64
  e_stats :: EngineStats
  e_recovered :: bool
  e_journal_failed :: bool

definition at_least :: "nat \<Rightarrow> nat \<Rightarrow> nat" where
  "at_least d n = (if n = 0 then d else n)"

definition clamp_limits :: "EngineLimits \<Rightarrow> EngineLimits" where
  "clamp_limits l =
     l\<lparr>max_accounts := at_least 1 (max_accounts l),
       max_attempt_window := at_least 1 (max_attempt_window l),
       max_note_bytes := at_least 1 (max_note_bytes l),
       max_incarnations_per_account := at_least 1 (max_incarnations_per_account l),
       max_fences_per_account := at_least 1 (max_fences_per_account l),
       max_ambiguous_attempts := at_least 1 (max_ambiguous_attempts l),
       max_refusal_log := at_least 1 (max_refusal_log l),
       max_journal_record_bytes := at_least 1024 (max_journal_record_bytes l),
       max_frame_payload_bytes := at_least 1024 (max_frame_payload_bytes l),
       journal_records_per_snapshot := at_least 1024 (journal_records_per_snapshot l)\<rparr>"

definition make_engine :: "EngineLimits \<Rightarrow> 'j option \<Rightarrow> Incarnation \<Rightarrow> Digest128 \<Rightarrow> 'j engine" where
  "make_engine limits journal operator_incarnation nonce =
     \<lparr>e_limits = clamp_limits limits, e_journal = journal, e_operator = operator_incarnation,
      e_challenge = nonce, e_accounts = fmempty, e_next_sequence = 0, e_chain = zero_digest,
      e_journal_records = 0, e_snapshots = 0, e_stats = zero_stats, e_recovered = False,
      e_journal_failed = False\<rparr>"

definition put_account :: "u64 \<Rightarrow> AccountState \<Rightarrow> 'j engine \<Rightarrow> 'j engine" where
  "put_account key a e = e\<lparr>e_accounts := fmupd key a (e_accounts e)\<rparr>"

text \<open>A call through \<open>journal_\<close>; on the paths where the source dereferences it, \<open>recover\<close> has
  already refused a null journal.\<close>

definition with_journal :: "('j \<Rightarrow> Status \<times> 'j) \<Rightarrow> 'j engine \<Rightarrow> Status \<times> 'j engine" where
  "with_journal f e = (case f (the (e_journal e)) of (s, j) \<Rightarrow> (s, e\<lparr>e_journal := Some j\<rparr>))"

definition journal_size :: "'j journal_ops \<Rightarrow> 'j engine \<Rightarrow> u64" where
  "journal_size jops e = j_bytes jops (the (e_journal e))"

subsection \<open>Durability\<close>

definition durable_accounts :: "(u64, AccountState) fmap \<Rightarrow> DurableAccount list" where
  "durable_accounts m =
     sort_key (\<lambda>d. id_value (cfg_account (da_config d)))
       (map (\<lambda>k. build_durable_account (the (fmlookup m k)) True) (sorted_keys m))"

definition snapshot_state :: "'j engine \<Rightarrow> DurableState" where
  "snapshot_state e =
     (let accounts = durable_accounts (e_accounts e) in
      \<lparr>ds_journal_sequence = e_next_sequence e, ds_chain = e_chain e, ds_snapshots = e_snapshots e + 1,
       ds_accounts = accounts,
       ds_state_digest = digest_of (Digest128 0x2211AA55BB66CC77 0x77CC66BB55AA1122)
                           (map (\<lambda>d. DDigest (da_state_digest d)) accounts)\<rparr>)"

definition snapshot_locked :: "'j journal_ops \<Rightarrow> 'j engine \<Rightarrow> Status \<times> 'j engine" where
  "snapshot_locked jops e =
     (if e_journal e = None then (refused InvalidState 2, e)
      else
        let sequence = e_next_sequence e in
        case encode_durable_state (snapshot_state e) of
          Inl s \<Rightarrow> (s, e)
        | Inr payload \<Rightarrow>
            (case with_journal (j_append jops sequence KindSnapshot (e_chain e) payload) e of
               (s1, e1) \<Rightarrow>
                 if \<not> status_ok s1 then (s1, e1)
                 else
                   let e2 = e1\<lparr>e_next_sequence := e_next_sequence e1 + 1,
                               e_journal_records := e_journal_records e1 + 1\<rparr> in
                   case with_journal (j_write_snapshot jops sequence (e_chain e2) payload) e2 of
                     (s3, e3) \<Rightarrow>
                       if \<not> status_ok s3 then (s3, e3)
                       else
                         case with_journal (j_rotate jops sequence) e3 of
                           (s4, e4) \<Rightarrow>
                             if \<not> status_ok s4 then (s4, e4)
                             else
                               let n = e_snapshots e4 + 1 in
                               (success,
                                e4\<lparr>e_journal_records := 0, e_snapshots := n,
                                   e_stats := (e_stats e4)\<lparr>st_journal_records := 0,
                                                st_journal_bytes := journal_size jops e4,
                                                st_snapshots := n\<rparr>\<rparr>)))"

definition commit_chain_of :: "Digest128 \<Rightarrow> u64 \<Rightarrow> CreditRequest \<Rightarrow> CreditOutcome \<Rightarrow> Digest128" where
  "commit_chain_of chain sequence request outcome =
     digest_of chain [DU64 sequence, DDigest (request_digest request), DDigest (outcome_digest outcome)]"

definition intent_chain_of :: "Digest128 \<Rightarrow> u64 \<Rightarrow> CreditRequest \<Rightarrow> Digest128" where
  "intent_chain_of chain sequence request =
     digest_of chain [DU64 sequence, DDigest (request_digest request)]"

definition durable_attempt ::
  "CreditRequest \<Rightarrow> CreditOutcome \<Rightarrow> AccountState option \<Rightarrow> bool \<Rightarrow> EngineStats \<Rightarrow> DurableAttempt" where
  "durable_attempt request outcome account created stats =
     \<lparr>dt_request = request, dt_outcome = outcome, dt_has_account = (account \<noteq> None),
      dt_created_account = created,
      dt_account = (case account of None \<Rightarrow> default_durable_account
                                  | Some a \<Rightarrow> build_durable_account a False),
      dt_engine_applied_attempts = st_attempts_applied stats,
      dt_engine_refused_attempts = st_attempts_refused stats\<rparr>"

definition persist_locked ::
  "'j journal_ops \<Rightarrow> CreditRequest \<Rightarrow> CreditOutcome \<Rightarrow> AccountState option \<Rightarrow> bool \<Rightarrow>
     'j engine \<Rightarrow> Status \<times> 'j engine" where
  "persist_locked jops request outcome account created e =
     (case encode_request_message request of
        Inl s \<Rightarrow> (s, e)
      | Inr intent_payload \<Rightarrow>
          (case with_journal (j_append jops (e_next_sequence e) KindIntent
                  (intent_chain_of (e_chain e) (e_next_sequence e) request) intent_payload) e of
             (s1, e1) \<Rightarrow>
               if \<not> status_ok s1 then (s1, e1)
               else
                 let e2 = e1\<lparr>e_next_sequence := e_next_sequence e1 + 1\<rparr> in
                 case encode_durable_attempt (durable_attempt request outcome account created (e_stats e2)) of
                   Inl s \<Rightarrow> (s, e2)
                 | Inr commit_payload \<Rightarrow>
                     let sequence = e_next_sequence e2;
                         commit_chain = commit_chain_of (e_chain e2) sequence request outcome in
                     (case with_journal (j_append jops sequence KindAttempt commit_chain commit_payload) e2 of
                        (s3, e3) \<Rightarrow>
                          if \<not> status_ok s3 then (s3, e3)
                          else
                            let records = e_journal_records e3 + 2;
                                e4 = e3\<lparr>e_chain := commit_chain,
                                        e_next_sequence := e_next_sequence e3 + 1,
                                        e_journal_records := records,
                                        e_stats := (e_stats e3)\<lparr>st_journal_records := records,
                                                     st_journal_bytes := journal_size jops e3\<rparr>\<rparr>
                            in if unat records \<ge> journal_records_per_snapshot (e_limits e4) \<or>
                                  journal_size jops e4 \<ge> max_journal_bytes (e_limits e4)
                               then snapshot_locked jops e4
                               else (success, e4))))"

definition snapshot :: "'j journal_ops \<Rightarrow> 'j engine \<Rightarrow> Status \<times> 'j engine" where
  "snapshot jops e =
     (if \<not> e_recovered e then (refused ReconciliationRequired 2, e)
      else if e_journal_failed e then (refused IoError 3, e)
      else snapshot_locked jops e)"

subsection \<open>Decisions\<close>

definition refuse_outcome :: "CreditOutcome \<Rightarrow> Reason \<Rightarrow> u64 \<Rightarrow> CreditOutcome" where
  "refuse_outcome outcome r d = outcome\<lparr>out_status := refused r d, out_applied := False\<rparr>"

definition decided_refusal :: "CreditOutcome \<Rightarrow> Reason \<Rightarrow> u64 \<Rightarrow> CreditOutcome" where
  "decided_refusal outcome r d =
     outcome\<lparr>out_status := refused r d, out_applied := False, out_decided := True\<rparr>"

definition persist_failure :: "CreditOutcome \<Rightarrow> Status \<Rightarrow> CreditOutcome" where
  "persist_failure outcome s = outcome\<lparr>out_applied := False, out_decided := False, out_status := s\<rparr>"

definition bump_applied :: "'j engine \<Rightarrow> 'j engine" where
  "bump_applied e = e\<lparr>e_stats := (e_stats e)\<lparr>st_attempts_applied := st_attempts_applied (e_stats e) + 1\<rparr>\<rparr>"

definition bump_refused :: "'j engine \<Rightarrow> 'j engine" where
  "bump_refused e = e\<lparr>e_stats := (e_stats e)\<lparr>st_attempts_refused := st_attempts_refused (e_stats e) + 1\<rparr>\<rparr>"

text \<open>The common end of an applied decision: fill the outcome, journal it, and on a journal failure
  undo the account from the backup and latch \<open>journal_failed_\<close>; otherwise publish.\<close>

definition commit_applied ::
  "'j journal_ops \<Rightarrow> u64 \<Rightarrow> CreditRequest \<Rightarrow> CreditOutcome \<Rightarrow> AccountBackup \<Rightarrow> IncarnationId \<Rightarrow>
     AccountState \<Rightarrow> 'j engine \<Rightarrow> CreditOutcome \<times> 'j engine" where
  "commit_applied jops key request outcome backup subject a e =
     (let done_outcome = outcome\<lparr>out_applied := True, out_decided := True, out_status := success,
                                 out_view := account_view a, out_state_digest := account_digest a\<rparr>
      in case persist_locked jops request done_outcome (Some a) False (put_account key a e) of
           (s, e1) \<Rightarrow>
             if \<not> status_ok s then
               (persist_failure done_outcome s,
                (put_account key
                   (restore_backup backup (av_incarnation (req_authority request)) subject a) e1)
                  \<lparr>e_journal_failed := True\<rparr>)
             else
               (done_outcome, bump_applied (put_account key (publish_window request done_outcome a) e1)))"

definition finish_decided ::
  "'j journal_ops \<Rightarrow> u64 \<Rightarrow> CreditRequest \<Rightarrow> CreditOutcome \<Rightarrow> AccountState \<Rightarrow> 'j engine \<Rightarrow>
     CreditOutcome \<times> 'j engine" where
  "finish_decided jops key request outcome a0 e =
     (let caller = av_incarnation (req_authority request);
          backup = capture_backup a0 caller unset_id;
          a = count_refused request a0;
          done_outcome = outcome\<lparr>out_view := account_view a, out_state_digest := account_digest a\<rparr>
      in case persist_locked jops request done_outcome (Some a) False (put_account key a e) of
           (s, e1) \<Rightarrow>
             if \<not> status_ok s then
               (persist_failure done_outcome s,
                (put_account key (restore_backup backup caller unset_id a) e1)\<lparr>e_journal_failed := True\<rparr>)
             else
               (done_outcome,
                bump_refused
                  (put_account key
                     (record_refusal (max_refusal_log (e_limits e1)) request done_outcome
                        (publish_window request done_outcome a)) e1)))"

definition create_account_locked ::
  "'j journal_ops \<Rightarrow> CreditRequest \<Rightarrow> CreditOutcome \<Rightarrow> 'j engine \<Rightarrow> CreditOutcome \<times> 'j engine" where
  "create_account_locked jops request outcome e =
     (let authority = req_authority request; config = req_config request;
          key = id_value (av_account authority);
          refuse = (\<lambda>r d. (refuse_outcome outcome r d, e)) in
      if fmlookup (e_accounts e) key \<noteq> None then refuse AccountExists key
      else if cfg_domain config \<noteq> av_domain authority \<or> cfg_account config \<noteq> av_account authority
      then refuse DomainMismatch 3
      else if \<not> is_set (cfg_resource config) then refuse ResourceMismatch 1
      else if id_value (av_epoch authority) \<noteq> 1 \<or> id_value (av_generation authority) \<noteq> 1
      then refuse StaleAuthority 1
      else if cfg_capacity config = 0 \<or> cfg_max_capacity config < cfg_capacity config
      then refuse CapacityOutOfRange (cfg_capacity config)
      else if cfg_profile config = PhysicalValidated
      then refuse ProfileNotSupported (of_nat (profile_value (cfg_profile config)))
      else if min_issue (cfg_rules config) = 0 \<or>
              max_issue_per_attempt (cfg_rules config) < min_issue (cfg_rules config)
      then refuse PolicyRefused 1
      else if fcard (fmdom (e_accounts e)) \<ge> max_accounts (e_limits e)
      then refuse BudgetExceeded (of_nat (fcard (fmdom (e_accounts e))))
      else if req_sequence request \<noteq> 1 then refuse SequenceGap 1
      else if \<not> challenge_verify (e_challenge e) (req_presenter request) authority (req_proof request)
      then refuse ReconciliationRequired 4
      else
        let a = open_account (max_attempt_window (e_limits e)) request;
            done_outcome = outcome\<lparr>out_applied := True, out_decided := True, out_status := success,
                                   out_view := account_view a, out_state_digest := account_digest a\<rparr>
        in case persist_locked jops request done_outcome (Some a) True
                  (put_account (id_value (as_account a)) a e) of
             (s, e1) \<Rightarrow>
               if \<not> status_ok s then
                 (persist_failure done_outcome s,
                  e1\<lparr>e_accounts := fmdrop (id_value (as_account a)) (e_accounts e1),
                     e_journal_failed := True\<rparr>)
               else
                 (done_outcome,
                  bump_applied
                    (put_account (id_value (as_account a)) (publish_window request done_outcome a) e1)))"

definition decide_data_locked ::
  "'j journal_ops \<Rightarrow> u64 \<Rightarrow> CreditRequest \<Rightarrow> CreditOutcome \<Rightarrow> AccountState \<Rightarrow> 'j engine \<Rightarrow>
     CreditOutcome \<times> 'j engine" where
  "decide_data_locked jops key request outcome a e =
     (let caller = av_incarnation (req_authority request);
          backup = capture_backup a caller unset_id in
      if req_op request = Reconcile then
        if \<not> challenge_verify (e_challenge e) (req_presenter request) (req_authority request) (req_proof request)
        then (refuse_outcome outcome ReconciliationRequired 5, e)
        else
          commit_applied jops key request outcome backup unset_id
            (count_committed request (reconcile_incarnation request a)) e
      else if \<not> op_is_ledger (req_op request)
      then (refuse_outcome outcome Unsupported (of_nat (op_value (req_op request))), e)
      else if as_hard_exhausted a \<and> req_op request = Issue
      then finish_decided jops key request
             (decided_refusal outcome ExhaustedHard (of_nat (reason_value (as_exhaustion_cause a)))) a e
      else
        let continue = (\<lambda>a1.
              case ledger_apply a1 request (make_plan (as_capacity a1) (as_totals a1)) of
                (verdict, plan) \<Rightarrow>
                  if \<not> status_ok verdict
                  then finish_decided jops key request
                         (decided_refusal outcome (reason verdict) (detail verdict)) a1 e
                  else commit_applied jops key request outcome backup unset_id
                         (count_committed request (a1\<lparr>as_totals := p_totals plan\<rparr>)) e)
        in if req_op request = Issue then
             (case find_incarnation a caller of
                None \<Rightarrow> (refuse_outcome outcome UnknownIncarnation 3, e)
              | Some r \<Rightarrow>
                  (case bind_issue request r of
                     (Some (why, info), r') \<Rightarrow>
                       finish_decided jops key request (decided_refusal outcome why info)
                         (set_incarnation (id_value caller) r' a) e
                   | (None, r') \<Rightarrow> continue (set_incarnation (id_value caller) r' a)))
           else continue a)"

definition decide_control_locked ::
  "'j journal_ops \<Rightarrow> u64 \<Rightarrow> CreditRequest \<Rightarrow> CreditOutcome \<Rightarrow> AccountState \<Rightarrow> 'j engine \<Rightarrow>
     CreditOutcome \<times> 'j engine" where
  "decide_control_locked jops key request outcome a e =
     (if \<not> is_zero (req_expected_state request) \<and> req_expected_state request \<noteq> account_digest a
      then (refuse_outcome outcome StaleEvidence 1, e)
      else
        let backup = capture_backup a (av_incarnation (req_authority request)) (req_target request) in
        case control_transition (e_limits e) request a of
          CtlRefused r d a1 \<Rightarrow> (refuse_outcome outcome r d, put_account key a1 e)
        | CtlDecided r d \<Rightarrow> finish_decided jops key request (decided_refusal outcome r d) a e
        | CtlApplied a1 \<Rightarrow>
            commit_applied jops key request outcome backup (req_target request) (count_committed request a1) e)"

text \<open>\<open>apply_locked\<close>: structural validation, \<open>Describe\<close>, authority binding, and placement in the
  incarnation's sequence, in that order.\<close>

definition structural_refusal :: "EngineLimits \<Rightarrow> CreditRequest \<Rightarrow> Status option" where
  "structural_refusal limits request =
     (let presenter = req_presenter request; authority = req_authority request in
      if \<not> is_set (inc_id presenter) \<or> inc_id presenter \<noteq> av_incarnation authority \<or>
         make_incarnation_id (inc_publisher presenter) (inc_boot presenter) \<noteq> inc_id presenter
      then Some (refused MalformedMessage 2)
      else if \<not> is_set (av_domain authority) \<or> \<not> is_set (av_account authority)
      then Some (refused MalformedMessage 3)
      else if req_sequence request = 0 then Some (refused MalformedMessage 4)
      else if length (req_note request) > max_note_bytes limits
      then Some (refused OversizedFrame (of_nat (length (req_note request))))
      else if op_requires_count (req_op request) \<and> req_count request = 0
      then Some (refused CountZero 1)
      else None)"

definition describe_locked :: "CreditRequest \<Rightarrow> CreditOutcome \<Rightarrow> 'j engine \<Rightarrow> CreditOutcome" where
  "describe_locked request outcome e =
     (case fmlookup (e_accounts e) (id_value (av_account (req_authority request))) of
        None \<Rightarrow> refuse_outcome outcome AccountUnknown 1
      | Some a \<Rightarrow>
          if av_domain (req_authority request) \<noteq> as_domain a then refuse_outcome outcome DomainMismatch 1
          else
            outcome\<lparr>out_authority := (out_authority outcome)
                      \<lparr>av_epoch := as_epoch a, av_generation := as_generation a\<rparr>,
                    out_view := account_view a, out_state_digest := account_digest a,
                    out_ambiguous_pending := of_nat (length (as_ambiguous a)),
                    out_sequence :=
                      (case find_incarnation a (av_incarnation (req_authority request)) of
                         None \<Rightarrow> 0 | Some r \<Rightarrow> ir_last_sequence r),
                    out_status := success\<rparr>)"

definition authority_refusal :: "'j engine \<Rightarrow> AccountState \<Rightarrow> CreditRequest \<Rightarrow> Status option" where
  "authority_refusal e a request =
     (let authority = req_authority request; caller = av_incarnation authority;
          found = find_incarnation a caller in
      if av_domain authority \<noteq> as_domain a then Some (refused DomainMismatch 2)
      else if av_epoch authority \<noteq> as_epoch a \<or> av_generation authority \<noteq> as_generation a
      then Some (refused StaleAuthority (id_value (as_generation a)))
      else
        let standing =
          (if req_op request = Reconcile then
             if is_fenced a caller then Some (refused FencedIncarnation (id_value caller))
             else (case found of
                     Some r \<Rightarrow> if ir_state r = Retired
                               then Some (refused IncarnationNotReconciled (id_value caller)) else None
                   | None \<Rightarrow>
                       if fcard (fmdom (as_incarnations a)) \<ge> max_incarnations_per_account (e_limits e)
                       then Some (refused BudgetExceeded (of_nat (fcard (fmdom (as_incarnations a)))))
                       else None)
           else (case found of
                   None \<Rightarrow> Some (refused UnknownIncarnation 1)
                 | Some r \<Rightarrow>
                     if ir_state r = Fenced then Some (refused FencedIncarnation (id_value caller))
                     else if ir_state r = Retired
                     then Some (refused IncarnationNotReconciled (id_value caller))
                     else if \<not> is_live (as_epoch a) (as_generation a) r
                     then Some (refused ReconciliationRequired 3)
                     else None))
        in case standing of
             Some s \<Rightarrow> Some s
           | None \<Rightarrow>
               if classify_op (req_op request) = ControlOp \<and> caller \<noteq> inc_id (e_operator e)
               then Some (refused NotOperator (id_value caller)) else None)"

text \<open>Where the attempt stands relative to what was already decided.\<close>

datatype placement =
    PlDuplicate Status
  | PlConflict
  | PlRefused Reason u64
  | PlNext

definition place_attempt :: "AccountState \<Rightarrow> CreditRequest \<Rightarrow> placement" where
  "place_attempt a request =
     (let caller = av_incarnation (req_authority request) in
      case window_find (as_window a) (Key (id_value caller) (req_sequence request)) of
        Some existing \<Rightarrow>
          if we_request existing = request_digest request then PlDuplicate (we_status existing)
          else PlConflict
      | None \<Rightarrow>
          if window_find_by_attempt (as_window a) (req_attempt request) \<noteq> None then PlConflict
          else
            let watermark = (case find_incarnation a caller of None \<Rightarrow> 0 | Some r \<Rightarrow> ir_last_sequence r);
                (over, expected) = add_overflow watermark 1 in
            if req_sequence request \<le> watermark then PlRefused StaleReplay watermark
            else if over then PlRefused BudgetExceeded watermark
            else if req_sequence request > expected then PlRefused SequenceGap expected
            else PlNext)"

definition initial_outcome :: "CreditRequest \<Rightarrow> CreditOutcome" where
  "initial_outcome request =
     default_outcome\<lparr>out_op := req_op request, out_sequence := req_sequence request,
                     out_authority := req_authority request\<rparr>"

definition bind_outcome :: "AccountState \<Rightarrow> CreditOutcome \<Rightarrow> CreditOutcome" where
  "bind_outcome a outcome =
     outcome\<lparr>out_authority := (out_authority outcome)\<lparr>av_epoch := as_epoch a, av_generation := as_generation a\<rparr>\<rparr>"

definition duplicate_outcome :: "AccountState \<Rightarrow> Status \<Rightarrow> CreditOutcome \<Rightarrow> CreditOutcome" where
  "duplicate_outcome a s outcome =
     bind_outcome a
       (outcome\<lparr>out_status := s, out_applied := False, out_duplicate := True, out_decided := True,
                out_view := account_view a, out_state_digest := account_digest a\<rparr>)"

definition apply_locked :: "'j journal_ops \<Rightarrow> CreditRequest \<Rightarrow> 'j engine \<Rightarrow> CreditOutcome \<times> 'j engine" where
  "apply_locked jops request e =
     (let outcome = initial_outcome request in
      case structural_refusal (e_limits e) request of
        Some s \<Rightarrow> (refuse_outcome outcome (reason s) (detail s), e)
      | None \<Rightarrow>
          if req_op request = Describe then (describe_locked request outcome e, e)
          else if req_op request = Open then create_account_locked jops request outcome e
          else
            let key = id_value (av_account (req_authority request)) in
            case fmlookup (e_accounts e) key of
              None \<Rightarrow> (refuse_outcome outcome AccountUnknown 2, e)
            | Some a \<Rightarrow>
                (case authority_refusal e a request of
                   Some s \<Rightarrow> (refuse_outcome outcome (reason s) (detail s), e)
                 | None \<Rightarrow>
                     (case place_attempt a request of
                        PlDuplicate s \<Rightarrow>
                          (duplicate_outcome a s outcome,
                           e\<lparr>e_stats := (e_stats e)
                               \<lparr>st_duplicates_absorbed := st_duplicates_absorbed (e_stats e) + 1\<rparr>\<rparr>)
                      | PlConflict \<Rightarrow>
                          (decided_refusal outcome AttemptConflict (req_sequence request), e)
                      | PlRefused r d \<Rightarrow> (refuse_outcome outcome r d, e)
                      | PlNext \<Rightarrow>
                          if classify_op (req_op request) = ControlOp
                          then decide_control_locked jops key request (bind_outcome a outcome) a e
                          else decide_data_locked jops key request (bind_outcome a outcome) a e)))"

definition apply_request :: "'j journal_ops \<Rightarrow> CreditRequest \<Rightarrow> 'j engine \<Rightarrow> CreditOutcome \<times> 'j engine" where
  "apply_request jops request e =
     (if \<not> e_recovered e then (refuse_outcome (initial_outcome request) ReconciliationRequired 1, e)
      else if e_journal_failed e then (refuse_outcome (initial_outcome request) IoError 2, e)
      else apply_locked jops request e)"

end
