(* ===== verification/Recovery.thy ===== *)
theory Recovery
  imports Engine
begin

text \<open>
  Recovery and the read-only projections of the engine (\<open>recover\<close>, \<open>restore_durable_state\<close>,
  \<open>replay_attempt\<close>, \<open>mark_ambiguous\<close>, \<open>accounts\<close>, \<open>stats\<close> and \<open>explain\<close> of \<open>src/engine.cpp\<close>). The replay loop
  runs until the journal reports the end of its stream; its model takes fuel, and \<open>None\<close> means the
  fuel ran out. Under the journal contract one unit per pending record and one for the end suffice.
\<close>

subsection \<open>Restoring a snapshot\<close>

fun restore_accounts :: "nat \<Rightarrow> DurableAccount list \<Rightarrow> (u64, AccountState) fmap \<Rightarrow> Status \<times> (u64, AccountState) fmap" where
  "restore_accounts window_limit [] m = (success, m)"
| "restore_accounts window_limit (d # ds) m =
     (let a = restore_account window_limit d in
      if \<not> status_ok (check_invariants (as_capacity a) (as_totals a)) then (refused JournalCorrupt 120, m)
      else if account_digest a \<noteq> da_state_digest d then (refused JournalDigestMismatch 121, m)
      else restore_accounts window_limit ds (fmupd (id_value (as_account a)) a m))"

definition restore_durable_state :: "DurableState \<Rightarrow> 'j engine \<Rightarrow> Status \<times> 'j engine" where
  "restore_durable_state s e =
     (case restore_accounts (max_attempt_window (e_limits e)) (ds_accounts s) fmempty of
        (st, m) \<Rightarrow> (st, e\<lparr>e_accounts := m\<rparr>))"

subsection \<open>Replaying records\<close>

definition mark_ambiguous :: "CreditRequest \<Rightarrow> u64 \<Rightarrow> 'j engine \<Rightarrow> 'j engine" where
  "mark_ambiguous request journal_sequence e =
     (let key = id_value (av_account (req_authority request)) in
      case fmlookup (e_accounts e) key of
        None \<Rightarrow> e
      | Some a \<Rightarrow>
          if list_ex (\<lambda>n. am_incarnation n = av_incarnation (req_authority request) \<and>
                          am_sequence n = req_sequence request) (as_ambiguous a)
          then e
          else
            let kept = (if length (as_ambiguous a) \<ge> max_ambiguous_attempts (e_limits e)
                        then tl (as_ambiguous a) else as_ambiguous a);
                note = \<lparr>am_attempt = req_attempt request, am_op = req_op request,
                        am_sequence = req_sequence request,
                        am_incarnation = av_incarnation (req_authority request),
                        am_journal_sequence = journal_sequence\<rparr>
            in (put_account key (a\<lparr>as_ambiguous := kept @ [note]\<rparr>) e)
                 \<lparr>e_stats := (e_stats e)\<lparr>st_replayed_ambiguous := st_replayed_ambiguous (e_stats e) + 1\<rparr>\<rparr>)"

definition replay_check :: "DurableAttempt \<Rightarrow> AccountState \<Rightarrow> Status" where
  "replay_check t a =
     (let d = dt_account t in
      if account_digest a \<noteq> da_state_digest d then refused JournalDigestMismatch 135
      else if as_capacity a \<noteq> da_capacity d then refused JournalDigestMismatch 136
      else if as_totals a \<noteq> da_totals d then refused JournalDigestMismatch 137
      else if as_hard_exhausted a \<noteq> da_hard_exhausted d then refused JournalDigestMismatch 138
      else if as_exhaustion_cause a \<noteq> da_exhaustion_cause d then refused JournalDigestMismatch 139
      else success)"

definition recorded_outcome :: "DurableAttempt \<Rightarrow> AccountState \<Rightarrow> CreditOutcome" where
  "recorded_outcome t a =
     (dt_outcome t)
       \<lparr>out_authority := \<lparr>av_domain = as_domain a, av_account = as_account a, av_epoch = as_epoch a,
                          av_generation = as_generation a,
                          av_incarnation = av_incarnation (req_authority (dt_request t))\<rparr>,
        out_view := account_view a\<rparr>"

text \<open>The end of \<open>replay_attempt\<close>: compare with the recorded account, then publish the decision.\<close>

definition replay_finish :: "DurableAttempt \<Rightarrow> u64 \<Rightarrow> AccountState \<Rightarrow> 'j engine \<Rightarrow> Status \<times> 'j engine" where
  "replay_finish t key a e =
     (let verdict = replay_check t a in
      if \<not> status_ok verdict then (verdict, put_account key a e)
      else
        let published = (if out_decided (dt_outcome t)
                         then publish_window (dt_request t) (recorded_outcome t a) a else a)
        in (success,
            (put_account key published e)
              \<lparr>e_stats := (e_stats e)\<lparr>st_attempts_applied := dt_engine_applied_attempts t,
                                       st_attempts_refused := dt_engine_refused_attempts t\<rparr>\<rparr>))"

definition replay_attempt :: "DurableAttempt \<Rightarrow> 'j engine \<Rightarrow> Status \<times> 'j engine" where
  "replay_attempt t e =
     (let request = dt_request t; key = id_value (av_account (req_authority request)) in
      if dt_created_account t then
        (if fmlookup (e_accounts e) key \<noteq> None then (refused JournalCorrupt 130, e)
         else replay_finish t key (replay_open (max_attempt_window (e_limits e)) t) e)
      else
        (case fmlookup (e_accounts e) key of
           None \<Rightarrow> (refused JournalCorrupt 131, e)
         | Some a \<Rightarrow>
             if out_applied (dt_outcome t) then
               (case apply_replay_transition request a of
                  (s1, a1) \<Rightarrow>
                    if \<not> status_ok s1 then (s1, put_account key a1 e)
                    else
                      (case replay_subject request a1 of
                         (s2, a2) \<Rightarrow>
                           if \<not> status_ok s2 then (s2, put_account key a2 e)
                           else replay_finish t key (count_committed request a2) e))
             else if out_decided (dt_outcome t) then replay_finish t key (count_refused request a) e
             else replay_finish t key a e))"

definition bump_replayed :: "'j engine \<Rightarrow> 'j engine" where
  "bump_replayed e = e\<lparr>e_stats := (e_stats e)\<lparr>st_replayed_records := st_replayed_records (e_stats e) + 1\<rparr>\<rparr>"

text \<open>One iteration of the loop of \<open>recover\<close> on a valid record.\<close>

definition replay_record :: "u64 option \<Rightarrow> JournalRecord \<Rightarrow> 'j engine \<Rightarrow> Status \<times> 'j engine" where
  "replay_record snapshot_sequence r e =
     (if snapshot_sequence \<noteq> None \<and> jr_sequence r \<le> the snapshot_sequence then (success, e)
      else case jr_kind r of
        KindIntent \<Rightarrow>
          (case decode_request_message (jr_payload r) (max_note_bytes (e_limits e)) of
             Inl _ \<Rightarrow> (refused JournalCorrupt 102, e)
           | Inr pending \<Rightarrow> (success, mark_ambiguous pending (jr_sequence r) e))
      | KindSnapshot \<Rightarrow>
          (case decode_durable_state (jr_payload r) of
             Inl _ \<Rightarrow> (refused JournalCorrupt 103, e)
           | Inr restored \<Rightarrow>
               if ds_journal_sequence restored \<noteq> jr_sequence r then (refused JournalDigestMismatch 104, e)
               else
                 (case restore_durable_state restored e of
                    (s, e1) \<Rightarrow>
                      if \<not> status_ok s then (s, e1)
                      else (success,
                            bump_replayed (e1\<lparr>e_snapshots := ds_snapshots restored, e_chain := jr_chain r,
                                              e_next_sequence := jr_sequence r + 1\<rparr>))))
      | KindAttempt \<Rightarrow>
          (case decode_durable_attempt (jr_payload r) of
             Inl _ \<Rightarrow> (refused JournalCorrupt 106, e)
           | Inr t \<Rightarrow>
               if commit_chain_of (e_chain e) (jr_sequence r) (dt_request t) (dt_outcome t) \<noteq> jr_chain r
               then (refused JournalDigestMismatch (jr_sequence r), e)
               else
                 (case replay_attempt t e of
                    (s, e1) \<Rightarrow>
                      if \<not> status_ok s then (s, e1)
                      else (success,
                            bump_replayed (e1\<lparr>e_chain := jr_chain r, e_next_sequence := jr_sequence r + 1,
                                              e_journal_records := e_journal_records e1 + 1\<rparr>))))
      | KindUnknown \<Rightarrow> (refused JournalCorrupt 105, e))"

fun replay_loop :: "'j journal_ops \<Rightarrow> nat \<Rightarrow> u64 option \<Rightarrow> 'j engine \<Rightarrow> (Status \<times> 'j engine) option" where
  "replay_loop jops 0 snapshot_sequence e = None"
| "replay_loop jops (Suc fuel) snapshot_sequence e =
     (case j_next_record jops (the (e_journal e)) of
        (s, r, j) \<Rightarrow>
          let e1 = e\<lparr>e_journal := Some j\<rparr> in
          if \<not> status_ok s then Some (s, e1)
          else if \<not> jr_valid r then Some (success, e1)
          else (case replay_record snapshot_sequence r e1 of
                  (s2, e2) \<Rightarrow>
                    if \<not> status_ok s2 then Some (s2, e2)
                    else replay_loop jops fuel snapshot_sequence e2))"

subsection \<open>Recovery\<close>

text \<open>The part of \<open>recover\<close> before the loop: open, read the snapshot, reset, restore.\<close>

definition recover_snapshot :: "'j journal_ops \<Rightarrow> 'j engine \<Rightarrow> Status \<times> u64 option \<times> 'j engine" where
  "recover_snapshot jops e =
     (case with_journal (j_open jops) e of
        (s0, e0) \<Rightarrow>
          if \<not> status_ok s0 then (s0, None, e0)
          else
            (case j_read_snapshot jops (the (e_journal e0)) of
               (s1, found, j) \<Rightarrow>
                 let e1 = e0\<lparr>e_journal := Some j\<rparr> in
                 if \<not> status_ok s1 then (s1, None, e1)
                 else
                   let e2 = e1\<lparr>e_accounts := fmempty, e_next_sequence := 1, e_chain := zero_digest,
                               e_journal_records := 0, e_snapshots := 0\<rparr> in
                   (case found of
                      None \<Rightarrow> (success, None, e2)
                    | Some (sequence, chain, payload) \<Rightarrow>
                        (case decode_durable_state payload of
                           Inl _ \<Rightarrow> (refused JournalCorrupt 100, None, e2)
                         | Inr restored \<Rightarrow>
                             if ds_journal_sequence restored \<noteq> sequence
                             then (refused JournalDigestMismatch 101, None, e2)
                             else
                               (case restore_durable_state restored e2 of
                                  (s3, e3) \<Rightarrow>
                                    if \<not> status_ok s3 then (s3, None, e3)
                                    else (success, Some sequence,
                                          e3\<lparr>e_chain := chain, e_next_sequence := sequence + 1,
                                             e_snapshots := ds_snapshots restored\<rparr>))))))"

definition recover_finish :: "'j journal_ops \<Rightarrow> 'j engine \<Rightarrow> 'j engine" where
  "recover_finish jops e =
     (let e1 = e\<lparr>e_accounts := fmmap demote_all (e_accounts e)\<rparr> in
      e1\<lparr>e_stats := (e_stats e1)\<lparr>st_journal_records := e_journal_records e1,
                                 st_journal_bytes := journal_size jops e1,
                                 st_snapshots := e_snapshots e1\<rparr>,
         e_recovered := True\<rparr>)"

definition recover :: "'j journal_ops \<Rightarrow> nat \<Rightarrow> 'j engine \<Rightarrow> (Status \<times> 'j engine) option" where
  "recover jops fuel e =
     (if e_journal e = None then Some (refused InvalidState 1, e)
      else
        (case recover_snapshot jops e of
           (s1, snapshot_sequence, e1) \<Rightarrow>
             if \<not> status_ok s1 then Some (s1, e1)
             else
               (case with_journal (j_begin_replay jops) e1 of
                  (s2, e2) \<Rightarrow>
                    if \<not> status_ok s2 then Some (s2, e2)
                    else
                      (case replay_loop jops fuel snapshot_sequence e2 of
                         None \<Rightarrow> None
                       | Some (s3, e3) \<Rightarrow>
                           if \<not> status_ok s3 then Some (s3, e3)
                           else
                             (case with_journal (j_end_replay jops) e3 of
                                (s4, e4) \<Rightarrow>
                                  if \<not> status_ok s4 then Some (s4, e4)
                                  else Some (success, recover_finish jops e4))))))"

subsection \<open>Projections\<close>

definition accounts :: "'j engine \<Rightarrow> AccountId list" where
  "accounts e = sort (map (\<lambda>k. as_account (the (fmlookup (e_accounts e) k))) (sorted_keys (e_accounts e)))"

definition stats :: "'j journal_ops \<Rightarrow> 'j engine \<Rightarrow> EngineStats" where
  "stats jops e =
     (let copy = (e_stats e)\<lparr>st_journal_records := e_journal_records e, st_snapshots := e_snapshots e\<rparr>
      in case e_journal e of None \<Rightarrow> copy | Some j \<Rightarrow> copy\<lparr>st_journal_bytes := j_bytes jops j\<rparr>)"

definition summarize :: "IncarnationRecord \<Rightarrow> IncarnationSummary" where
  "summarize r =
     \<lparr>sum_id = ir_id r, sum_publisher = ir_publisher r, sum_boot = ir_boot r, sum_state = ir_state r,
      sum_reconciled_epoch = ir_reconciled_epoch r,
      sum_reconciled_generation = ir_reconciled_generation r, sum_producer = ir_producer r,
      sum_consumer = ir_consumer r, sum_grant = ir_grant r, sum_last_sequence = ir_last_sequence r,
      sum_committed_ops = ir_committed_ops r, sum_refused_ops = ir_refused_ops r\<rparr>"

definition explain :: "AccountId \<Rightarrow> 'j engine \<Rightarrow> Explanation" where
  "explain account_id e =
     (let x = default_explanation\<lparr>ex_operator_incarnation := inc_id (e_operator e)\<rparr> in
      case fmlookup (e_accounts e) (id_value account_id) of
        None \<Rightarrow> x\<lparr>ex_note := ''account unknown''\<rparr>
      | Some a \<Rightarrow>
          x\<lparr>ex_found := True, ex_config := as_config a, ex_view := account_view a,
            ex_hard_exhausted := as_hard_exhausted a, ex_exhaustion_cause := as_exhaustion_cause a,
            ex_state_digest := account_digest a,
            ex_authority := unset_authority\<lparr>av_domain := as_domain a, av_account := as_account a,
                              av_epoch := as_epoch a, av_generation := as_generation a\<rparr>,
            ex_committed_attempts := as_committed_attempts a,
            ex_refused_attempts := as_refused_attempts a,
            ex_ambiguous_total := of_nat (length (as_ambiguous a)),
            ex_fences_total := of_nat (length (as_fences a)),
            ex_incarnations_total := of_nat (fcard (fmdom (as_incarnations a))),
            ex_refusals_total := of_nat (length (as_refusals a)),
            ex_incarnations :=
              map (\<lambda>k. summarize (the (fmlookup (as_incarnations a) k)))
                  (take (max_explanation_incarnations (e_limits e)) (sorted_keys (as_incarnations a))),
            ex_fences := take (max_explanation_fences (e_limits e)) (as_fences a),
            ex_ambiguous := take (max_ambiguous_attempts (e_limits e)) (as_ambiguous a),
            ex_refusals := take (max_explanation_refusals (e_limits e)) (as_refusals a)\<rparr>)"

end
