(* ===== verification/Decisions.thy ===== *)
theory Decisions
  imports Recovery
begin

text \<open>
  What the engine decides, apart from how it makes the decision durable. A live call either leaves
  the accounts alone, opens an account, or enacts one decision of an admitted attempt
  (\<open>apply_request_cases\<close>); a decision is a function of the account and the request alone
  (\<open>decide\<close>). The account invariant (the ledger closes, the replay window is indexed, every fence has
  its record and every fenced record its fence, the budgets hold) is kept by every decision, and a
  decision changes capacity and totals exactly by the ledger operation of its request.
\<close>

subsection \<open>Account-level facts\<close>

lemma set_incarnation_frame [simp, frame_simps]:
  "as_config (set_incarnation k r a) = as_config a" "as_domain (set_incarnation k r a) = as_domain a"
  "as_account (set_incarnation k r a) = as_account a" "as_epoch (set_incarnation k r a) = as_epoch a"
  "as_generation (set_incarnation k r a) = as_generation a" "as_capacity (set_incarnation k r a) = as_capacity a"
  "as_totals (set_incarnation k r a) = as_totals a"
  "as_hard_exhausted (set_incarnation k r a) = as_hard_exhausted a"
  "as_exhaustion_cause (set_incarnation k r a) = as_exhaustion_cause a"
  "as_window (set_incarnation k r a) = as_window a" "as_fences (set_incarnation k r a) = as_fences a"
  "as_ambiguous (set_incarnation k r a) = as_ambiguous a" "as_refusals (set_incarnation k r a) = as_refusals a"
  "as_refusal_cursor (set_incarnation k r a) = as_refusal_cursor a"
  "as_committed_attempts (set_incarnation k r a) = as_committed_attempts a"
  "as_refused_attempts (set_incarnation k r a) = as_refused_attempts a"
  "as_incarnations (set_incarnation k r a) = fmupd k r (as_incarnations a)"
  by (simp_all add: set_incarnation_def)

lemma update_incarnation_frame [simp, frame_simps]:
  "as_config (update_incarnation i f a) = as_config a" "as_domain (update_incarnation i f a) = as_domain a"
  "as_account (update_incarnation i f a) = as_account a" "as_epoch (update_incarnation i f a) = as_epoch a"
  "as_generation (update_incarnation i f a) = as_generation a" "as_capacity (update_incarnation i f a) = as_capacity a"
  "as_totals (update_incarnation i f a) = as_totals a"
  "as_hard_exhausted (update_incarnation i f a) = as_hard_exhausted a"
  "as_exhaustion_cause (update_incarnation i f a) = as_exhaustion_cause a"
  "as_window (update_incarnation i f a) = as_window a" "as_fences (update_incarnation i f a) = as_fences a"
  "as_ambiguous (update_incarnation i f a) = as_ambiguous a" "as_refusals (update_incarnation i f a) = as_refusals a"
  "as_refusal_cursor (update_incarnation i f a) = as_refusal_cursor a"
  "as_committed_attempts (update_incarnation i f a) = as_committed_attempts a"
  "as_refused_attempts (update_incarnation i f a) = as_refused_attempts a"
  by (simp_all add: update_incarnation_def split: option.splits)

lemma lookup_update_incarnation:
  "fmlookup (as_incarnations (update_incarnation i f a)) k =
     (if k = id_value i then map_option f (fmlookup (as_incarnations a) k) else fmlookup (as_incarnations a) k)"
  by (auto simp: update_incarnation_def find_incarnation_def split: option.splits)

lemma card_update_incarnation [simp]:
  "fcard (fmdom (as_incarnations (update_incarnation i f a))) = fcard (fmdom (as_incarnations a))"
  by (auto simp: update_incarnation_def find_incarnation_def finsert_absorb fmdomI split: option.splits)

text \<open>A decision as a function of the account alone: refuse without consuming the sequence (with the
  account as the refusal leaves it), refuse through \<open>finish_decided\<close>, or commit.\<close>

datatype decision =
    DecRefuse Reason u64 AccountState
  | DecRefusal Reason u64 AccountState
  | DecApply AccountState

definition decide_ledger :: "CreditRequest \<Rightarrow> AccountState \<Rightarrow> decision" where
  "decide_ledger request a =
     (case ledger_apply a request (make_plan (as_capacity a) (as_totals a)) of
        (verdict, plan) \<Rightarrow>
          if \<not> status_ok verdict then DecRefusal (reason verdict) (detail verdict) a
          else DecApply (count_committed request (a\<lparr>as_totals := p_totals plan\<rparr>)))"

definition decide_data :: "Digest128 \<Rightarrow> CreditRequest \<Rightarrow> AccountState \<Rightarrow> decision" where
  "decide_data nonce request a =
     (let caller = av_incarnation (req_authority request) in
      if req_op request = Reconcile then
        if \<not> challenge_verify nonce (req_presenter request) (req_authority request) (req_proof request)
        then DecRefuse ReconciliationRequired 5 a
        else DecApply (count_committed request (reconcile_incarnation request a))
      else if \<not> op_is_ledger (req_op request)
      then DecRefuse Unsupported (of_nat (op_value (req_op request))) a
      else if as_hard_exhausted a \<and> req_op request = Issue
      then DecRefusal ExhaustedHard (of_nat (reason_value (as_exhaustion_cause a))) a
      else if req_op request = Issue then
        (case find_incarnation a caller of
           None \<Rightarrow> DecRefuse UnknownIncarnation 3 a
         | Some r \<Rightarrow>
             (case bind_issue request r of
                (Some (why, info), r') \<Rightarrow> DecRefusal why info (set_incarnation (id_value caller) r' a)
              | (None, r') \<Rightarrow> decide_ledger request (set_incarnation (id_value caller) r' a)))
      else decide_ledger request a)"

definition decide_control :: "EngineLimits \<Rightarrow> CreditRequest \<Rightarrow> AccountState \<Rightarrow> decision" where
  "decide_control limits request a =
     (if \<not> is_zero (req_expected_state request) \<and> req_expected_state request \<noteq> account_digest a
      then DecRefuse StaleEvidence 1 a
      else
        case control_transition limits request a of
          CtlRefused r d a1 \<Rightarrow> DecRefuse r d a1
        | CtlDecided r d \<Rightarrow> DecRefusal r d a
        | CtlApplied a1 \<Rightarrow> DecApply (count_committed request a1))"

definition decide :: "'j engine \<Rightarrow> CreditRequest \<Rightarrow> AccountState \<Rightarrow> decision" where
  "decide e request a =
     (if classify_op (req_op request) = ControlOp then decide_control (e_limits e) request a
      else decide_data (e_challenge e) request a)"

definition decision_subject :: "CreditRequest \<Rightarrow> IncarnationId" where
  "decision_subject request =
     (if classify_op (req_op request) = ControlOp then req_target request else unset_id)"

definition enact ::
  "'j journal_ops \<Rightarrow> u64 \<Rightarrow> CreditRequest \<Rightarrow> CreditOutcome \<Rightarrow> AccountState \<Rightarrow> 'j engine \<Rightarrow> decision \<Rightarrow>
     CreditOutcome \<times> 'j engine" where
  "enact jops key request outcome a e d =
     (case d of
        DecRefuse r i a1 \<Rightarrow> (refuse_outcome outcome r i, put_account key a1 e)
      | DecRefusal r i a1 \<Rightarrow> finish_decided jops key request (decided_refusal outcome r i) a1 e
      | DecApply a1 \<Rightarrow>
          commit_applied jops key request outcome
            (capture_backup a (av_incarnation (req_authority request)) (decision_subject request))
            (decision_subject request) a1 e)"

lemma put_account_same: "fmlookup (e_accounts e) key = Some a \<Longrightarrow> put_account key a e = e"
  by (simp add: put_account_def fmupd_same)

lemma decide_data_locked_enacts:
  assumes "fmlookup (e_accounts e) key = Some a" "classify_op (req_op request) \<noteq> ControlOp"
  shows "decide_data_locked jops key request outcome a e =
           enact jops key request outcome a e (decide e request a)"
  using assms put_account_same [OF assms(1)]
  by (auto simp: decide_data_locked_def decide_def decide_data_def decide_ledger_def enact_def
      decision_subject_def Let_def split: option.splits prod.splits if_splits)

lemma decide_control_locked_enacts:
  assumes "fmlookup (e_accounts e) key = Some a" "classify_op (req_op request) = ControlOp"
  shows "decide_control_locked jops key request outcome a e =
           enact jops key request outcome a e (decide e request a)"
  using assms put_account_same [OF assms(1)]
  by (auto simp: decide_control_locked_def decide_def decide_control_def enact_def
      decision_subject_def Let_def split: control_step.splits)

text \<open>Everything a call can do: leave the engine alone (up to its statistics), open an account, or
  enact a decision of an admitted attempt.\<close>

definition request_key :: "CreditRequest \<Rightarrow> u64" where
  "request_key request = id_value (av_account (req_authority request))"

definition admitted :: "'j engine \<Rightarrow> CreditRequest \<Rightarrow> AccountState \<Rightarrow> bool" where
  "admitted e request a \<longleftrightarrow>
     e_recovered e \<and> \<not> e_journal_failed e \<and> structural_refusal (e_limits e) request = None \<and>
     req_op request \<noteq> Describe \<and> req_op request \<noteq> Open \<and>
     fmlookup (e_accounts e) (request_key request) = Some a \<and>
     authority_refusal e a request = None \<and> place_attempt a request = PlNext"

lemma apply_request_cases [consumes 1, case_names quiet opened decided]:
  assumes "apply_request jops request e = (outcome, e')"
  obtains "e' = e\<lparr>e_stats := e_stats e'\<rparr>" "\<not> out_applied outcome"
      "\<nexists>a. admitted e request a"
      "out_decided outcome \<Longrightarrow> out_duplicate outcome \<or> reason (out_status outcome) = AttemptConflict"
  | "e_recovered e" "\<not> e_journal_failed e" "structural_refusal (e_limits e) request = None"
      "req_op request = Open"
      "create_account_locked jops request (initial_outcome request) e = (outcome, e')"
  | a where "admitted e request a"
      "enact jops (request_key request) request (bind_outcome a (initial_outcome request)) a e (decide e request a)
         = (outcome, e')"
proof (cases "e_recovered e \<and> \<not> e_journal_failed e \<and> structural_refusal (e_limits e) request = None \<and>
    req_op request = Open")
  case True
  then show ?thesis using assms that(2) by (simp add: apply_request_def apply_locked_def Let_def)
next
  case False
  note flags = refuse_outcome_def initial_outcome_def default_outcome_def decided_refusal_def
    duplicate_outcome_def bind_outcome_def describe_locked_def
  show ?thesis
  proof (cases "\<exists>a. admitted e request a")
    case adm: True
    then obtain a where a: "admitted e request a" ..
    then have "apply_request jops request e =
        (if classify_op (req_op request) = ControlOp
         then decide_control_locked jops (request_key request) request (bind_outcome a (initial_outcome request)) a e
         else decide_data_locked jops (request_key request) request (bind_outcome a (initial_outcome request)) a e)"
      by (auto simp: admitted_def apply_request_def apply_locked_def Let_def request_key_def)
    moreover have lk: "fmlookup (e_accounts e) (request_key request) = Some a"
      using a by (simp add: admitted_def)
    ultimately have "apply_request jops request e =
        enact jops (request_key request) request (bind_outcome a (initial_outcome request)) a e (decide e request a)"
      by (simp add: decide_control_locked_enacts [OF lk] decide_data_locked_enacts [OF lk])
    then show ?thesis using assms that(3) [OF a] by simp
  next
    case none: False
    let ?quiet = "e' = e\<lparr>e_stats := e_stats e'\<rparr> \<and> \<not> out_applied outcome \<and>
        (out_decided outcome \<longrightarrow> out_duplicate outcome \<or> reason (out_status outcome) = AttemptConflict)"
    let ?live = "e_recovered e \<and> \<not> e_journal_failed e \<and> structural_refusal (e_limits e) request = None \<and>
        req_op request \<noteq> Open"
    consider "\<not> e_recovered e \<or> e_journal_failed e"
      | s where "e_recovered e" "\<not> e_journal_failed e" "structural_refusal (e_limits e) request = Some s"
      | "?live" "req_op request = Describe"
      | "?live" "req_op request \<noteq> Describe" "fmlookup (e_accounts e) (request_key request) = None"
      | a where "?live" "req_op request \<noteq> Describe" "fmlookup (e_accounts e) (request_key request) = Some a"
          "authority_refusal e a request \<noteq> None \<or> place_attempt a request \<noteq> PlNext"
      using False none unfolding admitted_def
      by (cases "structural_refusal (e_limits e) request"; cases "fmlookup (e_accounts e) (request_key request)")
         blast+
    then have ?quiet
    proof cases
      case 5
      then show ?thesis
        using assms
        by (cases "authority_refusal e a request"; cases "place_attempt a request")
           (auto simp: apply_request_def apply_locked_def request_key_def flags Let_def)
    qed (use assms in \<open>auto simp: apply_request_def apply_locked_def request_key_def flags Let_def
          split: option.splits if_splits\<close>)
    then show ?thesis using that(1) none by blast
  qed
qed

subsection \<open>How a decision changes the incarnation table\<close>

definition keeps :: "IncarnationRecord \<Rightarrow> IncarnationRecord \<Rightarrow> bool" where
  "keeps r r' \<longleftrightarrow> ir_id r' = ir_id r \<and> ir_last_sequence r' = ir_last_sequence r \<and>
     (ir_state r = Fenced \<longrightarrow> ir_state r' = Fenced)"

definition inc_evolves :: "(u64, IncarnationRecord) fmap \<Rightarrow> (u64, IncarnationRecord) fmap \<Rightarrow> bool" where
  "inc_evolves m m' \<longleftrightarrow>
     (\<forall>k r. fmlookup m k = Some r \<longrightarrow> (\<exists>r'. fmlookup m' k = Some r' \<and> keeps r r')) \<and>
     (\<forall>k r'. fmlookup m k = None \<longrightarrow> fmlookup m' k = Some r' \<longrightarrow>
        id_value (ir_id r') = k \<and> ir_last_sequence r' = 0)"

lemma keeps_refl [simp, intro]: "keeps r r"
  by (simp add: keeps_def)

lemma keeps_trans: "keeps r s \<Longrightarrow> keeps s t \<Longrightarrow> keeps r t"
  by (simp add: keeps_def)

lemma inc_evolves_refl [simp, intro]: "inc_evolves m m"
  by (simp add: inc_evolves_def)

lemma inc_evolves_trans:
  assumes "inc_evolves m n" "inc_evolves n p" shows "inc_evolves m p"
proof -
  have old: "\<exists>r'. fmlookup p k = Some r' \<and> keeps r r'" if "fmlookup m k = Some r" for k r
    using that assms unfolding inc_evolves_def by (meson keeps_trans)
  have new: "id_value (ir_id r') = k \<and> ir_last_sequence r' = 0"
    if k: "fmlookup m k = None" "fmlookup p k = Some r'" for k r'
  proof (cases "fmlookup n k")
    case None
    then show ?thesis using k assms(2) unfolding inc_evolves_def by blast
  next
    case (Some s)
    then have "keeps s r'" using k(2) assms(2) unfolding inc_evolves_def by fastforce
    moreover have "id_value (ir_id s) = k \<and> ir_last_sequence s = 0"
      using Some k(1) assms(1) unfolding inc_evolves_def by blast
    ultimately show ?thesis by (simp add: keeps_def)
  qed
  show ?thesis unfolding inc_evolves_def using old new by blast
qed

lemma update_evolves:
  assumes "\<And>r. find_incarnation a i = Some r \<Longrightarrow> keeps r (f r)"
  shows "inc_evolves (as_incarnations a) (as_incarnations (update_incarnation i f a))"
  using assms by (auto simp: inc_evolves_def lookup_update_incarnation find_incarnation_def)

lemma set_evolves:
  assumes "\<And>s. fmlookup (as_incarnations a) k = Some s \<Longrightarrow> keeps s r"
    "fmlookup (as_incarnations a) k = None \<Longrightarrow> id_value (ir_id r) = k \<and> ir_last_sequence r = 0"
  shows "inc_evolves (as_incarnations a) (fmupd k r (as_incarnations a))"
  using assms by (auto simp: inc_evolves_def)

lemma demote_keeps: "keeps r (demote r)"
  by (auto simp: keeps_def demote_def)

lemma demote_evolves: "inc_evolves m (fmmap demote m)"
  by (auto simp: inc_evolves_def demote_keeps)

lemma count_committed_frame [simp, frame_simps]:
  "as_config (count_committed request a) = as_config a" "as_domain (count_committed request a) = as_domain a"
  "as_account (count_committed request a) = as_account a" "as_epoch (count_committed request a) = as_epoch a"
  "as_generation (count_committed request a) = as_generation a" "as_capacity (count_committed request a) = as_capacity a"
  "as_totals (count_committed request a) = as_totals a" "as_window (count_committed request a) = as_window a"
  "as_fences (count_committed request a) = as_fences a" "as_ambiguous (count_committed request a) = as_ambiguous a"
  "as_refusals (count_committed request a) = as_refusals a"
  "as_refusal_cursor (count_committed request a) = as_refusal_cursor a"
  "as_hard_exhausted (count_committed request a) = as_hard_exhausted a"
  "as_exhaustion_cause (count_committed request a) = as_exhaustion_cause a"
  "as_refused_attempts (count_committed request a) = as_refused_attempts a"
  "as_committed_attempts (count_committed request a) = as_committed_attempts a + 1"
  by (simp_all add: count_committed_def)

lemma count_refused_frame [simp, frame_simps]:
  "as_config (count_refused request a) = as_config a" "as_domain (count_refused request a) = as_domain a"
  "as_account (count_refused request a) = as_account a" "as_epoch (count_refused request a) = as_epoch a"
  "as_generation (count_refused request a) = as_generation a" "as_capacity (count_refused request a) = as_capacity a"
  "as_totals (count_refused request a) = as_totals a" "as_window (count_refused request a) = as_window a"
  "as_fences (count_refused request a) = as_fences a" "as_ambiguous (count_refused request a) = as_ambiguous a"
  "as_refusals (count_refused request a) = as_refusals a"
  "as_refusal_cursor (count_refused request a) = as_refusal_cursor a"
  "as_hard_exhausted (count_refused request a) = as_hard_exhausted a"
  "as_exhaustion_cause (count_refused request a) = as_exhaustion_cause a"
  "as_committed_attempts (count_refused request a) = as_committed_attempts a"
  "as_refused_attempts (count_refused request a) = as_refused_attempts a + 1"
  by (simp_all add: count_refused_def)

lemma count_committed_evolves:
  "inc_evolves (as_incarnations a) (as_incarnations (count_committed request a))"
  using update_evolves [of "a\<lparr>as_committed_attempts := as_committed_attempts a + 1\<rparr>"
      "av_incarnation (req_authority request)" "\<lambda>r. r\<lparr>ir_committed_ops := ir_committed_ops r + 1\<rparr>"]
  by (simp add: count_committed_def keeps_def)

lemma count_refused_evolves:
  "inc_evolves (as_incarnations a) (as_incarnations (count_refused request a))"
  using update_evolves [of "a\<lparr>as_refused_attempts := as_refused_attempts a + 1\<rparr>"
      "av_incarnation (req_authority request)" "\<lambda>r. r\<lparr>ir_refused_ops := ir_refused_ops r + 1\<rparr>"]
  by (simp add: count_refused_def keeps_def)

lemma card_count_committed [simp]:
  "fcard (fmdom (as_incarnations (count_committed request a))) = fcard (fmdom (as_incarnations a))"
  by (simp add: count_committed_def)

lemma card_count_refused [simp]:
  "fcard (fmdom (as_incarnations (count_refused request a))) = fcard (fmdom (as_incarnations a))"
  by (simp add: count_refused_def)

subsection \<open>The account invariant\<close>

definition account_inv :: "EngineLimits \<Rightarrow> AccountState \<Rightarrow> bool" where
  "account_inv limits a \<longleftrightarrow>
     totals_ok (as_capacity a) (as_totals a) \<and>
     as_domain a = cfg_domain (as_config a) \<and> as_account a = cfg_account (as_config a) \<and>
     window_inv (as_window a) \<and>
     (\<forall>k r. fmlookup (as_incarnations a) k = Some r \<longrightarrow>
        id_value (ir_id r) = k \<and> (ir_state r = Fenced \<longrightarrow> is_fenced a (StrongId k))) \<and>
     (\<forall>f \<in> set (as_fences a). \<exists>r. find_incarnation a (fr_incarnation f) = Some r \<and> ir_state r = Fenced) \<and>
     (\<forall>key \<in> set (aw_order (as_window a)). \<exists>r.
        fmlookup (as_incarnations a) (key_incarnation key) = Some r \<and> key_sequence key \<le> ir_last_sequence r) \<and>
     length (as_fences a) \<le> max_fences_per_account limits \<and>
     fcard (fmdom (as_incarnations a)) \<le> max_incarnations_per_account limits \<and>
     length (as_refusals a) \<le> max_refusal_log limits"

text \<open>What an account may become in one decision, before it is published.\<close>

definition account_evolves :: "AccountState \<Rightarrow> AccountState \<Rightarrow> bool" where
  "account_evolves a b \<longleftrightarrow>
     as_config b = as_config a \<and> as_domain b = as_domain a \<and> as_account b = as_account a \<and>
     as_window b = as_window a \<and> as_ambiguous b = as_ambiguous a \<and> as_refusals b = as_refusals a \<and>
     as_refusal_cursor b = as_refusal_cursor a \<and>
     inc_evolves (as_incarnations a) (as_incarnations b) \<and>
     (\<exists>fs. as_fences b = as_fences a @ fs)"

lemma account_evolves_trans: "account_evolves a b \<Longrightarrow> account_evolves b c \<Longrightarrow> account_evolves a c"
  by (auto simp: account_evolves_def intro: inc_evolves_trans)

lemma account_evolves_refl [simp]: "account_evolves a a"
  by (simp add: account_evolves_def)

lemma count_committed_account_evolves: "account_evolves a (count_committed request a)"
  by (simp add: account_evolves_def count_committed_evolves)

lemma count_refused_account_evolves: "account_evolves a (count_refused request a)"
  by (simp add: account_evolves_def count_refused_evolves)

lemma is_fenced_iff: "is_fenced a i \<longleftrightarrow> i \<in> fr_incarnation ` set (as_fences a)"
  by (auto simp: is_fenced_def list_ex_iff)

text \<open>When no fence is added, the invariant only asks for the ledger, the budget and that no record
  becomes fenced.\<close>

lemma account_inv_evolves:
  assumes "account_inv limits a" "account_evolves a b" "as_fences b = as_fences a"
    "totals_ok (as_capacity b) (as_totals b)"
    "fcard (fmdom (as_incarnations b)) \<le> max_incarnations_per_account limits"
    "\<And>k r. fmlookup (as_incarnations b) k = Some r \<Longrightarrow> ir_state r = Fenced \<Longrightarrow>
       \<exists>s. fmlookup (as_incarnations a) k = Some s \<and> ir_state s = Fenced"
  shows "account_inv limits b"
proof -
  have ev: "inc_evolves (as_incarnations a) (as_incarnations b)"
    using assms(2) by (simp add: account_evolves_def)
  have ids: "id_value (ir_id r) = k" if "fmlookup (as_incarnations b) k = Some r" for k r
  proof (cases "fmlookup (as_incarnations a) k")
    case None
    then show ?thesis using that ev by (auto simp: inc_evolves_def)
  next
    case (Some s)
    then have "keeps s r" using that ev unfolding inc_evolves_def by fastforce
    then show ?thesis using Some assms(1) by (simp add: keeps_def account_inv_def)
  qed
  have fenced: "is_fenced b i = is_fenced a i" for i
    using assms(3) by (simp add: is_fenced_def)
  have recs: "\<exists>r. find_incarnation b (fr_incarnation f) = Some r \<and> ir_state r = Fenced" if "f \<in> set (as_fences b)" for f
    using that assms(1,3) ev unfolding account_inv_def inc_evolves_def find_incarnation_def keeps_def by metis
  have keys: "\<exists>r. fmlookup (as_incarnations b) (key_incarnation key) = Some r \<and> key_sequence key \<le> ir_last_sequence r"
    if "key \<in> set (aw_order (as_window b))" for key
    using that assms(1,2) ev unfolding account_inv_def inc_evolves_def account_evolves_def keeps_def by metis
  have states: "is_fenced b (StrongId k)" if "fmlookup (as_incarnations b) k = Some r" "ir_state r = Fenced" for k r
    using assms(1) assms(6) [OF that] unfolding fenced account_inv_def by blast
  show ?thesis
    using assms(1-5) unfolding account_inv_def account_evolves_def
    by (auto simp: ids states intro: recs keys)
qed

subsection \<open>The ledger operation of a request\<close>

definition ledger_op_of :: "AccountConfig \<Rightarrow> CreditRequest \<Rightarrow> ledger_op option" where
  "ledger_op_of config request =
     (case req_op request of
        Issue \<Rightarrow> Some (L_Issue (req_count request) (min_issue (cfg_rules config))
                               (max_issue_per_attempt (cfg_rules config)))
      | Consume \<Rightarrow> Some (L_Consume (req_count request))
      | Return \<Rightarrow> Some (L_Return (req_count request))
      | Protect \<Rightarrow> Some (L_Protect (req_count request) (allow_protect (cfg_rules config)))
      | Unprotect \<Rightarrow> Some (L_Unprotect (req_count request))
      | SetCapacity \<Rightarrow> Some (L_Set_Capacity (req_new_capacity request) (cfg_max_capacity config)
                                  (allow_capacity_growth (cfg_rules config)))
      | AdvanceEpoch \<Rightarrow> Some L_Quarantine
      | Rotate \<Rightarrow> Some L_Quarantine
      | Retire \<Rightarrow> Some (L_Retire (req_count request))
      | Revalidate \<Rightarrow> Some (if req_decision request = ToReturned then L_To_Returned (req_count request)
                            else L_To_Consumed (req_count request))
      | _ \<Rightarrow> None)"

definition ledger_effect :: "ledger_op option \<Rightarrow> u64 \<times> CreditTotals \<Rightarrow> u64 \<times> CreditTotals" where
  "ledger_effect oper s = (case oper of None \<Rightarrow> s | Some l \<Rightarrow> ledger_apply_op l s)"

lemma ledger_effect_ok: "totals_ok (fst s) (snd s) \<Longrightarrow> totals_ok (fst (ledger_effect l s)) (snd (ledger_effect l s))"
  by (auto simp: ledger_effect_def ledger_apply_op_refines split: option.splits)

lemma plan_commit_capacity [simp]: "p_capacity (snd (plan_commit c p)) = p_capacity p"
  by (simp add: plan_commit_def Let_def)

lemma plan_refuse_frame [simp]:
  "p_capacity (snd (plan_refuse r d p)) = p_capacity p" "p_totals (snd (plan_refuse r d p)) = p_totals p"
  by (simp_all add: plan_refuse_def)

lemma plan_step_capacity:
  "(\<forall>n m g. l \<noteq> L_Set_Capacity n m g) \<Longrightarrow> p_capacity (snd (plan_step l p)) = p_capacity p"
  by (cases l; (blast | simp add: plan_issue_def plan_consume_def plan_give_back_def plan_protect_def plan_unprotect_def
       plan_retire_stale_def plan_quarantine_in_flight_def plan_revalidate_to_returned_def
       plan_revalidate_to_consumed_def Let_def split: prod.splits))

lemma plan_set_capacity_totals: "p_totals (snd (plan_set_capacity n m g p)) = p_totals p"
  by (simp add: plan_set_capacity_def Let_def split: prod.splits)

text \<open>A plan of the current account that succeeds has exactly the effect of \<open>ledger_apply_op\<close>.\<close>

lemma plan_effect:
  assumes "plan_step l (make_plan cap t) = (True, p)" "\<forall>n m g. l \<noteq> L_Set_Capacity n m g"
  shows "ledger_apply_op l (cap, t) = (cap, p_totals p)"
  using assms(1) plan_step_capacity [OF assms(2), of "make_plan cap t"]
  by (simp add: ledger_apply_op_def make_plan_def)

lemma set_capacity_effect:
  assumes "plan_set_capacity n m g (make_plan cap t) = (True, p)"
  shows "ledger_apply_op (L_Set_Capacity n m g) (cap, t) = (p_capacity p, t)"
  using assms plan_set_capacity_totals [of n m g "make_plan cap t"]
  by (simp add: ledger_apply_op_def make_plan_def)

lemma pool_step_reason: "pool_step l b = Inl r \<Longrightarrow> r \<noteq> Ok"
  by (cases l) (auto simp: Let_def split: if_splits)

lemma plan_refusal_status:
  assumes "totals_ok cap t" "plan_step l (make_plan cap t) = (False, p)"
  shows "\<not> status_ok (p_status p)"
  using plan_step_meets [of "make_plan cap t" l] assms make_plan_sound [of cap t]
  by (auto simp: step_meets_def status_ok_def dest: pool_step_reason split: sum.splits)

lemma ledger_apply_effect:
  assumes "ledger_apply a request (make_plan (as_capacity a) (as_totals a)) = (s, p)" "status_ok s"
    "op_is_ledger (req_op request)" "totals_ok (as_capacity a) (as_totals a)"
  shows "ledger_effect (ledger_op_of (as_config a) request) (as_capacity a, as_totals a) =
           (as_capacity a, p_totals p)"
proof -
  obtain l where l: "ledger_op_of (as_config a) request = Some l" "\<forall>n m g. l \<noteq> L_Set_Capacity n m g"
    using assms(3) by (cases "req_op request") (auto simp: ledger_op_of_def)
  obtain ok q where q: "plan_step l (make_plan (as_capacity a) (as_totals a)) = (ok, q)" by fastforce
  then have "ok"
    using assms l(1) plan_refusal_status [OF assms(4), of l q]
    by (cases "req_op request"; cases ok)
       (auto simp: ledger_apply_def ledger_op_of_def Let_def split: if_splits)
  moreover have "p = q"
    using assms(1-3) l(1) q
    by (cases "req_op request") (auto simp: ledger_apply_def ledger_op_of_def Let_def split: if_splits)
  ultimately show ?thesis using plan_effect q l by (simp add: ledger_effect_def)
qed

subsection \<open>Every transition keeps the invariant\<close>

lemma count_committed_lookup:
  "fmlookup (as_incarnations (count_committed request a)) k =
     (if k = id_value (av_incarnation (req_authority request))
      then map_option (\<lambda>r. r\<lparr>ir_committed_ops := ir_committed_ops r + 1\<rparr>) (fmlookup (as_incarnations a) k)
      else fmlookup (as_incarnations a) k)"
  by (simp add: count_committed_def lookup_update_incarnation)

lemma count_refused_lookup:
  "fmlookup (as_incarnations (count_refused request a)) k =
     (if k = id_value (av_incarnation (req_authority request))
      then map_option (\<lambda>r. r\<lparr>ir_refused_ops := ir_refused_ops r + 1\<rparr>) (fmlookup (as_incarnations a) k)
      else fmlookup (as_incarnations a) k)"
  by (simp add: count_refused_def lookup_update_incarnation)

lemma account_invD:
  assumes "account_inv limits a"
  shows "totals_ok (as_capacity a) (as_totals a)" "window_inv (as_window a)"
    "fcard (fmdom (as_incarnations a)) \<le> max_incarnations_per_account limits"
    "\<And>k r. fmlookup (as_incarnations a) k = Some r \<Longrightarrow> id_value (ir_id r) = k"
  using assms by (simp_all add: account_inv_def)

lemma account_inv_count:
  assumes "account_inv limits a"
  shows "account_inv limits (count_committed request a)" "account_inv limits (count_refused request a)"
  using account_invD [OF assms]
  by (auto intro!: account_inv_evolves [OF assms] simp: count_committed_account_evolves
      count_refused_account_evolves count_committed_lookup count_refused_lookup split: if_splits)

lemma account_inv_set:
  assumes "account_inv limits a" "fmlookup (as_incarnations a) k = Some r" "keeps r r'"
    "ir_state r' = Fenced \<Longrightarrow> ir_state r = Fenced"
  shows "account_inv limits (set_incarnation k r' a)" "account_evolves a (set_incarnation k r' a)"
proof -
  show ev: "account_evolves a (set_incarnation k r' a)"
    using assms by (auto simp: account_evolves_def intro!: set_evolves)
  have "fmdom (fmupd k r' (as_incarnations a)) = fmdom (as_incarnations a)"
    using assms(2) by (simp add: finsert_absorb fmdomI)
  then show "account_inv limits (set_incarnation k r' a)"
    using assms account_invD [OF assms(1)]
    by (intro account_inv_evolves [OF assms(1) ev]) (auto split: if_splits)
qed

lemma account_inv_set_new:
  assumes "account_inv limits a" "fmlookup (as_incarnations a) k = None" "id_value (ir_id r) = k"
    "ir_last_sequence r = 0" "ir_state r \<noteq> Fenced"
    "fcard (fmdom (as_incarnations a)) < max_incarnations_per_account limits"
  shows "account_inv limits (set_incarnation k r a)" "account_evolves a (set_incarnation k r a)"
proof -
  show ev: "account_evolves a (set_incarnation k r a)"
    using assms by (auto simp: account_evolves_def intro!: set_evolves)
  have "fcard (fmdom (fmupd k r (as_incarnations a))) \<le> Suc (fcard (fmdom (as_incarnations a)))"
    by (simp add: fcard_finsert_if)
  then show "account_inv limits (set_incarnation k r a)"
    using assms account_invD [OF assms(1)]
    by (intro account_inv_evolves [OF assms(1) ev]) (auto split: if_splits)
qed

lemma account_inv_ledger:
  assumes "account_inv limits a" "totals_ok cap t"
  shows "account_inv limits (a\<lparr>as_capacity := cap, as_totals := t\<rparr>)"
    "account_evolves a (a\<lparr>as_capacity := cap, as_totals := t\<rparr>)"
  using assms account_invD [OF assms(1)]
  by (auto simp: account_evolves_def intro!: account_inv_evolves [OF assms(1)])

lemma account_inv_flags:
  assumes "account_inv limits a"
  shows "account_inv limits (a\<lparr>as_hard_exhausted := h, as_exhaustion_cause := c\<rparr>)"
    "account_evolves a (a\<lparr>as_hard_exhausted := h, as_exhaustion_cause := c\<rparr>)"
  using assms account_invD [OF assms]
  by (auto simp: account_evolves_def intro!: account_inv_evolves [OF assms])

lemma account_inv_advance:
  assumes "account_inv limits a" "totals_ok (as_capacity a) t"
  shows "account_inv limits (demote_all (a\<lparr>as_totals := t, as_epoch := ep, as_generation := g\<rparr>))"
    "account_evolves a (demote_all (a\<lparr>as_totals := t, as_epoch := ep, as_generation := g\<rparr>))"
proof -
  show ev: "account_evolves a (demote_all (a\<lparr>as_totals := t, as_epoch := ep, as_generation := g\<rparr>))"
    by (simp add: account_evolves_def demote_all_def demote_evolves)
  show "account_inv limits (demote_all (a\<lparr>as_totals := t, as_epoch := ep, as_generation := g\<rparr>))"
    using assms account_invD [OF assms(1)]
    by (intro account_inv_evolves [OF assms(1) ev])
       (auto simp: demote_all_def demote_def split: if_splits)
qed

lemma account_inv_reconcile:
  assumes "account_inv limits a" "\<not> is_fenced a (av_incarnation (req_authority request))"
    "find_incarnation a (av_incarnation (req_authority request)) = None \<Longrightarrow>
       fcard (fmdom (as_incarnations a)) < max_incarnations_per_account limits"
  shows "account_inv limits (reconcile_incarnation request a)"
    "account_evolves a (reconcile_incarnation request a)"
proof -
  let ?i = "av_incarnation (req_authority request)"
  let ?f = "\<lambda>r. r\<lparr>ir_state := Reconciled, ir_reconciled_epoch := as_epoch a,
      ir_reconciled_generation := as_generation a, ir_reconciliation_proof := req_proof request\<rparr>"
  show "account_inv limits (reconcile_incarnation request a)"
    "account_evolves a (reconcile_incarnation request a)"
  proof (atomize (full), cases "find_incarnation a ?i")
    case None
    let ?fresh = "default_incarnation_record\<lparr>ir_id := ?i, ir_publisher := inc_publisher (req_presenter request),
        ir_boot := inc_boot (req_presenter request)\<rparr>"
    have "reconcile_incarnation request a = set_incarnation (id_value ?i) (?f ?fresh) a"
      using None by (simp add: reconcile_incarnation_def Let_def update_incarnation_def find_incarnation_def
          set_incarnation_def fmupd_fmupd)
    moreover have "fmlookup (as_incarnations a) (id_value ?i) = None"
      using None by (simp add: find_incarnation_def)
    ultimately show "account_inv limits (reconcile_incarnation request a) \<and> account_evolves a (reconcile_incarnation request a)"
      using account_inv_set_new [OF assms(1), of "id_value ?i" "?f ?fresh"] assms(3) [OF None]
      by (simp add: default_incarnation_record_def)
  next
    case (Some r)
    then have "reconcile_incarnation request a = set_incarnation (id_value ?i) (?f r) a"
      by (simp add: reconcile_incarnation_def Let_def update_incarnation_def)
    moreover have lk: "fmlookup (as_incarnations a) (id_value ?i) = Some r"
      using Some by (simp add: find_incarnation_def)
    moreover have "ir_state r \<noteq> Fenced"
      using lk assms(1,2) unfolding account_inv_def by (metis strong_id.collapse)
    ultimately show "account_inv limits (reconcile_incarnation request a) \<and> account_evolves a (reconcile_incarnation request a)"
      using account_inv_set [OF assms(1) lk, of "?f r"] by (simp add: keeps_def)
  qed
qed

lemma account_inv_fence:
  assumes "account_inv limits a" "find_incarnation a (req_target request) \<noteq> None"
    "length (as_fences a) < max_fences_per_account limits"
  shows "account_inv limits (fence_target request a)" "account_evolves a (fence_target request a)"
proof -
  let ?t = "req_target request"
  obtain r where r: "fmlookup (as_incarnations a) (id_value ?t) = Some r"
    using assms(2) by (auto simp: find_incarnation_def)
  define r' where "r' = r\<lparr>ir_state := Fenced, ir_fenced_at_sequence := req_sequence request\<rparr>"
  obtain f where f: "fence_target request a = (set_incarnation (id_value ?t) r' a)\<lparr>as_fences := as_fences a @ [f]\<rparr>"
    "fr_incarnation f = ?t"
    using r by (auto simp: fence_target_def Let_def update_incarnation_def find_incarnation_def r'_def)
  have k: "keeps r r'" by (simp add: r'_def keeps_def)
  show ev: "account_evolves a (fence_target request a)"
    using r k unfolding f(1) by (auto simp: account_evolves_def intro!: set_evolves)
  have dom: "fmdom (fmupd (id_value ?t) r' (as_incarnations a)) = fmdom (as_incarnations a)"
    using r by (simp add: finsert_absorb fmdomI)
  have fenced: "is_fenced (fence_target request a) i \<longleftrightarrow> is_fenced a i \<or> i = ?t" for i
    by (auto simp: f is_fenced_def)
  have "ir_state r' = Fenced" "ir_id r' = ir_id r" "ir_last_sequence r' = ir_last_sequence r"
    by (simp_all add: r'_def)
  moreover have "StrongId (id_value ?t) = ?t" by (cases ?t) simp
  ultimately show "account_inv limits (fence_target request a)"
    using assms(1,3) r dom fenced unfolding account_inv_def f find_incarnation_def
    by (auto simp: less_Suc_eq_le Suc_le_eq f(2) split: if_splits)
qed

subsection \<open>Admission\<close>

lemma authority_admits:
  assumes "authority_refusal e a request = None"
  shows "av_domain (req_authority request) = as_domain a"
    "av_epoch (req_authority request) = as_epoch a"
    "av_generation (req_authority request) = as_generation a"
    "req_op request = Reconcile \<Longrightarrow> \<not> is_fenced a (av_incarnation (req_authority request))"
    "req_op request = Reconcile \<Longrightarrow> find_incarnation a (av_incarnation (req_authority request)) = None \<Longrightarrow>
       fcard (fmdom (as_incarnations a)) < max_incarnations_per_account (e_limits e)"
    "req_op request \<noteq> Reconcile \<Longrightarrow>
       \<exists>r. find_incarnation a (av_incarnation (req_authority request)) = Some r \<and>
           is_live (as_epoch a) (as_generation a) r"
    "classify_op (req_op request) = ControlOp \<Longrightarrow> av_incarnation (req_authority request) = inc_id (e_operator e)"
  using assms unfolding authority_refusal_def Let_def
  by (auto split: if_splits option.splits)

lemma placement_next:
  assumes "place_attempt a request = PlNext"
  shows "window_find (as_window a) (Key (id_value (av_incarnation (req_authority request))) (req_sequence request)) = None"
    "window_find_by_attempt (as_window a) (req_attempt request) = None"
    "unat (req_sequence request) =
       (case find_incarnation a (av_incarnation (req_authority request)) of None \<Rightarrow> 0 | Some r \<Rightarrow> unat (ir_last_sequence r)) + 1"
proof -
  define w where "w = (case find_incarnation a (av_incarnation (req_authority request)) of
      None \<Rightarrow> 0 | Some r \<Rightarrow> ir_last_sequence r)"
  show "window_find (as_window a) (Key (id_value (av_incarnation (req_authority request))) (req_sequence request)) = None"
    "window_find_by_attempt (as_window a) (req_attempt request) = None"
    using assms unfolding place_attempt_def Let_def by (auto split: option.splits if_splits)
  have "\<not> req_sequence request \<le> w" "\<not> fst (add_overflow w 1)" "\<not> req_sequence request > snd (add_overflow w 1)"
    using assms unfolding place_attempt_def Let_def w_def [symmetric]
    by (auto split: option.splits if_splits prod.splits)
  then have "unat (req_sequence request) = unat w + 1"
    by (cases rule: add_overflow_cases [of w 1])
       (auto simp: word_less_nat_alt word_le_nat_alt)
  then show "unat (req_sequence request) =
       (case find_incarnation a (av_incarnation (req_authority request)) of None \<Rightarrow> 0 | Some r \<Rightarrow> unat (ir_last_sequence r)) + 1"
    by (simp add: w_def split: option.splits)
qed

text \<open>The key of an admitted attempt is new to the window, and so publishing keeps the invariant.\<close>

lemma placement_fresh:
  assumes "account_inv limits a" "place_attempt a request = PlNext"
  shows "Key (id_value (av_incarnation (req_authority request))) (req_sequence request) \<notin> set (aw_order (as_window a))"
proof
  assume "Key (id_value (av_incarnation (req_authority request))) (req_sequence request) \<in> set (aw_order (as_window a))"
  then obtain r where "fmlookup (as_incarnations a) (id_value (av_incarnation (req_authority request))) = Some r"
    "req_sequence request \<le> ir_last_sequence r"
    using assms(1) unfolding account_inv_def by (metis window_key.sel)
  then show False
    using placement_next(3) [OF assms(2)] by (simp add: find_incarnation_def word_le_nat_alt)
qed

subsection \<open>Decisions keep the invariant\<close>

lemma bind_issue_keeps: "bind_issue request r = (v, r') \<Longrightarrow> keeps r r' \<and> ir_state r' = ir_state r"
  by (auto simp: bind_issue_def Let_def keeps_def split: if_splits)

lemma decide_ledger_facts:
  assumes "account_inv limits a" "op_is_ledger (req_op request)"
  shows "decide_ledger request a = DecApply b \<Longrightarrow>
           account_inv limits b \<and> account_evolves a b \<and>
           (as_capacity b, as_totals b) =
             ledger_effect (ledger_op_of (as_config a) request) (as_capacity a, as_totals a)"
    and "decide_ledger request a = DecRefusal r i b \<Longrightarrow> b = a"
    and "decide_ledger request a \<noteq> DecRefuse r' i' b'"
proof -
  note ok = account_invD(1) [OF assms(1)]
  obtain s p where sp: "ledger_apply a request (make_plan (as_capacity a) (as_totals a)) = (s, p)" by fastforce
  show "decide_ledger request a = DecRefusal r i b \<Longrightarrow> b = a" "decide_ledger request a \<noteq> DecRefuse r' i' b'"
    using sp by (auto simp: decide_ledger_def split: if_splits)
  assume "decide_ledger request a = DecApply b"
  then have b: "b = count_committed request (a\<lparr>as_totals := p_totals p\<rparr>)" and s: "status_ok s"
    using sp by (auto simp: decide_ledger_def split: if_splits)
  have eff: "ledger_effect (ledger_op_of (as_config a) request) (as_capacity a, as_totals a) = (as_capacity a, p_totals p)"
    by (rule ledger_apply_effect [OF sp s assms(2) ok])
  then have "totals_ok (as_capacity a) (p_totals p)"
    using ledger_effect_ok [of "(as_capacity a, as_totals a)" "ledger_op_of (as_config a) request"] ok by simp
  then have "account_inv limits (a\<lparr>as_totals := p_totals p\<rparr>)" "account_evolves a (a\<lparr>as_totals := p_totals p\<rparr>)"
    using account_inv_ledger [OF assms(1), of "as_capacity a" "p_totals p"] by simp_all
  then show "account_inv limits b \<and> account_evolves a b \<and> (as_capacity b, as_totals b) =
             ledger_effect (ledger_op_of (as_config a) request) (as_capacity a, as_totals a)"
    using account_inv_count account_evolves_trans count_committed_account_evolves
    by (auto simp: b eff)
qed

definition decision_facts :: "EngineLimits \<Rightarrow> CreditRequest \<Rightarrow> AccountState \<Rightarrow> decision \<Rightarrow> bool" where
  "decision_facts limits request a d \<longleftrightarrow>
     (case d of
        DecApply b \<Rightarrow>
          account_inv limits b \<and> account_evolves a b \<and>
          (as_capacity b, as_totals b) =
            ledger_effect (ledger_op_of (as_config a) request) (as_capacity a, as_totals a)
      | DecRefusal r i b \<Rightarrow>
          account_inv limits b \<and> account_evolves a b \<and> as_capacity b = as_capacity a \<and>
          as_totals b = as_totals a \<and> as_fences b = as_fences a
      | DecRefuse r i b \<Rightarrow>
          account_inv limits b \<and> account_evolves a b \<and> as_capacity b = as_capacity a \<and>
          as_totals b = as_totals a \<and> as_fences b = as_fences a)"

lemma decide_data_facts:
  assumes "account_inv (e_limits e) a" "authority_refusal e a request = None"
    "classify_op (req_op request) = DataOp"
  shows "decision_facts (e_limits e) request a (decide_data nonce request a)"
proof (cases "req_op request = Reconcile")
  case True
  then have "account_inv (e_limits e) (reconcile_incarnation request a)"
    "account_evolves a (reconcile_incarnation request a)"
    using account_inv_reconcile [OF assms(1), of request] authority_admits [OF assms(2)] by simp_all
  then show ?thesis
    using True assms(1) account_inv_count account_evolves_trans [OF _ count_committed_account_evolves]
    by (auto simp: decide_data_def decision_facts_def ledger_effect_def ledger_op_of_def
        reconcile_incarnation_def Let_def split: option.splits)
next
  case False
  then have l: "op_is_ledger (req_op request)" using assms(3) by (simp add: data_ops)
  have ledger: "decision_facts (e_limits e) request a (decide_ledger request b)"
    if "account_inv (e_limits e) b" "account_evolves a b" "as_capacity b = as_capacity a"
      "as_totals b = as_totals a" "as_fences b = as_fences a" for b
    using decide_ledger_facts [OF that(1) l] that
    by (cases "decide_ledger request b")
       (auto simp: decision_facts_def account_evolves_def intro: inc_evolves_trans)
  obtain r where r: "find_incarnation a (av_incarnation (req_authority request)) = Some r"
    using authority_admits(6) [OF assms(2)] False by auto
  obtain v r' where v: "bind_issue request r = (v, r')" by fastforce
  have "account_inv (e_limits e) (set_incarnation (id_value (av_incarnation (req_authority request))) r' a)"
    "account_evolves a (set_incarnation (id_value (av_incarnation (req_authority request))) r' a)"
    using account_inv_set [OF assms(1), of _ r r'] r bind_issue_keeps [OF v] by (auto simp: find_incarnation_def)
  then show ?thesis
    using False l r v ledger assms(1)
    by (auto simp: decide_data_def decision_facts_def [of _ _ _ "DecRefusal _ _ _"] Let_def
        split: option.splits)
qed

lemma ctl_plan_cases:
  "(\<exists>p. r = (True, p) \<and> ctl_plan r f = CtlApplied (f p)) \<or>
   (\<exists>p. r = (False, p) \<and> ctl_plan r f = CtlDecided (reason (p_status p)) (detail (p_status p)))"
  by (cases r; cases "fst r") (auto simp: ctl_plan_def)

text \<open>A control operation that goes through the ledger plan: success has the effect of the ledger
  operation, refusal none.\<close>

definition control_facts :: "EngineLimits \<Rightarrow> CreditRequest \<Rightarrow> AccountState \<Rightarrow> control_step \<Rightarrow> bool" where
  "control_facts limits request a c \<longleftrightarrow>
     (case c of
        CtlApplied b \<Rightarrow>
          account_inv limits b \<and> account_evolves a b \<and>
          (as_capacity b, as_totals b) =
            ledger_effect (ledger_op_of (as_config a) request) (as_capacity a, as_totals a)
      | CtlDecided r i \<Rightarrow> True
      | CtlRefused r i b \<Rightarrow>
          account_inv limits b \<and> account_evolves a b \<and> as_capacity b = as_capacity a \<and>
          as_totals b = as_totals a \<and> as_fences b = as_fences a)"

lemma ctl_plan_facts:
  assumes "account_inv limits a"
    "\<And>p. r = (True, p) \<Longrightarrow>
       ledger_effect (ledger_op_of (as_config a) request) (as_capacity a, as_totals a) =
         (as_capacity (f p), as_totals (f p)) \<and>
       f p = a\<lparr>as_capacity := as_capacity (f p), as_totals := as_totals (f p)\<rparr>"
  shows "control_facts limits request a (ctl_plan r f)"
  using ctl_plan_cases [of r f]
proof (elim disjE exE conjE)
  fix p assume r: "r = (True, p)" and c: "ctl_plan r f = CtlApplied (f p)"
  have eff: "ledger_effect (ledger_op_of (as_config a) request) (as_capacity a, as_totals a) =
      (as_capacity (f p), as_totals (f p))"
    and f: "f p = a\<lparr>as_capacity := as_capacity (f p), as_totals := as_totals (f p)\<rparr>"
    using assms(2) [OF r] by blast+
  then have ok: "totals_ok (as_capacity (f p)) (as_totals (f p))"
    using ledger_effect_ok [of "(as_capacity a, as_totals a)" "ledger_op_of (as_config a) request"]
      account_invD(1) [OF assms(1)] by simp
  have "account_inv limits (f p)" "account_evolves a (f p)"
    using account_inv_ledger [OF assms(1) ok] f by metis+
  then show ?thesis by (simp add: c control_facts_def eff)
qed (simp add: control_facts_def)

lemma control_advance_facts:
  assumes "account_inv limits a" "req_op request \<in> {AdvanceEpoch, Rotate}"
  shows "control_facts limits request a (control_advance request a)"
proof -
  obtain ok p where p: "plan_quarantine_in_flight (make_plan (as_capacity a) (as_totals a)) = (ok, p)"
    by fastforce
  have op: "ledger_op_of (as_config a) request = Some L_Quarantine"
    using assms(2) by (auto simp: ledger_op_of_def)
  have "ledger_apply_op L_Quarantine (as_capacity a, as_totals a) = (as_capacity a, p_totals p)" if ok
    using plan_effect [of L_Quarantine "as_capacity a" "as_totals a" p] p that by simp
  then have eff: "ledger_effect (ledger_op_of (as_config a) request) (as_capacity a, as_totals a) =
      (as_capacity a, p_totals p)" if ok
    using that op by (simp add: ledger_effect_def)
  have ok: "totals_ok (as_capacity a) (p_totals p)" if ok
    using ledger_effect_ok [of "(as_capacity a, as_totals a)" "ledger_op_of (as_config a) request"]
      account_invD(1) [OF assms(1)] eff [OF that] by simp
  show ?thesis
    using account_inv_advance [OF assms(1) ok] p assms(1) eff
    by (auto simp: control_advance_def control_facts_def Let_def demote_all_def split: prod.splits bool.splits)
qed

lemma control_fence_facts:
  assumes "account_inv limits a" "req_op request = Fence"
  shows "control_facts limits request a (control_fence limits request a)"
proof -
  let ?t = "req_target request"
  define a1 where "a1 = (case find_incarnation a ?t of
      None \<Rightarrow> set_incarnation (id_value ?t) (default_incarnation_record\<lparr>ir_id := ?t\<rparr>) a | Some _ \<Rightarrow> a)"
  have fr: "as_capacity a1 = as_capacity a" "as_totals a1 = as_totals a" "as_fences a1 = as_fences a"
    by (simp_all add: a1_def split: option.splits)
  have found: "find_incarnation a1 ?t \<noteq> None"
    by (auto simp: a1_def find_incarnation_def split: option.splits)
  have ledger: "ledger_effect (ledger_op_of (as_config a) request) s = s" for s
    using assms(2) by (simp add: ledger_effect_def ledger_op_of_def)
  have frame: "as_capacity (fence_target request a1) = as_capacity a1" "as_totals (fence_target request a1) = as_totals a1"
    by (simp_all add: fence_target_def Let_def)
  show ?thesis
  proof (cases "find_incarnation a ?t = None \<and> fcard (fmdom (as_incarnations a)) \<ge> max_incarnations_per_account limits")
    case True
    then show ?thesis using assms(1) by (auto simp: control_fence_def control_facts_def)
  next
    case False
    have a1: "account_inv limits a1 \<and> account_evolves a a1"
    proof (cases "find_incarnation a ?t")
      case None
      then show ?thesis
        using False account_inv_set_new [OF assms(1), of "id_value ?t" "default_incarnation_record\<lparr>ir_id := ?t\<rparr>"]
        by (simp add: a1_def find_incarnation_def default_incarnation_record_def)
    qed (simp add: a1_def assms(1))
    then have "account_inv limits (fence_target request a1)" "account_evolves a (fence_target request a1)"
      if "\<not> max_fences_per_account limits \<le> length (as_fences a1)"
      using account_inv_fence [of limits a1 request] found that account_evolves_trans by (auto simp: not_le)
    then show ?thesis
      using False assms(1) a1 fr ledger frame
      by (auto simp: control_fence_def control_facts_def Let_def a1_def [symmetric] simp del: not_le)
  qed
qed

lemma control_retire_facts:
  assumes "account_inv limits a" "req_op request = RetireIncarnation"
  shows "control_facts limits request a (control_retire_incarnation request a)"
proof (cases "find_incarnation a (req_target request)")
  case (Some r)
  then show ?thesis
    using assms account_inv_set [OF assms(1), of "id_value (req_target request)" r "r\<lparr>ir_state := Retired\<rparr>"]
    by (auto simp: control_retire_incarnation_def control_facts_def ledger_effect_def ledger_op_of_def
        keeps_def find_incarnation_def)
qed (use assms in \<open>simp add: control_retire_incarnation_def control_facts_def\<close>)

lemma control_transition_facts:
  assumes "account_inv limits a"
  shows "control_facts limits request a (control_transition limits request a)"
proof -
  let ?plan = "make_plan (as_capacity a) (as_totals a)"
  have refused: "control_facts limits request a (CtlRefused r d a)" for r d
    using assms by (simp add: control_facts_def)
  have decided: "control_facts limits request a (CtlDecided r d)" for r d
    by (simp add: control_facts_def)
  have flags: "control_facts limits request a (CtlApplied (a\<lparr>as_hard_exhausted := h, as_exhaustion_cause := c\<rparr>))"
    if "ledger_op_of (as_config a) request = None" for h c
    using account_inv_flags [OF assms] that by (simp add: control_facts_def ledger_effect_def)
  have totals: "control_facts limits request a (ctl_plan (plan_step l ?plan) (\<lambda>p. a\<lparr>as_totals := p_totals p\<rparr>))"
    if "ledger_op_of (as_config a) request = Some l" "\<forall>n m g. l \<noteq> L_Set_Capacity n m g" for l
    using plan_effect [OF _ that(2)] that(1) by (intro ctl_plan_facts [OF assms]) (simp add: ledger_effect_def)
  have capacity: "control_facts limits request a
      (ctl_plan (plan_set_capacity n m g ?plan) (\<lambda>p. a\<lparr>as_capacity := p_capacity p\<rparr>))"
    if "ledger_op_of (as_config a) request = Some (L_Set_Capacity n m g)" for n m g
    using set_capacity_effect that by (intro ctl_plan_facts [OF assms]) (simp add: ledger_effect_def)
  show ?thesis
    using refused decided flags totals [of "L_Retire (req_count request)"] capacity
      totals [of "L_To_Returned (req_count request)"] totals [of "L_To_Consumed (req_count request)"]
      control_advance_facts [OF assms] control_fence_facts [OF assms] control_retire_facts [OF assms]
    by (cases "req_op request") (auto simp: control_transition_def ledger_op_of_def Let_def)
qed

lemma decide_control_facts:
  assumes "account_inv limits a"
  shows "decision_facts limits request a (decide_control limits request a)"
  using control_transition_facts [OF assms, of request] assms account_inv_count(1)
    account_evolves_trans [OF _ count_committed_account_evolves]
  by (auto simp: decide_control_def decision_facts_def control_facts_def split: control_step.splits)

lemma decide_facts:
  assumes "account_inv (e_limits e) a" "admitted e request a"
  shows "decision_facts (e_limits e) request a (decide e request a)"
proof -
  have "classify_op (req_op request) = ControlOp \<or> classify_op (req_op request) = DataOp"
    using assms(2) by (cases "req_op request") (auto simp: admitted_def)
  then show ?thesis
    using decide_control_facts [OF assms(1)] decide_data_facts [OF assms(1)] assms(2)
    by (auto simp: decide_def admitted_def)
qed

end
