(* ===== verification/Transactions.thy ===== *)
theory Transactions
  imports Decisions
begin

text \<open>
  From a decision to the state a call leaves. Publishing a decided attempt in the replay window, the
  refusal log and the exact rollback of an account keep the account invariant; the journal calls
  touch nothing a decision reads; and so \<open>apply\<close> and \<open>snapshot\<close> keep the engine invariant.
\<close>

subsection \<open>Publishing a decision\<close>

lemma publish_window_frame [simp, frame_simps]:
  "as_config (publish_window q out a) = as_config a" "as_domain (publish_window q out a) = as_domain a"
  "as_account (publish_window q out a) = as_account a" "as_epoch (publish_window q out a) = as_epoch a"
  "as_generation (publish_window q out a) = as_generation a" "as_capacity (publish_window q out a) = as_capacity a"
  "as_totals (publish_window q out a) = as_totals a" "as_fences (publish_window q out a) = as_fences a"
  "as_hard_exhausted (publish_window q out a) = as_hard_exhausted a"
  "as_exhaustion_cause (publish_window q out a) = as_exhaustion_cause a"
  "as_refusals (publish_window q out a) = as_refusals a"
  "as_refusal_cursor (publish_window q out a) = as_refusal_cursor a"
  "as_committed_attempts (publish_window q out a) = as_committed_attempts a"
  "as_refused_attempts (publish_window q out a) = as_refused_attempts a"
  by (simp_all add: publish_window_def Let_def resolve_ambiguous_def)

lemma record_refusal_frame [simp, frame_simps]:
  "as_config (record_refusal n q out a) = as_config a" "as_domain (record_refusal n q out a) = as_domain a"
  "as_account (record_refusal n q out a) = as_account a" "as_epoch (record_refusal n q out a) = as_epoch a"
  "as_generation (record_refusal n q out a) = as_generation a" "as_capacity (record_refusal n q out a) = as_capacity a"
  "as_totals (record_refusal n q out a) = as_totals a" "as_fences (record_refusal n q out a) = as_fences a"
  "as_hard_exhausted (record_refusal n q out a) = as_hard_exhausted a"
  "as_exhaustion_cause (record_refusal n q out a) = as_exhaustion_cause a"
  "as_window (record_refusal n q out a) = as_window a"
  "as_incarnations (record_refusal n q out a) = as_incarnations a"
  "as_ambiguous (record_refusal n q out a) = as_ambiguous a"
  "as_committed_attempts (record_refusal n q out a) = as_committed_attempts a"
  "as_refused_attempts (record_refusal n q out a) = as_refused_attempts a"
  by (simp_all add: record_refusal_def Let_def)

lemma publish_window_lookup:
  "fmlookup (as_incarnations (publish_window q out a)) k =
     (if k = id_value (av_incarnation (req_authority q))
      then map_option (\<lambda>r. r\<lparr>ir_last_sequence := req_sequence q\<rparr>) (fmlookup (as_incarnations a) k)
      else fmlookup (as_incarnations a) k)"
  by (simp add: publish_window_def Let_def resolve_ambiguous_def lookup_update_incarnation)

lemma card_publish_window [simp]:
  "fcard (fmdom (as_incarnations (publish_window q out a))) = fcard (fmdom (as_incarnations a))"
  by (simp add: publish_window_def Let_def resolve_ambiguous_def)

definition entry_of :: "CreditRequest \<Rightarrow> CreditOutcome \<Rightarrow> WindowEntry" where
  "entry_of request outcome =
     \<lparr>we_key = Key (id_value (av_incarnation (req_authority request))) (req_sequence request),
      we_attempt = req_attempt request, we_request = request_digest request,
      we_status = out_status outcome, we_applied = out_applied outcome, we_view = out_view outcome\<rparr>"

lemma entry_of_sel [simp]:
  "we_key (entry_of q out) = Key (id_value (av_incarnation (req_authority q))) (req_sequence q)"
  "we_attempt (entry_of q out) = req_attempt q" "we_request (entry_of q out) = request_digest q"
  "we_status (entry_of q out) = out_status out" "we_applied (entry_of q out) = out_applied out"
  by (simp_all add: entry_of_def)

lemma publish_window_window: "as_window (publish_window q out a) = window_insert (entry_of q out) (as_window a)"
  by (simp add: publish_window_def Let_def resolve_ambiguous_def entry_of_def)

lemma window_insert_keys: "set (aw_order (window_insert e w)) \<subseteq> insert (we_key e) (set (aw_order w))"
  by (auto simp: window_insert_order dest: in_set_dropD)

lemma publish_inv:
  assumes "account_inv limits b" "find_incarnation b (av_incarnation (req_authority q)) = Some r"
    "ir_last_sequence r < req_sequence q"
  shows "account_inv limits (publish_window q out b)"
proof -
  let ?i = "av_incarnation (req_authority q)" and ?p = "publish_window q out b"
  have r: "fmlookup (as_incarnations b) (id_value ?i) = Some r"
    using assms(2) by (simp add: find_incarnation_def)
  have new: "we_key (entry_of q out) \<notin> set (aw_order (as_window b))"
  proof
    assume "we_key (entry_of q out) \<in> set (aw_order (as_window b))"
    then have "\<exists>r. fmlookup (as_incarnations b) (id_value ?i) = Some r \<and> req_sequence q \<le> ir_last_sequence r"
      using assms(1) unfolding account_inv_def entry_of_sel by (metis window_key.sel)
    with r assms(3) show False by simp
  qed
  have keys: "\<exists>r. fmlookup (as_incarnations ?p) (key_incarnation key) = Some r \<and> key_sequence key \<le> ir_last_sequence r"
    if key: "key \<in> set (aw_order (as_window ?p))" for key
  proof -
    consider "key = we_key (entry_of q out)" | "key \<in> set (aw_order (as_window b))"
      using subsetD [OF window_insert_keys key [unfolded publish_window_window]] by blast
    then show ?thesis
    proof cases
      case 2
      then obtain s where "fmlookup (as_incarnations b) (key_incarnation key) = Some s"
        "key_sequence key \<le> ir_last_sequence s"
        using assms(1) unfolding account_inv_def by blast
      then show ?thesis using r assms(3) by (auto simp: publish_window_lookup)
    qed (simp add: publish_window_lookup r)
  qed
  have "window_inv (as_window ?p)"
    using window_insert_inv [OF account_invD(2) [OF assms(1)] new] by (simp add: publish_window_window)
  then show ?thesis
    using assms(1) keys unfolding account_inv_def is_fenced_def find_incarnation_def
    by (fastforce simp: publish_window_lookup split: if_splits)
qed

lemma record_refusal_inv: "account_inv limits a \<Longrightarrow> account_inv limits (record_refusal (max_refusal_log limits) q out a)"
  unfolding account_inv_def is_fenced_def find_incarnation_def
  by (auto simp: record_refusal_def Let_def)

lemma keeps_sequence: "keeps r s \<Longrightarrow> ir_last_sequence s = ir_last_sequence r"
  by (simp add: keeps_def)

lemma evolves_caller:
  assumes "account_evolves a b" "find_incarnation a i = Some r"
  shows "\<exists>s. find_incarnation b i = Some s \<and> keeps r s"
  using assms unfolding account_evolves_def inc_evolves_def find_incarnation_def by blast

text \<open>The caller's record when a decision is published: its watermark is just below the attempt.\<close>

lemma decide_caller:
  assumes "account_inv (e_limits e) a" "admitted e request a"
    "decide e request a = DecApply b \<or> decide e request a = DecRefusal r i b"
  shows "\<exists>s. find_incarnation b (av_incarnation (req_authority request)) = Some s \<and>
             unat (req_sequence request) = unat (ir_last_sequence s) + 1"
proof -
  let ?i = "av_incarnation (req_authority request)"
  have adm: "authority_refusal e a request = None" "place_attempt a request = PlNext"
    using assms(2) by (simp_all add: admitted_def)
  have ev: "account_evolves a b"
    using decide_facts [OF assms(1,2)] assms(3) by (auto simp: decision_facts_def)
  show ?thesis
  proof (cases "find_incarnation a ?i")
    case (Some r)
    then show ?thesis
      using evolves_caller [OF ev Some] placement_next(3) [OF adm(2)] by (auto dest: keeps_sequence)
  next
    case None
    then have op: "req_op request = Reconcile" using authority_admits(6) [OF adm(1)] by fastforce
    then have "b = count_committed request (reconcile_incarnation request a)"
      using assms(3) by (auto simp: decide_def decide_data_def Let_def split: if_splits)
    then obtain s where s: "find_incarnation b ?i = Some s"
      using None by (auto simp: find_incarnation_def count_committed_lookup reconcile_incarnation_def
          Let_def lookup_update_incarnation)
    moreover have "ir_last_sequence s = 0"
      using ev s None by (auto simp: account_evolves_def inc_evolves_def find_incarnation_def)
    ultimately show ?thesis using placement_next(3) [OF adm(2)] None by simp
  qed
qed

lemma decide_published:
  assumes "account_inv (e_limits e) a" "admitted e request a"
  shows "decide e request a = DecApply b \<Longrightarrow> account_inv (e_limits e) (publish_window request out b)"
    and "decide e request a = DecRefusal r i b \<Longrightarrow>
      account_inv (e_limits e)
        (record_refusal (max_refusal_log (e_limits e)) request out (publish_window request out (count_refused request b)))"
proof -
  assume d: "decide e request a = DecApply b"
  then obtain s where "find_incarnation b (av_incarnation (req_authority request)) = Some s"
    "unat (req_sequence request) = unat (ir_last_sequence s) + 1"
    using decide_caller [OF assms] by blast
  then show "account_inv (e_limits e) (publish_window request out b)"
    using publish_inv decide_facts [OF assms] d by (auto simp: decision_facts_def word_less_nat_alt)
next
  assume d: "decide e request a = DecRefusal r i b"
  then obtain s where "find_incarnation b (av_incarnation (req_authority request)) = Some s"
    "unat (req_sequence request) = unat (ir_last_sequence s) + 1"
    using decide_caller [OF assms] by blast
  moreover have "account_inv (e_limits e) (count_refused request b)"
    using account_inv_count(2) decide_facts [OF assms] d by (auto simp: decision_facts_def)
  ultimately have "account_inv (e_limits e) (publish_window request out (count_refused request b))"
    using publish_inv [of _ "count_refused request b" request]
    by (auto simp: find_incarnation_def count_refused_lookup word_less_nat_alt)
  then show "account_inv (e_limits e)
        (record_refusal (max_refusal_log (e_limits e)) request out (publish_window request out (count_refused request b)))"
    by (rule record_refusal_inv)
qed

subsection \<open>Rolling back\<close>

definition advances :: "CreditRequest \<Rightarrow> bool" where
  "advances request \<longleftrightarrow> req_op request = AdvanceEpoch \<or> req_op request = Rotate"

definition untouched :: "CreditRequest \<Rightarrow> u64 \<Rightarrow> bool" where
  "untouched request k \<longleftrightarrow> k \<noteq> id_value (av_incarnation (req_authority request)) \<and>
     \<not> (is_set (decision_subject request) \<and> k = id_value (decision_subject request))"

lemma ctl_plan_lookup:
  assumes "ctl_plan r f = CtlApplied b" "\<And>p. as_incarnations (f p) = as_incarnations a"
  shows "as_incarnations b = as_incarnations a"
  using assms by (auto simp: ctl_plan_def split: prod.splits bool.splits)

lemma control_transition_touches:
  assumes "control_transition limits request a = CtlApplied b" "k \<noteq> id_value (req_target request) \<or> \<not> is_set (req_target request)"
  shows "fmlookup (as_incarnations b) k =
           (if advances request then map_option demote (fmlookup (as_incarnations a) k)
            else fmlookup (as_incarnations a) k)"
proof -
  consider "advances request" | "req_op request = Fence" | "req_op request = RetireIncarnation"
    | "\<not> advances request" "req_op request \<noteq> Fence" "req_op request \<noteq> RetireIncarnation"
    by blast
  then show ?thesis
  proof cases
    case 1
    then have "control_advance request a = CtlApplied b"
      using assms(1) by (auto simp: advances_def control_transition_def Let_def)
    then show ?thesis
      using 1 by (simp add: control_advance_def Let_def demote_all_def split: prod.splits bool.splits if_splits)
        (use 1 in auto)
  next
    case 2
    then have "control_fence limits request a = CtlApplied b"
      using assms(1) by (simp add: control_transition_def Let_def)
    then show ?thesis
      using 2 assms(2) by (auto simp: control_fence_def fence_target_def advances_def lookup_update_incarnation
          Let_def split: if_splits option.splits)
  next
    case 3
    then have "control_retire_incarnation request a = CtlApplied b"
      using assms(1) by (simp add: control_transition_def Let_def)
    then show ?thesis
      using 3 assms(2) by (auto simp: control_retire_incarnation_def advances_def split: if_splits option.splits)
  next
    case 4
    then have "as_incarnations b = as_incarnations a"
      using assms(1)
      by (cases "req_op request")
         (auto simp: advances_def control_transition_def Let_def split: if_splits dest: ctl_plan_lookup [where a = a])
    then show ?thesis using 4 by simp
  qed
qed

lemma decide_ledger_touches:
  assumes "decide_ledger request a = DecApply b" "k \<noteq> id_value (av_incarnation (req_authority request))"
  shows "fmlookup (as_incarnations b) k = fmlookup (as_incarnations a) k"
  using assms by (auto simp: decide_ledger_def count_committed_lookup split: prod.splits if_splits)

lemma decide_touches:
  assumes "decide e request a = DecApply b" "untouched request k"
  shows "fmlookup (as_incarnations b) k =
           (if advances request then map_option demote (fmlookup (as_incarnations a) k)
            else fmlookup (as_incarnations a) k)"
proof (cases "classify_op (req_op request) = ControlOp")
  case True
  then show ?thesis
    using assms control_transition_touches [of "e_limits e" request a _ k]
    by (auto simp: decide_def decide_control_def untouched_def decision_subject_def count_committed_lookup
        split: if_splits control_step.splits)
next
  case False
  then have op: "\<not> advances request" by (auto simp: advances_def)
  have k: "k \<noteq> id_value (av_incarnation (req_authority request))"
    using assms(2) by (simp add: untouched_def)
  show ?thesis
    using assms(1) False op k
    by (auto simp: decide_def decide_data_def count_committed_lookup reconcile_incarnation_def
        lookup_update_incarnation Let_def split: if_splits option.splits prod.splits
        dest!: decide_ledger_touches)
qed

lemma put_back_frame [simp]:
  "as_config (put_back i r a) = as_config a" "as_domain (put_back i r a) = as_domain a"
  "as_account (put_back i r a) = as_account a" "as_epoch (put_back i r a) = as_epoch a"
  "as_generation (put_back i r a) = as_generation a" "as_capacity (put_back i r a) = as_capacity a"
  "as_totals (put_back i r a) = as_totals a" "as_fences (put_back i r a) = as_fences a"
  "as_hard_exhausted (put_back i r a) = as_hard_exhausted a"
  "as_exhaustion_cause (put_back i r a) = as_exhaustion_cause a" "as_window (put_back i r a) = as_window a"
  "as_ambiguous (put_back i r a) = as_ambiguous a" "as_refusals (put_back i r a) = as_refusals a"
  "as_refusal_cursor (put_back i r a) = as_refusal_cursor a"
  "as_committed_attempts (put_back i r a) = as_committed_attempts a"
  "as_refused_attempts (put_back i r a) = as_refused_attempts a"
  by (simp_all add: put_back_def split: option.splits)

lemma put_back_lookup:
  "fmlookup (as_incarnations (put_back i r a)) k = (if k = id_value i then r else fmlookup (as_incarnations a) k)"
  by (simp add: put_back_def split: option.splits)

lemma restore_backup_lookup:
  "fmlookup (as_incarnations (restore_backup (capture_backup a i t) i t b)) k =
     (if k = id_value i \<or> is_set t \<and> k = id_value t then fmlookup (as_incarnations a) k
      else fmlookup (as_incarnations b) k)"
  by (auto simp: restore_backup_def capture_backup_def Let_def put_back_lookup find_incarnation_def)

text \<open>Everything but the incarnation table comes back exactly.\<close>

lemma restore_backup_fields:
  assumes "account_evolves a b"
  shows "(restore_backup (capture_backup a i t) i t b)\<lparr>as_incarnations := as_incarnations a\<rparr> = a"
  using assms
  by (auto simp: account_evolves_def restore_backup_def capture_backup_def Let_def intro!: AccountState.equality)

lemma restore_backup_exact:
  assumes "account_evolves a b"
    "\<And>k. k \<noteq> id_value i \<Longrightarrow> \<not> (is_set t \<and> k = id_value t) \<Longrightarrow>
        fmlookup (as_incarnations b) k = fmlookup (as_incarnations a) k"
  shows "restore_backup (capture_backup a i t) i t b = a"
proof -
  let ?r = "restore_backup (capture_backup a i t) i t b"
  have "as_incarnations ?r = as_incarnations a"
    by (rule fmap_ext) (use assms(2) in \<open>auto simp: restore_backup_lookup\<close>)
  then have "?r = ?r\<lparr>as_incarnations := as_incarnations a\<rparr>"
    by (metis AccountState.surjective AccountState.update_convs(11))
  then show ?thesis using restore_backup_fields [OF assms(1)] by simp
qed

lemma restore_backup_refused:
  "restore_backup (capture_backup b (av_incarnation (req_authority request)) unset_id)
     (av_incarnation (req_authority request)) unset_id (count_refused request b) = b"
  by (rule restore_backup_exact) (auto simp: count_refused_account_evolves count_refused_lookup)

lemma unchanged_fields:
  "b\<lparr>as_incarnations := as_incarnations a\<rparr> = a \<Longrightarrow> b = a\<lparr>as_incarnations := as_incarnations b\<rparr>"
  by (metis AccountState.surjective AccountState.update_convs(11))

lemma restore_applied_inv:
  assumes "account_inv limits a" "account_evolves a b"
    "\<And>k. untouched request k \<Longrightarrow> fmlookup (as_incarnations b) k =
           (if advances request then map_option demote (fmlookup (as_incarnations a) k)
            else fmlookup (as_incarnations a) k)"
  defines "r \<equiv> restore_backup (capture_backup a (av_incarnation (req_authority request)) (decision_subject request))
      (av_incarnation (req_authority request)) (decision_subject request) b"
  shows "account_inv limits r" "r = a\<lparr>as_incarnations := as_incarnations r\<rparr>"
proof -
  have lk: "fmlookup (as_incarnations r) k = fmlookup (as_incarnations a) k \<or>
      fmlookup (as_incarnations r) k = map_option demote (fmlookup (as_incarnations a) k)" for k
    using assms(3) [of k] by (auto simp: r_def restore_backup_lookup untouched_def)
  show r: "r = a\<lparr>as_incarnations := as_incarnations r\<rparr>"
    using unchanged_fields [OF restore_backup_fields [OF assms(2)]] unfolding r_def .
  have "inc_evolves (as_incarnations a) (as_incarnations r)"
    using lk demote_keeps unfolding inc_evolves_def by (metis keeps_refl option.map(1,2) option.distinct(1))
  moreover have "fmdom (as_incarnations r) = fmdom (as_incarnations a)"
  proof (rule fset_eqI)
    fix k show "k |\<in>| fmdom (as_incarnations r) \<longleftrightarrow> k |\<in>| fmdom (as_incarnations a)"
      using lk [of k] by (cases "fmlookup (as_incarnations a) k") (auto simp: fmlookup_dom_iff)
  qed
  moreover have "ir_state s = Fenced \<Longrightarrow> \<exists>s'. fmlookup (as_incarnations a) k = Some s' \<and> ir_state s' = Fenced"
    if "fmlookup (as_incarnations r) k = Some s" for k s
    using lk [of k] that by (cases "fmlookup (as_incarnations a) k") (auto simp: demote_def split: if_splits)
  moreover have "as_config r = as_config a" "as_domain r = as_domain a" "as_account r = as_account a"
    "as_window r = as_window a" "as_ambiguous r = as_ambiguous a" "as_refusals r = as_refusals a"
    "as_refusal_cursor r = as_refusal_cursor a" "as_fences r = as_fences a" "as_capacity r = as_capacity a"
    "as_totals r = as_totals a"
    by (subst r, simp)+
  ultimately show "account_inv limits r"
    using account_invD [OF assms(1)]
    by (intro account_inv_evolves [OF assms(1)]) (auto simp: account_evolves_def)
qed

subsection \<open>What the journal calls leave alone\<close>

definition same_decisions :: "'j engine \<Rightarrow> 'j engine \<Rightarrow> bool" where
  "same_decisions e e' \<longleftrightarrow>
     e_limits e' = e_limits e \<and> e_operator e' = e_operator e \<and> e_challenge e' = e_challenge e \<and>
     e_accounts e' = e_accounts e \<and> e_recovered e' = e_recovered e \<and>
     e_journal_failed e' = e_journal_failed e \<and>
     st_attempts_applied (e_stats e') = st_attempts_applied (e_stats e) \<and>
     st_attempts_refused (e_stats e') = st_attempts_refused (e_stats e)"

lemma same_decisions_refl [simp]: "same_decisions e e"
  by (simp add: same_decisions_def)

lemma same_decisions_trans: "same_decisions e f \<Longrightarrow> same_decisions f g \<Longrightarrow> same_decisions e g"
  by (simp add: same_decisions_def)

lemma with_journal_same: "with_journal f e = (s, e') \<Longrightarrow> same_decisions e e'"
  by (auto simp: with_journal_def same_decisions_def split: prod.splits)

lemma snapshot_locked_same:
  assumes "snapshot_locked jops e = (s, e')" shows "same_decisions e e'"
  using assms
  by (auto simp: snapshot_locked_def with_journal_def same_decisions_def Let_def
      split: prod.splits sum.splits if_splits)

lemma persist_locked_same:
  assumes "persist_locked jops request outcome account created e = (s, e')"
  shows "same_decisions e e'"
  using assms
  by (auto simp: persist_locked_def with_journal_def Let_def
      split: prod.splits sum.splits if_splits
      dest!: snapshot_locked_same) (auto simp: same_decisions_def)

lemma put_account_frame [simp, frame_simps]:
  "e_limits (put_account k a e) = e_limits e" "e_operator (put_account k a e) = e_operator e"
  "e_challenge (put_account k a e) = e_challenge e" "e_recovered (put_account k a e) = e_recovered e"
  "e_journal_failed (put_account k a e) = e_journal_failed e" "e_stats (put_account k a e) = e_stats e"
  "e_journal (put_account k a e) = e_journal e" "e_next_sequence (put_account k a e) = e_next_sequence e"
  "e_chain (put_account k a e) = e_chain e" "e_journal_records (put_account k a e) = e_journal_records e"
  "e_snapshots (put_account k a e) = e_snapshots e"
  "e_accounts (put_account k a e) = fmupd k a (e_accounts e)"
  by (simp_all add: put_account_def)

lemma bump_frame [simp, frame_simps]:
  "e_limits (bump_applied e) = e_limits e" "e_operator (bump_applied e) = e_operator e"
  "e_challenge (bump_applied e) = e_challenge e" "e_recovered (bump_applied e) = e_recovered e"
  "e_journal_failed (bump_applied e) = e_journal_failed e" "e_accounts (bump_applied e) = e_accounts e"
  "e_journal (bump_applied e) = e_journal e"
  "e_limits (bump_refused e) = e_limits e" "e_operator (bump_refused e) = e_operator e"
  "e_challenge (bump_refused e) = e_challenge e" "e_recovered (bump_refused e) = e_recovered e"
  "e_journal_failed (bump_refused e) = e_journal_failed e" "e_accounts (bump_refused e) = e_accounts e"
  "e_journal (bump_refused e) = e_journal e"
  by (simp_all add: bump_applied_def bump_refused_def)

subsection \<open>What a call does to the accounts\<close>

text \<open>The account an enacted decision leaves, when the journal accepts it and when it does not.\<close>

definition published :: "'j engine \<Rightarrow> CreditRequest \<Rightarrow> CreditOutcome \<Rightarrow> decision \<Rightarrow> AccountState" where
  "published e request outcome d =
     (case d of
        DecRefuse r i b \<Rightarrow> b
      | DecRefusal r i b \<Rightarrow>
          record_refusal (max_refusal_log (e_limits e)) request outcome
            (publish_window request outcome (count_refused request b))
      | DecApply b \<Rightarrow> publish_window request outcome b)"

definition rolled_back :: "CreditRequest \<Rightarrow> AccountState \<Rightarrow> decision \<Rightarrow> AccountState" where
  "rolled_back request a d =
     (case d of
        DecRefuse r i b \<Rightarrow> b
      | DecRefusal r i b \<Rightarrow> b
      | DecApply b \<Rightarrow>
          restore_backup
            (capture_backup a (av_incarnation (req_authority request)) (decision_subject request))
            (av_incarnation (req_authority request)) (decision_subject request) b)"

lemma enact_effect:
  assumes "enact jops key request outcome a e d = (outcome', e')" "\<not> e_journal_failed e"
  shows "e_limits e' = e_limits e \<and> e_operator e' = e_operator e \<and> e_challenge e' = e_challenge e \<and>
         e_recovered e' = e_recovered e"
    and "\<not> e_journal_failed e' \<Longrightarrow> e_accounts e' = fmupd key (published e request outcome' d) (e_accounts e)"
    and "e_journal_failed e' \<Longrightarrow> e_accounts e' = fmupd key (rolled_back request a d) (e_accounts e) \<and>
           \<not> out_applied outcome' \<and> \<not> out_decided outcome'"
    and "out_applied outcome' \<Longrightarrow> \<not> out_applied outcome \<Longrightarrow>
           \<not> e_journal_failed e' \<and> (\<exists>b. d = DecApply b) \<and> out_decided outcome' \<and> out_status outcome' = success"
proof -
  show "e_limits e' = e_limits e \<and> e_operator e' = e_operator e \<and> e_challenge e' = e_challenge e \<and>
         e_recovered e' = e_recovered e"
    "\<not> e_journal_failed e' \<Longrightarrow> e_accounts e' = fmupd key (published e request outcome' d) (e_accounts e)"
    "e_journal_failed e' \<Longrightarrow> e_accounts e' = fmupd key (rolled_back request a d) (e_accounts e) \<and>
           \<not> out_applied outcome' \<and> \<not> out_decided outcome'"
    "out_applied outcome' \<Longrightarrow> \<not> out_applied outcome \<Longrightarrow>
           \<not> e_journal_failed e' \<and> (\<exists>b. d = DecApply b) \<and> out_decided outcome' \<and> out_status outcome' = success"
    using assms
    by (cases d; auto simp: enact_def published_def rolled_back_def finish_decided_def commit_applied_def
        restore_backup_refused persist_failure_def refuse_outcome_def decided_refusal_def
        Let_def fmupd_fmupd same_decisions_def split: prod.splits if_splits dest!: persist_locked_same)+
qed

subsection \<open>The engine invariant\<close>

definition engine_inv :: "'j engine \<Rightarrow> bool" where
  "engine_inv e \<longleftrightarrow>
     (\<forall>k a. fmlookup (e_accounts e) k = Some a \<longrightarrow>
        account_inv (e_limits e) a \<and> id_value (as_account a) = k \<and>
        aw_limit (as_window a) = max_attempt_window (e_limits e)) \<and>
     fcard (fmdom (e_accounts e)) \<le> max_accounts (e_limits e) \<and>
     clamp_limits (e_limits e) = e_limits e"

lemma clamp_idem: "clamp_limits (clamp_limits l) = clamp_limits l"
  by (simp add: clamp_limits_def at_least_def)

lemma clamped_positive:
  assumes "clamp_limits l = l"
  shows "0 < max_attempt_window l" "0 < max_incarnations_per_account l" "0 < max_fences_per_account l"
    "0 < max_accounts l"
proof -
  have "max_attempt_window (clamp_limits l) > 0" "max_incarnations_per_account (clamp_limits l) > 0"
    "max_fences_per_account (clamp_limits l) > 0" "max_accounts (clamp_limits l) > 0"
    by (simp_all add: clamp_limits_def at_least_def)
  with assms show "0 < max_attempt_window l" "0 < max_incarnations_per_account l" "0 < max_fences_per_account l"
    "0 < max_accounts l" by simp_all
qed

lemma make_engine_inv: "engine_inv (make_engine limits j i nonce)"
  by (simp add: engine_inv_def make_engine_def clamp_idem fcard_fempty)

lemma zero_totals_ok: "totals_ok cap zero_totals"
  by (simp add: totals_ok_def in_flight_nat_def zero_totals_def)

lemma open_account_inv:
  assumes "clamp_limits limits = limits"
  shows "account_inv limits (open_account (max_attempt_window limits) request)"
  using clamped_positive [OF assms]
  by (auto simp: account_inv_def open_account_def make_account_def opener_record_def make_window_inv
      zero_totals_ok is_fenced_def Let_def default_incarnation_record_def fcard_finsert_if fcard_fempty)
     (simp_all add: make_window_def)

lemma open_account_frame [simp]:
  "as_account (open_account n request) = cfg_account (req_config request)"
  "as_config (open_account n request) = req_config request"
  "as_capacity (open_account n request) = cfg_capacity (req_config request)"
  "as_totals (open_account n request) = zero_totals"
  "as_fences (open_account n request) = []"
  "aw_order (as_window (open_account n request)) = []"
  by (simp_all add: open_account_def make_account_def make_window_def Let_def)

lemma open_account_limit [simp]: "0 < n \<Longrightarrow> aw_limit (as_window (open_account n request)) = n"
  by (simp add: open_account_def make_account_def make_window_def Let_def)

lemma open_account_caller:
  "\<exists>r. find_incarnation (open_account n request) (av_incarnation (req_authority request)) = Some r \<and>
       ir_last_sequence r = 0"
  by (simp add: open_account_def find_incarnation_def Let_def opener_record_def default_incarnation_record_def)

text \<open>The refusals of an opening request, and what it does when there is none.\<close>

definition open_refusal :: "'j engine \<Rightarrow> CreditRequest \<Rightarrow> (Reason \<times> u64) option" where
  "open_refusal e request =
     (let authority = req_authority request; config = req_config request in
      if fmlookup (e_accounts e) (id_value (av_account authority)) \<noteq> None
      then Some (AccountExists, id_value (av_account authority))
      else if cfg_domain config \<noteq> av_domain authority \<or> cfg_account config \<noteq> av_account authority
      then Some (DomainMismatch, 3)
      else if \<not> is_set (cfg_resource config) then Some (ResourceMismatch, 1)
      else if id_value (av_epoch authority) \<noteq> 1 \<or> id_value (av_generation authority) \<noteq> 1
      then Some (StaleAuthority, 1)
      else if cfg_capacity config = 0 \<or> cfg_max_capacity config < cfg_capacity config
      then Some (CapacityOutOfRange, cfg_capacity config)
      else if cfg_profile config = PhysicalValidated
      then Some (ProfileNotSupported, of_nat (profile_value (cfg_profile config)))
      else if min_issue (cfg_rules config) = 0 \<or>
              max_issue_per_attempt (cfg_rules config) < min_issue (cfg_rules config)
      then Some (PolicyRefused, 1)
      else if fcard (fmdom (e_accounts e)) \<ge> max_accounts (e_limits e)
      then Some (BudgetExceeded, of_nat (fcard (fmdom (e_accounts e))))
      else if req_sequence request \<noteq> 1 then Some (SequenceGap, 1)
      else if \<not> challenge_verify (e_challenge e) (req_presenter request) authority (req_proof request)
      then Some (ReconciliationRequired, 4)
      else None)"

definition open_outcome :: "CreditRequest \<Rightarrow> CreditOutcome \<Rightarrow> AccountState \<Rightarrow> CreditOutcome" where
  "open_outcome request outcome a =
     outcome\<lparr>out_applied := True, out_decided := True, out_status := success,
             out_view := account_view a, out_state_digest := account_digest a\<rparr>"

definition open_commit ::
  "'j journal_ops \<Rightarrow> CreditRequest \<Rightarrow> CreditOutcome \<Rightarrow> AccountState \<Rightarrow> 'j engine \<Rightarrow> CreditOutcome \<times> 'j engine" where
  "open_commit jops request d a e =
     (case persist_locked jops request d (Some a) True (put_account (id_value (as_account a)) a e) of
        (s, e1) \<Rightarrow>
          if \<not> status_ok s then
            (persist_failure d s,
             e1\<lparr>e_accounts := fmdrop (id_value (as_account a)) (e_accounts e1), e_journal_failed := True\<rparr>)
          else (d, bump_applied (put_account (id_value (as_account a)) (publish_window request d a) e1)))"

lemma create_account_locked_alt:
  "create_account_locked jops request outcome e =
     (case open_refusal e request of
        Some (r, i) \<Rightarrow> (refuse_outcome outcome r i, e)
      | None \<Rightarrow>
          let a = open_account (max_attempt_window (e_limits e)) request
          in open_commit jops request (open_outcome request outcome a) a e)"
proof -
  define y where "y = (let a = open_account (max_attempt_window (e_limits e)) request
          in open_commit jops request (open_outcome request outcome a) a e)"
  show ?thesis
    unfolding create_account_locked_def open_refusal_def Let_def
      y_def [unfolded open_commit_def open_outcome_def Let_def, symmetric]
      y_def [unfolded Let_def, symmetric]
    by simp
qed

lemma open_admits:
  assumes "open_refusal e request = None"
  shows "fmlookup (e_accounts e) (request_key request) = None"
    "cfg_account (req_config request) = av_account (req_authority request)"
    "fcard (fmdom (e_accounts e)) < max_accounts (e_limits e)" "req_sequence request = 1"
    "challenge_verify (e_challenge e) (req_presenter request) (req_authority request) (req_proof request)"
  using assms by (auto simp: open_refusal_def request_key_def Let_def split: if_splits)

text \<open>Opening either changes no account, or adds the fresh published one under a free key.\<close>

lemma create_account_cases [consumes 2, case_names unchanged created]:
  assumes "create_account_locked jops request (initial_outcome request) e = (outcome, e')" "\<not> e_journal_failed e"
  obtains "e_accounts e' = e_accounts e" "\<not> out_applied outcome" "\<not> out_decided outcome"
      "e_limits e' = e_limits e" "e_operator e' = e_operator e" "e_challenge e' = e_challenge e"
      "e_recovered e' = e_recovered e"
  | "fmlookup (e_accounts e) (request_key request) = None" "out_applied outcome" "out_decided outcome"
      "out_status outcome = success"
      "fcard (fmdom (e_accounts e)) < max_accounts (e_limits e)" "req_sequence request = 1"
      "cfg_account (req_config request) = av_account (req_authority request)"
      "challenge_verify (e_challenge e) (req_presenter request) (req_authority request) (req_proof request)"
      "e_accounts e' = fmupd (request_key request)
         (publish_window request outcome (open_account (max_attempt_window (e_limits e)) request)) (e_accounts e)"
      "e_limits e' = e_limits e" "e_operator e' = e_operator e" "e_challenge e' = e_challenge e"
      "e_recovered e' = e_recovered e" "\<not> e_journal_failed e'"
proof (cases "open_refusal e request")
  case None
  define a where "a = open_account (max_attempt_window (e_limits e)) request"
  define d where "d = open_outcome request (initial_outcome request) a"
  obtain s e1 where p: "persist_locked jops request d (Some a) True (put_account (id_value (as_account a)) a e) = (s, e1)"
    by fastforce
  note same = persist_locked_same [OF p] and adm = open_admits [OF None]
  have key: "id_value (as_account a) = request_key request"
    using adm(2) by (simp add: a_def request_key_def)
  have new: "fmdrop (request_key request) (fmupd (request_key request) a (e_accounts e)) = e_accounts e"
    using adm(1) by (intro fmap_ext) auto
  have d: "out_applied d" "out_decided d" "out_status d = success" by (simp_all add: d_def open_outcome_def)
  have result: "(outcome, e') = (if \<not> status_ok s
      then (persist_failure d s, e1\<lparr>e_accounts := fmdrop (request_key request) (e_accounts e1), e_journal_failed := True\<rparr>)
      else (d, bump_applied (put_account (request_key request) (publish_window request d a) e1)))"
  proof -
    have "open_commit jops request d a e = (outcome, e')"
      using assms(1) None unfolding create_account_locked_alt Let_def d_def a_def by simp
    then show ?thesis using p unfolding open_commit_def key by simp
  qed
  show thesis
  proof (cases "status_ok s")
    case True
    then show thesis
      using that(2) adm d same result assms(2) key by (simp add: same_decisions_def fmupd_fmupd a_def)
  next
    case False
    then show thesis
      using that(1) same result new key by (simp add: same_decisions_def persist_failure_def)
  qed
next
  case (Some w)
  then show thesis
    using that(1) assms(1)
    by (cases w) (auto simp: create_account_locked_alt refuse_outcome_def initial_outcome_def default_outcome_def)
qed

lemma engine_invD:
  assumes "engine_inv e" "fmlookup (e_accounts e) k = Some a"
  shows "account_inv (e_limits e) a" "id_value (as_account a) = k"
    "aw_limit (as_window a) = max_attempt_window (e_limits e)"
  using assms by (auto simp: engine_inv_def)

lemma evolves_frame:
  assumes "account_evolves a b"
  shows "as_config b = as_config a" "as_account b = as_account a" "as_domain b = as_domain a"
    "as_window b = as_window a" "as_ambiguous b = as_ambiguous a" "as_refusals b = as_refusals a"
  using assms by (simp_all add: account_evolves_def)

text \<open>What every enacted decision keeps, whether the journal took it or not.\<close>

lemma published_facts:
  assumes "account_inv (e_limits e) a" "admitted e request a"
  defines "d \<equiv> decide e request a"
  shows "account_inv (e_limits e) (published e request outcome d)"
    "as_account (published e request outcome d) = as_account a"
    "as_config (published e request outcome d) = as_config a"
    "aw_limit (as_window (published e request outcome d)) = aw_limit (as_window a)"
proof -
  have f: "decision_facts (e_limits e) request a d"
    using decide_facts [OF assms(1,2)] by (simp add: d_def)
  show "account_inv (e_limits e) (published e request outcome d)"
    using f decide_published [OF assms(1,2)] unfolding d_def
    by (cases "decide e request a") (auto simp: published_def decision_facts_def)
  show "as_account (published e request outcome d) = as_account a"
    "as_config (published e request outcome d) = as_config a"
    "aw_limit (as_window (published e request outcome d)) = aw_limit (as_window a)"
    using f by (cases d; auto simp: published_def decision_facts_def publish_window_window dest: evolves_frame)+
qed

lemma rolled_back_facts:
  assumes "account_inv (e_limits e) a" "admitted e request a"
  defines "d \<equiv> decide e request a"
  shows "account_inv (e_limits e) (rolled_back request a d)"
    "as_account (rolled_back request a d) = as_account a"
    "as_config (rolled_back request a d) = as_config a"
    "as_window (rolled_back request a d) = as_window a"
    "as_capacity (rolled_back request a d) = as_capacity a"
    "as_totals (rolled_back request a d) = as_totals a"
    "as_fences (rolled_back request a d) = as_fences a"
proof -
  have f: "decision_facts (e_limits e) request a d"
    using decide_facts [OF assms(1,2)] by (simp add: d_def)
  have *: "account_inv (e_limits e) (rolled_back request a d) \<and>
      as_account (rolled_back request a d) = as_account a \<and>
      as_config (rolled_back request a d) = as_config a \<and>
      as_window (rolled_back request a d) = as_window a \<and>
      as_capacity (rolled_back request a d) = as_capacity a \<and>
      as_totals (rolled_back request a d) = as_totals a \<and>
      as_fences (rolled_back request a d) = as_fences a"
  proof (cases d)
    case (DecApply b)
    then have ev: "account_evolves a b" using f by (simp add: decision_facts_def)
    let ?r = "rolled_back request a d"
    have r: "?r = restore_backup
            (capture_backup a (av_incarnation (req_authority request)) (decision_subject request))
            (av_incarnation (req_authority request)) (decision_subject request) b"
      by (simp add: rolled_back_def DecApply)
    have "account_inv (e_limits e) ?r" "?r = a\<lparr>as_incarnations := as_incarnations ?r\<rparr>"
      using restore_applied_inv [OF assms(1) ev] decide_touches [of e request a b] DecApply
      unfolding d_def [symmetric] r by blast+
    then show ?thesis
      by (metis AccountState.select_convs(1,3,6,7,10,12) AccountState.surjective AccountState.update_convs(11))
  qed (use f in \<open>auto simp: rolled_back_def decision_facts_def dest: evolves_frame\<close>)
  then show "account_inv (e_limits e) (rolled_back request a d)"
    "as_account (rolled_back request a d) = as_account a"
    "as_config (rolled_back request a d) = as_config a"
    "as_window (rolled_back request a d) = as_window a"
    "as_capacity (rolled_back request a d) = as_capacity a"
    "as_totals (rolled_back request a d) = as_totals a"
    "as_fences (rolled_back request a d) = as_fences a"
    by blast+
qed

lemma engine_inv_put:
  assumes "engine_inv e" "e_limits e' = e_limits e" "e_accounts e' = fmupd k a (e_accounts e)"
    "account_inv (e_limits e) a" "id_value (as_account a) = k"
    "aw_limit (as_window a) = max_attempt_window (e_limits e)"
    "fmlookup (e_accounts e) k \<noteq> None \<or> fcard (fmdom (e_accounts e)) < max_accounts (e_limits e)"
  shows "engine_inv e'"
proof -
  have "fcard (fmdom (e_accounts e')) \<le> max_accounts (e_limits e)"
    using assms(1,3,7) by (auto simp: engine_inv_def fcard_finsert_if fmlookup_dom_iff)
  then show ?thesis using assms unfolding engine_inv_def by auto
qed

lemma engine_inv_same:
  "engine_inv e \<Longrightarrow> e_limits e' = e_limits e \<Longrightarrow> e_accounts e' = e_accounts e \<Longrightarrow> engine_inv e'"
  by (simp add: engine_inv_def)

lemma enact_inv:
  assumes "engine_inv e" "admitted e request a"
    "enact jops (request_key request) request outcome0 a e (decide e request a) = (outcome, e')"
  shows "engine_inv e'"
proof -
  have lk: "fmlookup (e_accounts e) (request_key request) = Some a" "\<not> e_journal_failed e"
    using assms(2) by (simp_all add: admitted_def)
  note a = engine_invD [OF assms(1) lk(1)]
  note eff = enact_effect [OF assms(3) lk(2)]
  show ?thesis
  proof (cases "e_journal_failed e'")
    case True
    then show ?thesis
      using eff rolled_back_facts [OF a(1) assms(2)] a lk
      by (intro engine_inv_put [OF assms(1), of e' "request_key request" "rolled_back request a (decide e request a)"]) simp_all
  next
    case False
    then show ?thesis
      using eff published_facts [OF a(1) assms(2)] a lk
      by (intro engine_inv_put [OF assms(1), of e' "request_key request"
            "published e request outcome (decide e request a)"]) simp_all
  qed
qed

lemma create_inv:
  assumes "engine_inv e" "\<not> e_journal_failed e"
    "create_account_locked jops request (initial_outcome request) e = (outcome, e')"
  shows "engine_inv e'"
  using assms(3,2)
proof (cases rule: create_account_cases)
  case unchanged
  then show ?thesis using assms(1) by (simp add: engine_inv_same)
next
  case created
  let ?a = "open_account (max_attempt_window (e_limits e)) request"
  have lim: "clamp_limits (e_limits e) = e_limits e" using assms(1) by (simp add: engine_inv_def)
  obtain r where "find_incarnation ?a (av_incarnation (req_authority request)) = Some r" "ir_last_sequence r = 0"
    using open_account_caller by blast
  then have "account_inv (e_limits e) (publish_window request outcome ?a)"
    using publish_inv [OF open_account_inv [OF lim]] created(6) by simp
  then show ?thesis
    using created clamped_positive(1) [OF lim]
    by (intro engine_inv_put [OF assms(1), of e' "request_key request" "publish_window request outcome ?a"])
       (simp_all add: publish_window_window request_key_def)
qed

lemma apply_keeps_inv:
  assumes "engine_inv e" "apply_request jops request e = (outcome, e')"
  shows "engine_inv e'"
  using assms(2)
proof (cases rule: apply_request_cases)
  case quiet
  then show ?thesis using assms(1) by (metis engine.select_convs(1,5) engine.surjective engine.update_convs(10) engine_inv_same)
qed (use assms(1) in \<open>auto intro: create_inv enact_inv\<close>)

lemma snapshot_keeps_inv:
  assumes "engine_inv e" "snapshot jops e = (s, e')"
  shows "engine_inv e'"
  using assms snapshot_locked_same [of jops e s e']
  by (auto simp: snapshot_def same_decisions_def intro: engine_inv_same split: if_splits)

end
