(* ===== verification/Runs.thy ===== *)
theory Runs
  imports Transactions
begin

text \<open>
  Histories of the engine. The seven ways a call can end (\<open>apply_cases\<close>), runs as sequences of the
  calls the mutex serialised, the ledger of an account as the fold of the acknowledged requests, the
  progress of watermarks and fences, and the memory of recent attempts; a journal with room accepts
  every decision; and an example engine the witnesses run on.
\<close>

subsection \<open>The outcomes of a call\<close>

lemma enact_outcome:
  assumes "enact jops key request outcome a e d = (outcome', e')" "\<not> e_journal_failed e"
    "\<not> out_applied outcome" "\<not> out_decided outcome"
  shows "d = DecRefuse r i b \<Longrightarrow> \<not> e_journal_failed e' \<and> \<not> out_applied outcome' \<and> \<not> out_decided outcome' \<and>
           out_status outcome' = refused r i"
    and "d = DecRefusal r i b \<Longrightarrow> \<not> e_journal_failed e' \<Longrightarrow>
           \<not> out_applied outcome' \<and> out_decided outcome' \<and> out_status outcome' = refused r i \<and>
           out_duplicate outcome' = out_duplicate outcome"
    and "d = DecApply b \<Longrightarrow> \<not> e_journal_failed e' \<Longrightarrow>
           out_applied outcome' \<and> out_decided outcome' \<and> out_status outcome' = success \<and>
           out_duplicate outcome' = out_duplicate outcome \<and> out_state_digest outcome' = account_digest b \<and>
           out_view outcome' = account_view b"
    and "e_journal_failed e' \<Longrightarrow> \<not> status_ok (out_status outcome') \<and> (\<forall>r i b. d \<noteq> DecRefuse r i b)"
  using assms
  by (cases d; auto simp: enact_def finish_decided_def commit_applied_def persist_failure_def
      refuse_outcome_def decided_refusal_def Let_def same_decisions_def split: prod.splits if_splits
      dest!: persist_locked_same)+

lemma bound_outcome_flags [simp]:
  "\<not> out_applied (bind_outcome a (initial_outcome request))"
  "\<not> out_decided (bind_outcome a (initial_outcome request))"
  "\<not> out_duplicate (bind_outcome a (initial_outcome request))"
  by (simp_all add: bind_outcome_def initial_outcome_def default_outcome_def)

definition frame_kept :: "'j engine \<Rightarrow> 'j engine \<Rightarrow> bool" where
  "frame_kept e e' \<longleftrightarrow> e_limits e' = e_limits e \<and> e_operator e' = e_operator e \<and>
     e_challenge e' = e_challenge e \<and> e_recovered e' = e_recovered e"

text \<open>The seven ways a call can end, with the account it leaves and the flags it reports.\<close>

lemma apply_cases [consumes 1, case_names quiet unopened opened declined rejected applied failed]:
  assumes "apply_request jops request e = (outcome, e')"
  obtains "e' = e\<lparr>e_stats := e_stats e'\<rparr>" "\<not> out_applied outcome" "\<nexists>a. admitted e request a"
      "out_decided outcome \<Longrightarrow> out_duplicate outcome \<or> reason (out_status outcome) = AttemptConflict"
  | "req_op request = Open" "e_accounts e' = e_accounts e" "frame_kept e e'" "\<not> out_applied outcome"
      "\<not> out_decided outcome" "\<not> e_journal_failed e"
  | "req_op request = Open" "fmlookup (e_accounts e) (request_key request) = None"
      "fcard (fmdom (e_accounts e)) < max_accounts (e_limits e)" "req_sequence request = 1"
      "cfg_account (req_config request) = av_account (req_authority request)"
      "challenge_verify (e_challenge e) (req_presenter request) (req_authority request) (req_proof request)"
      "out_applied outcome" "out_decided outcome" "out_status outcome = success"
      "e_accounts e' = fmupd (request_key request)
         (publish_window request outcome (open_account (max_attempt_window (e_limits e)) request)) (e_accounts e)"
      "frame_kept e e'" "\<not> e_journal_failed e'" "\<not> e_journal_failed e"
  | a r i b where "admitted e request a" "decide e request a = DecRefuse r i b"
      "e_accounts e' = fmupd (request_key request) b (e_accounts e)" "frame_kept e e'"
      "\<not> out_applied outcome" "\<not> out_decided outcome" "\<not> e_journal_failed e'"
  | a r i b where "admitted e request a" "decide e request a = DecRefusal r i b"
      "e_accounts e' = fmupd (request_key request)
         (record_refusal (max_refusal_log (e_limits e)) request outcome
            (publish_window request outcome (count_refused request b))) (e_accounts e)" "frame_kept e e'"
      "\<not> out_applied outcome" "out_decided outcome" "\<not> out_duplicate outcome"
      "out_status outcome = refused r i" "\<not> e_journal_failed e'"
  | a b where "admitted e request a" "decide e request a = DecApply b"
      "e_accounts e' = fmupd (request_key request) (publish_window request outcome b) (e_accounts e)"
      "frame_kept e e'" "out_applied outcome" "out_decided outcome" "\<not> out_duplicate outcome"
      "out_status outcome = success" "\<not> e_journal_failed e'" "out_state_digest outcome = account_digest b"
      "out_view outcome = account_view b"
  | a where "admitted e request a" "\<forall>r i b. decide e request a \<noteq> DecRefuse r i b"
      "e_accounts e' = fmupd (request_key request) (rolled_back request a (decide e request a)) (e_accounts e)"
      "frame_kept e e'" "\<not> out_applied outcome" "\<not> out_decided outcome" "\<not> status_ok (out_status outcome)"
      "\<not> e_journal_failed e" "e_journal_failed e'"
  using assms
proof (cases rule: apply_request_cases)
  case quiet
  then show ?thesis using that(1) by blast
next
  case opened
  from opened(5,2) show ?thesis
  proof (cases rule: create_account_cases)
    case unchanged
    with opened show ?thesis by (intro that(2)) (simp_all add: frame_kept_def)
  next
    case created
    with opened show ?thesis by (intro that(3)) (simp_all add: frame_kept_def)
  qed
next
  case (decided a)
  have ok: "\<not> e_journal_failed e" using decided(1) by (simp add: admitted_def)
  note eff = enact_effect [OF decided(2) ok]
    and out = enact_outcome [OF decided(2) ok bound_outcome_flags(1,2)]
  have fr: "frame_kept e e'" using eff(1) by (simp add: frame_kept_def)
  show ?thesis
  proof (cases "e_journal_failed e'")
    case True
    then show ?thesis using eff(3) out(4) decided(1) fr ok by (intro that(7)) simp_all
  next
    case False
    note acc = eff(2) [OF False]
    show ?thesis
    proof (cases "decide e request a")
      case (DecRefuse r i b)
      then show ?thesis using out(1) acc decided(1) fr by (intro that(4)) (simp_all add: published_def)
    next
      case (DecRefusal r i b)
      then show ?thesis using out(2) False acc decided(1) fr by (intro that(5)) (simp_all add: published_def)
    next
      case (DecApply b)
      then show ?thesis using out(3) False acc decided(1) fr by (intro that(6)) (simp_all add: published_def)
    qed
  qed
qed

subsection \<open>Runs\<close>

text \<open>A run is the sequence of calls the engine's mutex serialised, with what they returned.\<close>

datatype call = CallApply CreditRequest CreditOutcome | CallSnapshot Status

inductive engine_step :: "'j journal_ops \<Rightarrow> 'j engine \<Rightarrow> call \<Rightarrow> 'j engine \<Rightarrow> bool" for jops where
  step_apply: "apply_request jops request e = (outcome, e') \<Longrightarrow> engine_step jops e (CallApply request outcome) e'"
| step_snapshot: "snapshot jops e = (s, e') \<Longrightarrow> engine_step jops e (CallSnapshot s) e'"

inductive_cases engine_stepE: "engine_step jops e c e'"

inductive engine_run :: "'j journal_ops \<Rightarrow> 'j engine \<Rightarrow> call list \<Rightarrow> 'j engine \<Rightarrow> bool" for jops where
  run_start: "engine_run jops e [] e"
| run_step: "engine_run jops e calls f \<Longrightarrow> engine_step jops f c g \<Longrightarrow> engine_run jops e (calls @ [c]) g"

lemma step_keeps_inv: "engine_step jops e c e' \<Longrightarrow> engine_inv e \<Longrightarrow> engine_inv e'"
  by (auto elim!: engine_stepE intro: apply_keeps_inv snapshot_keeps_inv)

lemma run_keeps_inv: "engine_run jops e calls e' \<Longrightarrow> engine_inv e \<Longrightarrow> engine_inv e'"
  by (induction rule: engine_run.induct) (auto intro: step_keeps_inv)

lemma snapshot_same: "snapshot jops e = (s, e') \<Longrightarrow> same_decisions e e'"
  using snapshot_locked_same [of jops e s e'] by (auto simp: snapshot_def split: if_splits)

lemma quiet_same: "e' = e\<lparr>e_stats := e_stats e'\<rparr> \<Longrightarrow> e_accounts e' = e_accounts e"
  by (metis engine.select_convs(5) engine.surjective engine.update_convs(10))

subsection \<open>The ledger of an account over a run\<close>

type_synonym ledger_state = "AccountConfig \<times> u64 \<times> CreditTotals"

definition ledger_of :: "u64 \<Rightarrow> 'j engine \<Rightarrow> ledger_state option" where
  "ledger_of k e = map_option (\<lambda>a. (as_config a, as_capacity a, as_totals a)) (fmlookup (e_accounts e) k)"

text \<open>The abstract effect of an acknowledged request on the ledger of its account.\<close>

fun ledger_request :: "CreditRequest \<Rightarrow> ledger_state option \<Rightarrow> ledger_state option" where
  "ledger_request request None =
     (if req_op request = Open
      then Some (req_config request, cfg_capacity (req_config request), zero_totals) else None)"
| "ledger_request request (Some (config, s)) = Some (config, ledger_effect (ledger_op_of config request) s)"

fun applied_to :: "u64 \<Rightarrow> call list \<Rightarrow> CreditRequest list" where
  "applied_to k [] = []"
| "applied_to k (CallApply request outcome # calls) =
     (if out_applied outcome \<and> request_key request = k then [request] else []) @ applied_to k calls"
| "applied_to k (CallSnapshot s # calls) = applied_to k calls"

lemma applied_to_append [simp]: "applied_to k (xs @ ys) = applied_to k xs @ applied_to k ys"
  by (induction k xs rule: applied_to.induct) auto

lemma ledger_of_put:
  "ledger_of k (e :: 'j engine) = l \<Longrightarrow> e_accounts e' = fmupd j a (e_accounts e) \<Longrightarrow>
     ledger_of k (e' :: 'j engine) = (if k = j then Some (as_config a, as_capacity a, as_totals a) else l)"
  by (simp add: ledger_of_def)

lemma apply_ledger:
  assumes "engine_inv e" "apply_request jops request e = (outcome, e')"
  shows "ledger_of k e' =
           (if out_applied outcome \<and> request_key request = k then ledger_request request (ledger_of k e)
            else ledger_of k e)"
  using assms(2)
proof (cases rule: apply_cases)
  case quiet
  show ?thesis using quiet_same [OF quiet(1)] quiet(2) by (simp add: ledger_of_def)
next
  case unopened
  then show ?thesis by (simp add: ledger_of_def)
next
  case opened
  then show ?thesis by (auto simp: ledger_of_def)
next
  case (declined a r i b)
  then have "fmlookup (e_accounts e) (request_key request) = Some a" by (simp add: admitted_def)
  then show ?thesis
    using declined decide_facts [OF engine_invD(1) [OF assms(1)] declined(1)]
    by (auto simp: ledger_of_def decision_facts_def evolves_frame)
next
  case (rejected a r i b)
  then have "fmlookup (e_accounts e) (request_key request) = Some a" by (simp add: admitted_def)
  then show ?thesis
    using rejected decide_facts [OF engine_invD(1) [OF assms(1)] rejected(1)]
    by (auto simp: ledger_of_def decision_facts_def evolves_frame)
next
  case (applied a b)
  then have "fmlookup (e_accounts e) (request_key request) = Some a" by (simp add: admitted_def)
  then show ?thesis
    using applied decide_facts [OF engine_invD(1) [OF assms(1)] applied(1)]
    by (auto simp: ledger_of_def decision_facts_def evolves_frame)
next
  case (failed a)
  then have "fmlookup (e_accounts e) (request_key request) = Some a" by (simp add: admitted_def)
  then show ?thesis
    using failed rolled_back_facts [OF engine_invD(1) [OF assms(1)] failed(1)]
    by (auto simp: ledger_of_def)
qed

lemma snapshot_ledger: "snapshot jops e = (s, e') \<Longrightarrow> ledger_of k e' = ledger_of k e"
  by (drule snapshot_same) (simp add: ledger_of_def same_decisions_def)

lemma run_ledger:
  assumes "engine_run jops e calls e'" "engine_inv e"
  shows "ledger_of k e' = fold ledger_request (applied_to k calls) (ledger_of k e)"
  using assms
proof (induction rule: engine_run.induct)
  case (run_step e calls f c g)
  then have "engine_inv f" using run_keeps_inv by blast
  with run_step show ?case
    by (auto elim!: engine_stepE simp: apply_ledger snapshot_ledger)
qed simp

subsection \<open>Progress of an account\<close>

definition watermark :: "AccountState \<Rightarrow> IncarnationId \<Rightarrow> nat" where
  "watermark a i = (case find_incarnation a i of None \<Rightarrow> 0 | Some r \<Rightarrow> unat (ir_last_sequence r))"

text \<open>What never goes backwards: the watermark of every incarnation and the list of fences.\<close>

definition progress :: "AccountState \<Rightarrow> AccountState \<Rightarrow> bool" where
  "progress a b \<longleftrightarrow> as_config b = as_config a \<and> (\<forall>i. watermark a i \<le> watermark b i) \<and>
     (\<exists>fs. as_fences b = as_fences a @ fs)"

lemma progress_refl [simp]: "progress a a"
  by (simp add: progress_def)

lemma progress_trans: "progress a b \<Longrightarrow> progress b c \<Longrightarrow> progress a c"
  unfolding progress_def by (metis append.assoc le_trans)

lemma watermark_evolves: "account_evolves a b \<Longrightarrow> watermark b i = watermark a i"
proof -
  assume "account_evolves a b"
  then have ev: "inc_evolves (as_incarnations a) (as_incarnations b)" by (simp add: account_evolves_def)
  show ?thesis
  proof (cases "find_incarnation a i")
    case None
    then show ?thesis using ev by (auto simp: watermark_def inc_evolves_def find_incarnation_def split: option.splits)
  next
    case (Some r)
    then obtain s where "find_incarnation b i = Some s" "keeps r s"
      using ev unfolding inc_evolves_def find_incarnation_def by blast
    with Some show ?thesis by (simp add: watermark_def keeps_def)
  qed
qed

lemma progress_evolves: "account_evolves a b \<Longrightarrow> progress a b"
  using watermark_evolves [of a b] by (auto simp: progress_def account_evolves_def)

lemma watermark_publish:
  assumes "find_incarnation b (av_incarnation (req_authority q)) = Some s"
  shows "watermark (publish_window q out b) i =
           (if i = av_incarnation (req_authority q) then unat (req_sequence q) else watermark b i)"
  using assms by (auto simp: watermark_def find_incarnation_def publish_window_lookup intro: strong_id.expand)

lemma progress_publish:
  assumes "find_incarnation b (av_incarnation (req_authority q)) = Some s"
    "unat (req_sequence q) = unat (ir_last_sequence s) + 1"
  shows "progress b (publish_window q out b)"
  using assms by (auto simp: progress_def watermark_publish) (simp add: watermark_def)

lemma progress_refusal: "progress a b \<Longrightarrow> progress a (record_refusal n q out b)"
  by (simp add: progress_def watermark_def find_incarnation_def)

lemma progress_rolled_back:
  assumes "account_inv (e_limits e) a" "admitted e request a"
  shows "progress a (rolled_back request a (decide e request a))"
proof -
  have f: "decision_facts (e_limits e) request a (decide e request a)" by (rule decide_facts [OF assms])
  show ?thesis
  proof (cases "decide e request a")
    case (DecApply b)
    then have ev: "account_evolves a b" using f by (simp add: decision_facts_def)
    let ?r = "rolled_back request a (decide e request a)"
    have "watermark ?r i = watermark a i" for i
      using watermark_evolves [OF ev, of i]
      by (simp add: rolled_back_def DecApply watermark_def find_incarnation_def restore_backup_lookup)
    then show ?thesis using rolled_back_facts [OF assms] by (simp add: progress_def)
  qed (use f in \<open>auto simp: rolled_back_def decision_facts_def progress_evolves\<close>)
qed

lemma count_refused_caller:
  assumes "find_incarnation b (av_incarnation (req_authority q)) = Some s"
  shows "\<exists>t. find_incarnation (count_refused q b) (av_incarnation (req_authority q)) = Some t \<and>
             ir_last_sequence t = ir_last_sequence s"
  using assms by (simp add: find_incarnation_def count_refused_lookup)

lemma step_progress:
  assumes "engine_inv e" "engine_step jops e c e'" "fmlookup (e_accounts e) k = Some a"
  shows "\<exists>a'. fmlookup (e_accounts e') k = Some a' \<and> progress a a'"
  using assms(2)
proof cases
  case (step_apply request outcome)
  have put: ?thesis if "e_accounts e' = fmupd (request_key request) b (e_accounts e)" "admitted e request x"
      "account_inv (e_limits e) x \<Longrightarrow> progress x b" for b x
    using that assms(1,3) engine_invD(1) [OF assms(1)] by (auto simp: admitted_def)
  from step_apply(2) show ?thesis
  proof (cases rule: apply_cases)
    case quiet
    show ?thesis using quiet_same [OF quiet(1)] assms(3) by simp
  next
    case (declined x r i b)
    then show ?thesis
      using decide_facts [of e x request] by (intro put) (auto simp: decision_facts_def progress_evolves)
  next
    case (rejected x r i b)
    show ?thesis
    proof (rule put [OF rejected(3,1)], rule progress_refusal)
      assume inv: "account_inv (e_limits e) x"
      obtain s where s: "find_incarnation b (av_incarnation (req_authority request)) = Some s"
        "unat (req_sequence request) = unat (ir_last_sequence s) + 1"
        using decide_caller [OF inv rejected(1)] rejected(2) by blast
      then have "progress (count_refused request b) (publish_window request outcome (count_refused request b))"
        using count_refused_caller [OF s(1)] by (metis progress_publish)
      then show "progress x (publish_window request outcome (count_refused request b))"
        using decide_facts [OF inv rejected(1)] rejected(2) progress_trans progress_evolves
          count_refused_account_evolves
        by (metis (no_types, lifting) decision.simps(11) decision_facts_def)
    qed
  next
    case (applied x b)
    show ?thesis
    proof (rule put [OF applied(3,1)])
      assume inv: "account_inv (e_limits e) x"
      obtain s where "find_incarnation b (av_incarnation (req_authority request)) = Some s"
        "unat (req_sequence request) = unat (ir_last_sequence s) + 1"
        using decide_caller [OF inv applied(1)] applied(2) by blast
      moreover have "account_evolves x b" using decide_facts [OF inv applied(1)] applied(2) by (simp add: decision_facts_def)
      ultimately show "progress x (publish_window request outcome b)"
        using progress_publish progress_evolves progress_trans by blast
    qed
  next
    case (failed x)
    then show ?thesis by (intro put) (auto intro: progress_rolled_back)
  qed (use assms(3) in auto)
next
  case (step_snapshot s)
  then show ?thesis using snapshot_same [OF step_snapshot(2)] assms(3) by (simp add: same_decisions_def)
qed

lemma run_progress:
  assumes "engine_run jops e calls e'" "engine_inv e" "fmlookup (e_accounts e) k = Some a"
  shows "\<exists>a'. fmlookup (e_accounts e') k = Some a' \<and> progress a a'"
  using assms
proof (induction rule: engine_run.induct)
  case (run_step e calls f c g)
  then obtain b where "fmlookup (e_accounts f) k = Some b" "progress a b" by blast
  then show ?case
    using step_progress [of f jops c g k b] run_keeps_inv [OF run_step(1)] run_step.hyps(2) run_step.prems(1)
      progress_trans by blast
qed simp

subsection \<open>At most once\<close>

definition attempt_key :: "CreditRequest \<Rightarrow> IncarnationId \<times> u64" where
  "attempt_key request = (av_incarnation (req_authority request), req_sequence request)"

text \<open>An applied attempt sits just above its incarnation's watermark, and moves it there.\<close>

lemma applied_watermark:
  assumes "engine_inv e" "apply_request jops request e = (outcome, e')" "out_applied outcome"
  shows "\<exists>a'. fmlookup (e_accounts e') (request_key request) = Some a' \<and>
           watermark a' (av_incarnation (req_authority request)) = unat (req_sequence request)"
    and "fmlookup (e_accounts e) (request_key request) = Some a \<Longrightarrow>
           unat (req_sequence request) = watermark a (av_incarnation (req_authority request)) + 1"
proof -
  let ?i = "av_incarnation (req_authority request)"
  have *: "(\<exists>a'. fmlookup (e_accounts e') (request_key request) = Some a' \<and>
           watermark a' ?i = unat (req_sequence request)) \<and>
        (\<forall>a. fmlookup (e_accounts e) (request_key request) = Some a \<longrightarrow>
           unat (req_sequence request) = watermark a ?i + 1)"
    using assms(2)
  proof (cases rule: apply_cases)
    case opened
    obtain r where "find_incarnation (open_account (max_attempt_window (e_limits e)) request) ?i = Some r"
      using open_account_caller by blast
    then show ?thesis using opened by (simp add: watermark_publish)
  next
    case (applied a b)
    have a: "fmlookup (e_accounts e) (request_key request) = Some a" "place_attempt a request = PlNext"
      using applied(1) by (simp_all add: admitted_def)
    obtain s where "find_incarnation b ?i = Some s"
      using decide_caller [OF engine_invD(1) [OF assms(1) a(1)] applied(1)] applied(2) by blast
    then show ?thesis
      using applied(3) a(1) placement_next(3) [OF a(2), folded watermark_def] by (simp add: watermark_publish)
  qed (use assms(3) in simp_all)
  then show "\<exists>a'. fmlookup (e_accounts e') (request_key request) = Some a' \<and>
           watermark a' ?i = unat (req_sequence request)" by blast
  show "fmlookup (e_accounts e) (request_key request) = Some a \<Longrightarrow>
           unat (req_sequence request) = watermark a ?i + 1" using * by blast
qed

lemma run_at_most_once:
  assumes "engine_run jops e calls e'" "engine_inv e"
  shows "distinct (map attempt_key (applied_to k calls)) \<and>
         (\<forall>q \<in> set (applied_to k calls). \<exists>a. fmlookup (e_accounts e') k = Some a \<and>
            unat (req_sequence q) \<le> watermark a (av_incarnation (req_authority q)))"
  using assms
proof (induction rule: engine_run.induct)
  case (run_step e calls f c g)
  have inv: "engine_inv f" using run_keeps_inv [OF run_step(1)] run_step.prems .
  note IH = run_step.IH [OF run_step.prems]
  have old: "\<exists>a. fmlookup (e_accounts g) k = Some a \<and> unat (req_sequence q) \<le> watermark a (av_incarnation (req_authority q))"
    if q: "q \<in> set (applied_to k calls)" for q
  proof -
    obtain a where a: "fmlookup (e_accounts f) k = Some a" "unat (req_sequence q) \<le> watermark a (av_incarnation (req_authority q))"
      using bspec [OF conjunct2 [OF IH] q] by blast
    then show ?thesis using step_progress [OF inv run_step(2) a(1)] unfolding progress_def by (meson le_trans)
  qed
  show ?case
  proof (cases "\<exists>q out. c = CallApply q out \<and> out_applied out \<and> request_key q = k")
    case True
    then obtain q out where c: "c = CallApply q out" "out_applied out" "request_key q = k" by blast
    then have ap: "apply_request jops q f = (out, g)" using run_step(2) by (auto elim: engine_stepE)
    note wm = applied_watermark [OF inv ap c(2), unfolded c(3)]
    have "attempt_key q \<notin> attempt_key ` set (applied_to k calls)"
    proof
      assume "attempt_key q \<in> attempt_key ` set (applied_to k calls)"
      then obtain p where p: "p \<in> set (applied_to k calls)" "attempt_key p = attempt_key q" by auto
      then obtain a where "fmlookup (e_accounts f) k = Some a"
        "unat (req_sequence q) \<le> watermark a (av_incarnation (req_authority q))"
        using IH by (auto simp: attempt_key_def)
      then show False using wm(2) by simp
    qed
    moreover have "\<exists>a. fmlookup (e_accounts g) k = Some a \<and> unat (req_sequence q) \<le> watermark a (av_incarnation (req_authority q))"
      using wm(1) by auto
    ultimately show ?thesis using IH old c by auto
  next
    case False
    then have "applied_to k [c] = []" by (cases c) auto
    then show ?thesis using IH old by simp
  qed
qed simp

subsection \<open>Fences\<close>

lemma fenced_is_refused:
  assumes "account_inv limits a" "is_fenced a (av_incarnation (req_authority request))"
    "authority_refusal e a request = None"
  shows False
proof -
  let ?i = "av_incarnation (req_authority request)"
  obtain f where "f \<in> set (as_fences a)" "fr_incarnation f = ?i"
    using assms(2) by (auto simp: is_fenced_iff)
  then obtain r where "find_incarnation a ?i = Some r" "ir_state r = Fenced"
    using assms(1) unfolding account_inv_def by metis
  then show False
    using authority_admits(4,6) [OF assms(3)] assms(2) by (cases "req_op request = Reconcile") (auto simp: is_live_def)
qed

lemma fenced_progress: "progress a b \<Longrightarrow> is_fenced a i \<Longrightarrow> is_fenced b i"
  by (auto simp: progress_def is_fenced_iff)

subsection \<open>Retries\<close>

text \<open>How many attempts of the account were answered with a decision of their own.\<close>

fun answered :: "u64 \<Rightarrow> call list \<Rightarrow> nat" where
  "answered k [] = 0"
| "answered k (CallApply request outcome # calls) =
     (if out_decided outcome \<and> \<not> out_duplicate outcome \<and> request_key request = k then 1 else 0) + answered k calls"
| "answered k (CallSnapshot s # calls) = answered k calls"

lemma answered_append [simp]: "answered k (xs @ ys) = answered k xs + answered k ys"
  by (induction k xs rule: answered.induct) auto

definition recent :: "WindowEntry \<Rightarrow> nat \<Rightarrow> AttemptWindow \<Rightarrow> bool" where
  "recent x n w \<longleftrightarrow> window_find w (we_key x) = Some x \<and>
     (\<exists>us vs. aw_order w = us @ we_key x # vs \<and> length vs \<le> n)"

lemma recent_mono: "recent x m w \<Longrightarrow> m \<le> n \<Longrightarrow> recent x n w"
  unfolding recent_def by (meson le_trans)

lemma recent_insert:
  assumes "recent x n w" "window_inv w" "we_key y \<notin> set (aw_order w)" "Suc n < aw_limit w"
  shows "recent x (Suc n) (window_insert y w)"
proof -
  obtain us vs where o: "aw_order w = us @ we_key x # vs" "length vs \<le> n" "window_find w (we_key x) = Some x"
    using assms(1) by (auto simp: recent_def)
  have "Suc (length (aw_order w)) - aw_limit w \<le> length us"
    using o(1,2) assms(4) by simp
  then have "aw_order (window_insert y w) =
      drop (Suc (length (aw_order w)) - aw_limit w) us @ we_key x # vs @ [we_key y]"
    by (simp add: window_insert_order o(1))
  moreover have "window_find (window_insert y w) (we_key x) = Some x"
    using window.remembered [OF assms(2) o(3,1), of "[y]"] assms(3,4) o(2) by simp
  moreover have "length (vs @ [we_key y]) \<le> Suc n" using o(2) by simp
  ultimately show ?thesis unfolding recent_def by blast
qed

lemma recent_new:
  assumes "window_inv w" "we_key x \<notin> set (aw_order w)"
  shows "recent x 0 (window_insert x w)"
proof -
  have "Suc (length (aw_order w)) - aw_limit w \<le> length (aw_order w)"
    using assms(1) by (auto simp: window_inv_def)
  then have "aw_order (window_insert x w) = drop (Suc (length (aw_order w)) - aw_limit w) (aw_order w) @ [we_key x]"
    by (simp add: window_insert_order)
  moreover have "window_find (window_insert x w) (we_key x) = Some x" by (rule window_insert_find(2) [OF assms])
  ultimately show ?thesis by (auto simp: recent_def)
qed

lemma fresh_insert_recent:
  assumes "account_inv limits a" "place_attempt a request = PlNext" "recent x n (as_window a)"
    "Suc n < aw_limit (as_window a)"
  shows "recent x (Suc n) (window_insert (entry_of request out) (as_window a))"
  using recent_insert [OF assms(3) account_invD(2) [OF assms(1)]] placement_fresh [OF assms(1,2)] assms(4) by simp

lemma step_recent:
  assumes "engine_inv e" "engine_step jops e c e'" "fmlookup (e_accounts e) k = Some a"
    "recent x n (as_window a)" "n + answered k [c] < max_attempt_window (e_limits e)"
  shows "\<exists>a'. fmlookup (e_accounts e') k = Some a' \<and> recent x (n + answered k [c]) (as_window a')"
  using assms(2)
proof cases
  case (step_apply request outcome)
  note keep = recent_mono [OF assms(4)] and a = engine_invD [OF assms(1,3)]
  have put: ?thesis if "e_accounts e' = fmupd (request_key request) b (e_accounts e)" "admitted e request y"
      "k = request_key request \<Longrightarrow> y = a \<Longrightarrow> recent x (n + answered k [c]) (as_window b)" for b y
    using that assms(3) keep by (auto simp: admitted_def)
  have one: "answered k [c] = 1" if "out_decided outcome" "\<not> out_duplicate outcome" "k = request_key request"
    using that step_apply(1) by simp
  have new: "recent x (n + answered k [c]) (window_insert (entry_of request outcome) (as_window a))"
    if "out_decided outcome" "\<not> out_duplicate outcome" "k = request_key request" "admitted e request a"
    using fresh_insert_recent [OF a(1) _ assms(4)] a(3) assms(5) that one by (simp add: admitted_def)
  from step_apply(2) show ?thesis
  proof (cases rule: apply_cases)
    case quiet
    show ?thesis using quiet_same [OF quiet(1)] assms(3) keep by simp
  next
    case (declined y r i b)
    have "as_window b = as_window y" if "account_inv (e_limits e) y"
      using decide_facts [OF that declined(1)] declined(2) by (auto simp: decision_facts_def evolves_frame)
    then show ?thesis using put [OF declined(3,1)] a(1) keep by simp
  next
    case (rejected y r i b)
    have w: "as_window b = as_window y" if "account_inv (e_limits e) y"
      using decide_facts [OF that rejected(1)] rejected(2) by (auto simp: decision_facts_def evolves_frame)
    show ?thesis
      using rejected(1,6,7) w a(1) new by (intro put [OF rejected(3,1)]) (simp add: publish_window_window)
  next
    case (applied y b)
    have w: "as_window b = as_window y" if "account_inv (e_limits e) y"
      using decide_facts [OF that applied(1)] applied(2) by (auto simp: decision_facts_def evolves_frame)
    show ?thesis
      using applied(1,6,7) w a(1) new by (intro put [OF applied(3,1)]) (simp add: publish_window_window)
  next
    case (failed y)
    then show ?thesis using rolled_back_facts(4) [of e y request] a(1) keep by (intro put [OF failed(3,1)]) simp
  qed (use assms(3) keep in auto)
next
  case (step_snapshot s)
  then show ?thesis
    using snapshot_same [OF step_snapshot(2)] assms(3) recent_mono [OF assms(4)] by (simp add: same_decisions_def)
qed

lemma step_frame: "engine_step jops e c e' \<Longrightarrow> frame_kept e e'"
proof (erule engine_stepE)
  fix request outcome assume "apply_request jops request e = (outcome, e')"
  then show "frame_kept e e'"
  proof (cases rule: apply_cases)
    case quiet
    show ?thesis by (subst quiet(1)) (simp add: frame_kept_def)
  qed
next
  fix s assume "snapshot jops e = (s, e')"
  then show "frame_kept e e'" using snapshot_same by (auto simp: same_decisions_def frame_kept_def)
qed

lemma run_frame: "engine_run jops e calls e' \<Longrightarrow> frame_kept e e'"
  by (induction rule: engine_run.induct) (auto dest!: step_frame simp: frame_kept_def)

lemma run_recent:
  assumes "engine_run jops e calls e'" "engine_inv e" "fmlookup (e_accounts e) k = Some a"
    "recent x n (as_window a)" "n + answered k calls < max_attempt_window (e_limits e)"
  shows "\<exists>a'. fmlookup (e_accounts e') k = Some a' \<and> recent x (n + answered k calls) (as_window a')"
  using assms
proof (induction rule: engine_run.induct)
  case (run_step e calls f c g)
  then obtain b where "fmlookup (e_accounts f) k = Some b" "recent x (n + answered k calls) (as_window b)" by auto
  moreover have "e_limits f = e_limits e" using run_frame [OF run_step(1)] by (simp add: frame_kept_def)
  ultimately show ?case
    using step_recent [OF run_keeps_inv [OF run_step(1)] run_step(2), of k b x "n + answered k calls"] run_step.prems
    by (simp add: add.assoc)
qed simp

text \<open>A decision is remembered as soon as it is made.\<close>

lemma settled_recent:
  assumes "engine_inv e" "apply_request jops request e = (outcome, e')" "out_decided outcome"
    "\<not> out_duplicate outcome" "reason (out_status outcome) \<noteq> AttemptConflict"
  shows "\<exists>a. fmlookup (e_accounts e') (request_key request) = Some a \<and> recent (entry_of request outcome) 0 (as_window a)"
  using assms(2)
proof (cases rule: apply_cases)
  case opened
  have "clamp_limits (e_limits e) = e_limits e" using assms(1) by (simp add: engine_inv_def)
  then have "window_inv (as_window (open_account (max_attempt_window (e_limits e)) request))"
    by (rule account_invD(2) [OF open_account_inv])
  then show ?thesis using opened recent_new by (simp add: publish_window_window)
next
  case (rejected a r i b)
  have a: "fmlookup (e_accounts e) (request_key request) = Some a" "place_attempt a request = PlNext"
    using rejected(1) by (simp_all add: admitted_def)
  note inv = engine_invD(1) [OF assms(1) a(1)]
  have "as_window b = as_window a"
    using decide_facts [OF inv rejected(1)] rejected(2) by (auto simp: decision_facts_def evolves_frame)
  then show ?thesis
    using rejected(3) recent_new [OF account_invD(2) [OF inv]] placement_fresh [OF inv a(2)]
    by (simp add: publish_window_window)
next
  case (applied a b)
  have a: "fmlookup (e_accounts e) (request_key request) = Some a" "place_attempt a request = PlNext"
    using applied(1) by (simp_all add: admitted_def)
  note inv = engine_invD(1) [OF assms(1) a(1)]
  have "as_window b = as_window a"
    using decide_facts [OF inv applied(1)] applied(2) by (auto simp: decision_facts_def evolves_frame)
  then show ?thesis
    using applied(3) recent_new [OF account_invD(2) [OF inv]] placement_fresh [OF inv a(2)]
    by (simp add: publish_window_window)
qed (use assms(3-5) in auto)

lemma recent_placement:
  assumes "recent (entry_of q out) n (as_window a)"
    "av_incarnation (req_authority q') = av_incarnation (req_authority q)" "req_sequence q' = req_sequence q"
  shows "place_attempt a q' = (if request_digest q' = request_digest q then PlDuplicate (out_status out) else PlConflict)"
  using assms by (auto simp: place_attempt_def recent_def)

lemma settled_retry:
  assumes "engine_inv e" "apply_request jops q e = (out, f)" "out_decided out" "\<not> out_duplicate out"
    "reason (out_status out) \<noteq> AttemptConflict"
    "engine_run jops f calls g" "answered (request_key q) calls < max_attempt_window (e_limits e)"
    "av_incarnation (req_authority q') = av_incarnation (req_authority q)" "req_sequence q' = req_sequence q"
    "request_key q' = request_key q"
  shows "\<exists>a. fmlookup (e_accounts g) (request_key q') = Some a \<and>
           place_attempt a q' = (if request_digest q' = request_digest q then PlDuplicate (out_status out) else PlConflict)"
proof -
  obtain a where a: "fmlookup (e_accounts f) (request_key q) = Some a" "recent (entry_of q out) 0 (as_window a)"
    using settled_recent [OF assms(1-5)] by blast
  have "e_limits f = e_limits e"
    using step_frame [OF step_apply [OF assms(2)]] by (simp add: frame_kept_def)
  then obtain b where "fmlookup (e_accounts g) (request_key q) = Some b"
    "recent (entry_of q out) (answered (request_key q) calls) (as_window b)"
    using run_recent [OF assms(6) apply_keeps_inv [OF assms(1,2)] a] assms(7) by auto
  then show ?thesis using recent_placement [OF _ assms(8,9)] assms(10) by auto
qed

subsection \<open>A journal with room accepts every decision\<close>

lemma length_account_config: "length (encode_account_config c) = 68"
  by (simp add: encode_account_config_def)

lemma length_note: "length (encode_note s) \<le> 4100"
  by (simp add: encode_note_def bw_text_def split: option.splits)

lemma length_request_body: "length (encode_request_body r) \<le> 4400"
  using length_note [of "req_note r"]
  by (simp add: encode_request_body_def encode_authority_def encode_presenter_def length_account_config)

lemma length_outcome_body: "length (encode_outcome_body x) \<le> 200"
  by (simp add: encode_outcome_body_def encode_authority_def encode_view_def)

lemma length_attempt_body: "length (encode_durable_attempt_body (durable_attempt q x (Some a) c st)) \<le> 5000"
  using length_request_body [of q] length_outcome_body [of x]
  by (simp add: encode_durable_attempt_body_def durable_attempt_def encode_account_body_def
      build_durable_account_def length_account_config encode_totals_def enc_counted_def Let_def)

context journal_space
begin

text \<open>Room for one intent and one attempt, and no snapshot due.\<close>

definition has_room :: "'j engine \<Rightarrow> bool" where
  "has_room e \<longleftrightarrow>
     (\<exists>j. e_journal e = Some j \<and> usable j \<and> 10000 \<le> space j \<and>
          unat (j_bytes jops j) + 10000 < unat (max_journal_bytes (e_limits e))) \<and>
     unat (e_journal_records e + 2) < journal_records_per_snapshot (e_limits e)"

lemma room_append:
  assumes "e_journal e = Some j" "usable j" "length p + 40 \<le> space j" "k \<noteq> KindUnknown"
  shows "\<exists>j'. with_journal (j_append jops n k c p) e = (success, e\<lparr>e_journal := Some j'\<rparr>) \<and> usable j' \<and>
           space j \<le> space j' + length p + 40 \<and>
           unat (j_bytes jops j') \<le> unat (j_bytes jops j) + length p + 40 \<and> kept j' = kept j"
  using append_usable [OF assms(2,4,3), of n c] assms(1) by (auto simp: with_journal_def)

lemma room_persist:
  assumes "has_room e"
  shows "\<exists>e' j'. persist_locked jops q x (Some a) c e = (success, e') \<and>
           e_journal e' = Some j' \<and> kept j' = kept (the (e_journal e)) \<and> usable j' \<and>
           space (the (e_journal e)) \<le> space j' + 10000 \<and>
           unat (j_bytes jops j') \<le> unat (j_bytes jops (the (e_journal e))) + 10000 \<and>
           e_journal_records e' = e_journal_records e + 2"
proof -
  obtain j where j: "e_journal e = Some j" "usable j" "10000 \<le> space j"
    "unat (j_bytes jops j) + 10000 < unat (max_journal_bytes (e_limits e))"
    "unat (e_journal_records e + 2) < journal_records_per_snapshot (e_limits e)"
    using assms by (auto simp: has_room_def)
  let ?chain = "intent_chain_of (e_chain e) (e_next_sequence e) q"
  have "length (encode_request_body q) + 40 \<le> space j"
    using j(3) length_request_body [of q] by linarith
  then obtain j1 where j1: "with_journal (j_append jops (e_next_sequence e) KindIntent ?chain (encode_request_body q)) e
      = (success, e\<lparr>e_journal := Some j1\<rparr>)" "usable j1" "space j \<le> space j1 + length (encode_request_body q) + 40"
    "unat (j_bytes jops j1) \<le> unat (j_bytes jops j) + length (encode_request_body q) + 40" "kept j1 = kept j"
    using room_append [OF j(1,2)] by blast
  define e2 where "e2 = e\<lparr>e_journal := Some j1, e_next_sequence := e_next_sequence e + 1\<rparr>"
  let ?p = "encode_durable_attempt_body (durable_attempt q x (Some a) c (e_stats e))"
  let ?commit = "commit_chain_of (e_chain e) (e_next_sequence e + 1) q x"
  have "length ?p + 40 \<le> space j1" "e_journal e2 = Some j1"
    using j(3) j1(3) length_request_body [of q] length_attempt_body [of q x a c "e_stats e"] by (simp_all add: e2_def)
  then obtain j3 where j3: "with_journal (j_append jops (e_next_sequence e + 1) KindAttempt ?commit ?p) e2
      = (success, e2\<lparr>e_journal := Some j3\<rparr>)" "unat (j_bytes jops j3) \<le> unat (j_bytes jops j1) + length ?p + 40"
    "kept j3 = kept j1" "usable j3" "space j1 \<le> space j3 + length ?p + 40"
    using room_append [of e2 j1 ?p] j1(2) by blast
  have "\<not> max_journal_bytes (e_limits e) \<le> j_bytes jops j3"
    using j(4) j3(2) j1(4) length_request_body [of q] length_attempt_body [of q x a c "e_stats e"]
    by (simp add: word_le_nat_alt)
  moreover have "space j \<le> space j3 + 10000" "unat (j_bytes jops j3) \<le> unat (j_bytes jops j) + 10000"
    using j1(3,4) j3(2,5) length_request_body [of q] length_attempt_body [of q x a c "e_stats e"] by linarith+
  ultimately show ?thesis
    using j1(1,5) j3(1,3,4) j(1,5)
    by (simp add: persist_locked_def encode_request_message_def encode_durable_attempt_def Let_def
        journal_size_def e2_def)
qed

text \<open>So on such a journal no decision is lost: a call never ends in the journal failure branch.\<close>

lemma room_acknowledges:
  assumes "has_room e" "apply_request jops request e = (outcome, e')" "admitted e request a"
  shows "decide e request a = DecApply b \<Longrightarrow> out_applied outcome"
    and "decide e request a = DecRefusal r i b \<Longrightarrow> out_decided outcome \<and> out_status outcome = refused r i"
proof -
  have room: "has_room (put_account k c e)" for k c using assms(1) by (simp add: has_room_def)
  have ok: "status_ok s" if "persist_locked jops q x (Some c) v (put_account k d e) = (s, f)" for q x c v k d s f
    using room_persist [OF room, of q x c v k d] that by auto
  have en: "enact jops (request_key request) request (bind_outcome a (initial_outcome request)) a e
      (decide e request a) = (outcome, e')"
    using assms(2)
  proof (cases rule: apply_request_cases)
    case (decided a')
    then show ?thesis using assms(3) by (simp add: admitted_def)
  qed (use assms(3) in \<open>auto simp: admitted_def\<close>)
  show "out_applied outcome" if "decide e request a = DecApply b"
    using en that by (auto simp: enact_def commit_applied_def Let_def split: prod.splits if_splits dest: ok)
  show "out_decided outcome \<and> out_status outcome = refused r i" if "decide e request a = DecRefusal r i b"
    using en that
    by (auto simp: enact_def finish_decided_def decided_refusal_def Let_def split: prod.splits if_splits dest: ok)
qed

end

subsection \<open>An example engine\<close>

text \<open>An in-memory engine with one account of capacity 100, opened by its operator.\<close>

definition demo_operator :: Incarnation where
  "demo_operator = make_incarnation (StrongId 5) (StrongId 6)"

definition demo_nonce :: Digest128 where
  "demo_nonce = Digest128 11 12"

definition demo_config :: AccountConfig where
  "demo_config = default_config\<lparr>cfg_domain := StrongId 1, cfg_account := StrongId 2, cfg_resource := StrongId 3,
     cfg_capacity := 100, cfg_max_capacity := 100\<rparr>"

definition demo_authority :: AuthorityVector where
  "demo_authority = \<lparr>av_domain = StrongId 1, av_account = StrongId 2, av_epoch = StrongId 1,
     av_generation = StrongId 1, av_incarnation = inc_id demo_operator\<rparr>"

definition demo_request :: "OpKind \<Rightarrow> u64 \<Rightarrow> u64 \<Rightarrow> CreditRequest" where
  "demo_request oper sequence count =
     example_request\<lparr>req_attempt := AttemptId (Digest128 sequence 7), req_op := oper, req_sequence := sequence,
       req_authority := demo_authority, req_presenter := demo_operator, req_count := count,
       req_config := demo_config, req_proof := challenge_compute demo_nonce demo_operator demo_authority,
       req_note := ''''\<rparr>"

definition demo_account :: AccountState where
  "demo_account =
     publish_window (demo_request Open 1 0) (default_outcome\<lparr>out_applied := True, out_decided := True\<rparr>)
       (open_account 8192 (demo_request Open 1 0))"

definition demo_engine :: "InMemoryJournal engine" where
  "demo_engine =
     (make_engine default_limits (Some (make_in_memory 67108864)) demo_operator demo_nonce)
       \<lparr>e_accounts := fmupd 2 demo_account fmempty, e_next_sequence := 1, e_recovered := True\<rparr>"

lemma demo_operator_set: "is_set (inc_id demo_operator)"
  by code_simp

lemma default_limits_clamped: "clamp_limits default_limits = default_limits"
  by (simp add: clamp_limits_def default_limits_def at_least_def)

lemma demo_request_sel [simp]:
  "req_attempt (demo_request p n c) = AttemptId (Digest128 n 7)" "req_op (demo_request p n c) = p"
  "req_sequence (demo_request p n c) = n" "req_authority (demo_request p n c) = demo_authority"
  "req_presenter (demo_request p n c) = demo_operator" "req_count (demo_request p n c) = c"
  "req_config (demo_request p n c) = demo_config" "req_note (demo_request p n c) = ''''"
  "req_proof (demo_request p n c) = challenge_compute demo_nonce demo_operator demo_authority"
  "req_producer (demo_request p n c) = unset_id" "req_consumer (demo_request p n c) = unset_id"
  "req_grant (demo_request p n c) = unset_id" "req_target (demo_request p n c) = unset_id"
  "req_expected_state (demo_request p n c) = zero_digest" "req_fence_cause (demo_request p n c) = UnknownState"
  by (simp_all add: demo_request_def example_request_def)

lemma demo_authority_sel [simp]:
  "av_domain demo_authority = StrongId 1" "av_account demo_authority = StrongId 2"
  "av_epoch demo_authority = StrongId 1" "av_generation demo_authority = StrongId 1"
  "av_incarnation demo_authority = inc_id demo_operator"
  by (simp_all add: demo_authority_def)

lemma demo_engine_sel [simp]:
  "e_limits demo_engine = default_limits" "e_operator demo_engine = demo_operator" "e_challenge demo_engine = demo_nonce"
  "e_recovered demo_engine" "\<not> e_journal_failed demo_engine" "e_accounts demo_engine = fmupd 2 demo_account fmempty"
  "e_journal demo_engine = Some (make_in_memory 67108864)" "e_journal_records demo_engine = 0"
  by (simp_all add: demo_engine_def make_engine_def default_limits_clamped)

lemma demo_account_inv: "account_inv default_limits demo_account"
proof -
  have o: "account_inv default_limits (open_account 8192 (demo_request Open 1 0))"
    using open_account_inv [OF default_limits_clamped] by (simp add: default_limits_def)
  obtain r where "find_incarnation (open_account 8192 (demo_request Open 1 0)) (inc_id demo_operator) = Some r"
    "ir_last_sequence r = 0"
    using open_account_caller [of 8192 "demo_request Open 1 0"] by auto
  then show ?thesis unfolding demo_account_def by (intro publish_inv [OF o]) simp_all
qed

lemma demo_account_sel [simp]:
  "as_config demo_account = demo_config" "as_account demo_account = StrongId 2" "as_domain demo_account = StrongId 1"
  "as_epoch demo_account = StrongId 1" "as_generation demo_account = StrongId 1" "as_capacity demo_account = 100"
  "as_totals demo_account = zero_totals" "as_fences demo_account = []" "\<not> as_hard_exhausted demo_account"
  by (simp_all add: demo_account_def demo_config_def) (simp_all add: open_account_def make_account_def Let_def demo_config_def)

lemma demo_engine_inv: "engine_inv demo_engine"
  using demo_account_inv
  by (auto simp: engine_inv_def default_limits_clamped fcard_finsert_if fcard_fempty)
     (simp_all add: demo_account_def publish_window_window default_limits_def)

lemma demo_caller:
  "find_incarnation demo_account (inc_id demo_operator) =
     Some ((opener_record (demo_request Open 1 0) demo_account)\<lparr>ir_last_sequence := 1\<rparr>)"
  by (simp add: demo_account_def find_incarnation_def publish_window_lookup)
     (simp add: open_account_def make_account_def opener_record_def demo_config_def Let_def)

lemma demo_live:
  "ir_state (opener_record q a) = Reconciled" "ir_reconciled_epoch (opener_record q a) = as_epoch a"
  "ir_reconciled_generation (opener_record q a) = as_generation a"
  by (simp_all add: opener_record_def)

lemma demo_window:
  "n \<noteq> 1 \<Longrightarrow> window_find (as_window demo_account) (Key i n) = None"
  "x \<noteq> AttemptId (Digest128 1 7) \<Longrightarrow> window_find_by_attempt (as_window demo_account) x = None"
proof -
  have inv: "window_inv (as_window demo_account)" using account_invD(2) [OF demo_account_inv] .
  have ord: "aw_order (as_window demo_account) = [Key (id_value (inc_id demo_operator)) 1]"
    by (simp add: demo_account_def publish_window_window window_insert_order)
  show none: "window_find (as_window demo_account) (Key i n) = None" if "n \<noteq> 1" for n i
    using window_find_order [OF inv, of "Key i n"] ord that by (cases "window_find (as_window demo_account) (Key i n)") auto
  have one: "window_find (as_window demo_account) (Key (id_value (inc_id demo_operator)) 1) =
      Some (entry_of (demo_request Open 1 0) (default_outcome\<lparr>out_applied := True, out_decided := True\<rparr>))"
    using window_insert_find(2) [OF account_invD(2) [OF open_account_inv [OF default_limits_clamped]],
        of "entry_of (demo_request Open 1 0) (default_outcome\<lparr>out_applied := True, out_decided := True\<rparr>)" "demo_request Open 1 0"]
    by (simp add: demo_account_def publish_window_window default_limits_def)
  show "window_find_by_attempt (as_window demo_account) x = None" if "x \<noteq> AttemptId (Digest128 1 7)"
  proof (rule ccontr)
    assume "window_find_by_attempt (as_window demo_account) x \<noteq> None"
    then obtain y where y: "we_attempt y = x" "window_find (as_window demo_account) (we_key y) = Some y"
      using window_find_by_attempt_sound [OF inv] by blast
    then have "we_key y = Key (id_value (inc_id demo_operator)) 1"
      using window_find_order [OF inv y(2)] ord by simp
    then show False using y one that by auto
  qed
qed

lemma demo_placed: "place_attempt demo_account (demo_request p 2 c) = PlNext"
  by (simp add: place_attempt_def demo_window demo_caller add_overflow_def Let_def word_le_nat_alt word_less_nat_alt)

lemma demo_operator_bound: "make_incarnation_id (inc_publisher demo_operator) (inc_boot demo_operator) = inc_id demo_operator"
  by (simp add: demo_operator_def make_incarnation_def)

text \<open>Both hold of every engine that has the account under the default limits.\<close>

definition demo_running :: "'j engine \<Rightarrow> bool" where
  "demo_running e \<longleftrightarrow> e_limits e = default_limits \<and> e_operator e = demo_operator \<and> e_challenge e = demo_nonce \<and>
     e_recovered e \<and> \<not> e_journal_failed e \<and> e_accounts e = fmupd 2 demo_account fmempty"

lemma demo_engine_running: "demo_running demo_engine"
  by (simp add: demo_running_def)

lemma demo_running_admits:
  assumes "demo_running e" "p \<noteq> Describe" "p \<noteq> Open" "p \<noteq> Reconcile" "op_requires_count p \<Longrightarrow> c \<noteq> 0"
  shows "admitted e (demo_request p 2 c) demo_account"
  using assms demo_operator_set demo_placed
  by (auto simp: demo_running_def admitted_def request_key_def structural_refusal_def authority_refusal_def demo_caller
      demo_live is_live_def default_limits_def Let_def demo_operator_bound)

lemmas demo_admitted = demo_running_admits [OF demo_engine_running]

lemma demo_running_issues:
  assumes "demo_running e"
  shows "\<exists>b. decide e (demo_request Issue 2 10) demo_account = DecApply b"
proof -
  have "ledger_apply a (demo_request Issue 2 10) (make_plan 100 zero_totals) =
      (success, snd (plan_issue 10 1 u64_max (make_plan 100 zero_totals)))" if "as_config a = demo_config" for a
    using that by (simp add: ledger_apply_def demo_config_def default_config_def default_policy_def Let_def) code_simp
  then show ?thesis
    using assms
    by (simp add: demo_running_def decide_def decide_data_def decide_ledger_def demo_caller bind_issue_def Let_def is_set_def)
qed

lemmas demo_issue_decides = demo_running_issues [OF demo_engine_running]

lemma demo_room: "mem_space.has_room demo_engine"
  by (simp add: mem_space.has_room_def make_in_memory_def default_limits_def in_memory_bytes)

subsection \<open>Properties of runs\<close>

lemma demo_issue_call:
  obtains outcome e' where "apply_request in_memory_ops (demo_request Issue 2 10) demo_engine = (outcome, e')"
    "out_applied outcome" "\<not> out_duplicate outcome" "out_decided outcome" "out_status outcome = success"
    "e_accounts e' = fmupd 2 (publish_window (demo_request Issue 2 10) outcome
       (case decide demo_engine (demo_request Issue 2 10) demo_account of DecApply b \<Rightarrow> b)) (e_accounts demo_engine)"
    "\<not> e_journal_failed e'"
proof -
  let ?q = "demo_request Issue 2 10"
  obtain outcome e' where c: "apply_request in_memory_ops ?q demo_engine = (outcome, e')" by fastforce
  have adm: "admitted demo_engine ?q demo_account" by (rule demo_admitted) simp_all
  obtain b where b: "decide demo_engine ?q demo_account = DecApply b" using demo_issue_decides by blast
  have "out_applied outcome" by (rule mem_space.room_acknowledges(1) [OF demo_room c adm b])
  from c show thesis
  proof (cases rule: apply_cases)
    case (applied a b')
    then have "a = demo_account" using adm by (simp add: admitted_def)
    then show thesis using applied b c that by (simp add: request_key_def)
  qed (use \<open>out_applied outcome\<close> in simp_all)
qed

lemma demo_issue_applied: "out_applied (fst (apply_request in_memory_ops (demo_request Issue 2 10) demo_engine))"
  by (rule demo_issue_call) simp

lemma demo_run:
  "engine_run in_memory_ops demo_engine
     [CallApply q (fst (apply_request in_memory_ops q demo_engine))] (snd (apply_request in_memory_ops q demo_engine))"
  using run_step [OF run_start step_apply, of in_memory_ops q demo_engine] by (simp add: prod_eq_iff)

text \<open>C1: every account of a live engine stays sound. Whatever sequence of calls an engine serves,
  with any requests and any journal behaviour, every account keeps closing exactly, is stored under its
  own identity, keeps its replay window indexed and bounded, has a fence record for every fenced
  incarnation and a fenced record for every fence, and stays within the incarnation, fence and
  refusal-log budgets; the number of accounts stays within its budget.\<close>

theorem engine_stays_sound:
  assumes "engine_inv e" "engine_run jops e calls e'"
  shows "engine_inv e' \<and>
         (\<forall>k a. fmlookup (e_accounts e') k = Some a \<longrightarrow>
            status_ok (check_invariants (as_capacity a) (as_totals a)) \<and> v_closed (account_view a))"
proof -
  have inv: "engine_inv e'" by (rule run_keeps_inv [OF assms(2,1)])
  have "totals_ok (as_capacity a) (as_totals a)" if "fmlookup (e_accounts e') k = Some a" for k a
    using account_invD(1) [OF engine_invD(1) [OF inv that]] .
  then show ?thesis using inv by (simp add: account_view_def view_ok)
qed

theorem engine_stays_sound_witness:
  "engine_inv (snd (apply_request in_memory_ops (demo_request Issue 2 10) demo_engine))"
  using engine_stays_sound [OF demo_engine_inv demo_run] by blast

text \<open>C2: the ledger is the acknowledged history. After any run, the configuration, capacity and
  counters of every account are those of the abstract fold over exactly the requests the engine
  acknowledged as applied, in order: an opening creates the configured empty ledger, every other
  request has the effect of its ledger operation, and nothing else (refusals, duplicates, journal
  failures, snapshots) moves a credit.\<close>

theorem acknowledged_history_is_the_ledger:
  assumes "engine_inv e" "engine_run jops e calls e'"
  shows "ledger_of k e' = fold ledger_request (applied_to k calls) (ledger_of k e)"
  using run_ledger assms by blast

theorem acknowledged_history_is_the_ledger_witness:
  "ledger_of 2 (snd (apply_request in_memory_ops (demo_request Issue 2 10) demo_engine)) =
     Some (demo_config, 100, zero_totals\<lparr>issued := 10\<rparr>)"
proof -
  have "applied_to 2 [CallApply (demo_request Issue 2 10) (fst (apply_request in_memory_ops (demo_request Issue 2 10) demo_engine))]
      = [demo_request Issue 2 10]"
    using demo_issue_applied by (simp add: request_key_def)
  moreover have "ledger_of 2 demo_engine = Some (demo_config, 100, zero_totals)" by (simp add: ledger_of_def)
  moreover have "ledger_op_of demo_config (demo_request Issue 2 10) = Some (L_Issue 10 1 u64_max)"
    by (simp add: ledger_op_of_def demo_config_def default_config_def default_policy_def)
  moreover have "ledger_apply_op (L_Issue 10 1 u64_max) (100, zero_totals) = (100, zero_totals\<lparr>issued := 10\<rparr>)"
    by code_simp
  ultimately show ?thesis
    using acknowledged_history_is_the_ledger [OF demo_engine_inv demo_run, of 2 "demo_request Issue 2 10"]
    by (simp add: ledger_effect_def)
qed

lemma applied_live:
  assumes "apply_request jops q e = (out, e')" "out_applied out"
  shows "e_recovered e" "\<not> e_journal_failed e" "structural_refusal (e_limits e) q = None"
proof -
  have f: "\<not> out_applied (refuse_outcome x r i)" for x r i by (simp add: refuse_outcome_def)
  show "e_recovered e" "\<not> e_journal_failed e"
    using assms f by (auto simp: apply_request_def split: if_splits)
  then show "structural_refusal (e_limits e) q = None"
    using assms f by (auto simp: apply_request_def apply_locked_def Let_def split: option.splits)
qed



text \<open>C3: at most once. In any run, no two applied attempts of an account carry the same incarnation and
  sequence number, however often clients retry.\<close>

theorem attempts_apply_at_most_once:
  assumes "engine_inv e" "engine_run jops e calls e'"
  shows "distinct (map attempt_key (applied_to k calls))"
  using run_at_most_once assms by blast

theorem attempts_apply_at_most_once_witness:
  "let q = demo_request Issue 2 10; once = apply_request in_memory_ops q demo_engine;
       again = apply_request in_memory_ops q (snd once)
   in applied_to 2 [CallApply q (fst once), CallApply q (fst again)] = [q]"
proof -
  let ?q = "demo_request Issue 2 10"
  let ?once = "apply_request in_memory_ops ?q demo_engine"
  let ?again = "apply_request in_memory_ops ?q (snd ?once)"
  have "engine_run in_memory_ops demo_engine ([CallApply ?q (fst ?once)] @ [CallApply ?q (fst ?again)]) (snd ?again)"
    by (rule run_step [OF demo_run step_apply]) simp
  from attempts_apply_at_most_once [OF demo_engine_inv this, of 2] show ?thesis
    using demo_issue_applied by (auto simp: request_key_def Let_def split: if_splits)
qed

text \<open>C13: fences are permanent. Once an incarnation is fenced in an account, it is fenced after any
  further run, and no request it presents to that account is ever applied or changes any account.\<close>

theorem fences_are_permanent:
  assumes "engine_inv e" "fmlookup (e_accounts e) k = Some a" "is_fenced a i" "engine_run jops e calls e'"
  shows "\<exists>a'. fmlookup (e_accounts e') k = Some a' \<and> is_fenced a' i \<and>
           (\<forall>q out e''. apply_request jops q e' = (out, e'') \<and> request_key q = k \<and>
              av_incarnation (req_authority q) = i \<longrightarrow> \<not> out_applied out \<and> e_accounts e'' = e_accounts e')"
proof -
  obtain a' where a': "fmlookup (e_accounts e') k = Some a'" "progress a a'"
    using run_progress [OF assms(4,1,2)] by blast
  have inv: "account_inv (e_limits e') a'" using engine_invD(1) [OF run_keeps_inv [OF assms(4,1)] a'(1)] .
  have f: "is_fenced a' i" by (rule fenced_progress [OF a'(2) assms(3)])
  have "\<not> out_applied out \<and> e_accounts e'' = e_accounts e'"
    if "apply_request jops q e' = (out, e'')" "request_key q = k" "av_incarnation (req_authority q) = i" for q out e''
  proof -
    have no: "\<not> admitted e' q x" for x
      using fenced_is_refused [OF inv, of q e'] f that a'(1) by (auto simp: admitted_def)
    from that(1) show ?thesis
    proof (cases rule: apply_cases)
      case quiet
      show ?thesis using quiet_same [OF quiet(1)] quiet(2) by simp
    qed (use no that(2) a'(1) in auto)
  qed
  with a'(1) f show ?thesis by blast
qed

definition demo_fenced :: AccountState where
  "demo_fenced = fence_target ((demo_request Fence 2 0)\<lparr>req_target := inc_id demo_operator\<rparr>) demo_account"

theorem fences_are_permanent_witness:
  "\<not> out_applied (fst (apply_request in_memory_ops (demo_request Issue 2 10)
        (put_account 2 demo_fenced demo_engine)))"
proof -
  let ?e = "put_account 2 demo_fenced demo_engine"
  have inv: "account_inv default_limits demo_fenced"
    unfolding demo_fenced_def
    by (rule account_inv_fence(1) [OF demo_account_inv]) (simp_all add: demo_caller default_limits_def)
  have "as_account demo_fenced = StrongId 2" "as_window demo_fenced = as_window demo_account"
    by (simp_all add: demo_fenced_def fence_target_def Let_def)
  then have "engine_inv ?e"
    using engine_inv_put [OF demo_engine_inv, of ?e 2 demo_fenced] inv engine_invD(3) [OF demo_engine_inv, of 2 demo_account]
    by simp
  moreover have "is_fenced demo_fenced (inc_id demo_operator)"
    by (simp add: demo_fenced_def fence_target_def is_fenced_def Let_def)
  ultimately obtain a' where "\<forall>q out e''. apply_request in_memory_ops q ?e = (out, e'') \<and> request_key q = 2 \<and>
      av_incarnation (req_authority q) = inc_id demo_operator \<longrightarrow> \<not> out_applied out \<and> e_accounts e'' = e_accounts ?e"
    using fences_are_permanent [of ?e 2 demo_fenced "inc_id demo_operator" in_memory_ops "[]" ?e, OF _ _ _ run_start]
    by auto
  then show ?thesis
    by (rule allE [of _ "demo_request Issue 2 10"]) (simp add: request_key_def split_paired_all prod_eq_iff)
qed




lemma request_digest_count:
  assumes "c \<noteq> req_count r"
  shows "request_digest (r\<lparr>req_count := c\<rparr>) \<noteq> request_digest r"
proof -
  let ?xs = "[DDigest (attempt_value (req_attempt r)), DU64 (of_nat (op_value (req_op r))),
        DU64 (req_sequence r), DDigest (authority_digest (req_authority r)),
        DU64 (id_value (inc_publisher (req_presenter r))), DU64 (id_value (inc_boot (req_presenter r))),
        DU64 (id_value (inc_id (req_presenter r))), DU64 (id_value (req_resource r)),
        DU64 (id_value (req_producer r)), DU64 (id_value (req_consumer r)),
        DU64 (id_value (req_grant r)), DU64 (id_value (req_target r))]"
  show ?thesis
    using digest_word_differs [OF assms, of "keyed_builder (Digest128 0xFEEDFACE12345678 0x87654321CEFAEDEF)" ?xs]
    unfolding request_digest_def by simp
qed


lemma decide_ledger_refusal: "decide_ledger q a = DecRefusal r i b \<Longrightarrow> b = a"
  by (auto simp: decide_ledger_def split: prod.splits if_splits)

lemma decide_refusal_account:
  assumes "decide e q a = DecRefusal r i b"
  shows "b = a\<lparr>as_incarnations := as_incarnations b\<rparr>" "req_op q \<noteq> Issue \<Longrightarrow> b = a"
  using assms
  by (auto simp: decide_def decide_control_def decide_data_def set_incarnation_def Let_def
      split: if_splits control_step.splits option.splits prod.splits dest!: decide_ledger_refusal)

lemma rolled_back_account:
  assumes "account_inv (e_limits e) a" "admitted e q a" "\<forall>r i b. decide e q a \<noteq> DecRefuse r i b"
  defines "r \<equiv> rolled_back q a (decide e q a)"
  shows "r = a\<lparr>as_incarnations := as_incarnations r\<rparr>"
    "req_op q \<notin> {AdvanceEpoch, Rotate, Issue} \<Longrightarrow> r = a"
proof -
  note f = decide_facts [OF assms(1,2)]
  have *: "r = a\<lparr>as_incarnations := as_incarnations r\<rparr> \<and> (req_op q \<notin> {AdvanceEpoch, Rotate, Issue} \<longrightarrow> r = a)"
  proof (cases "decide e q a")
    case (DecApply b)
    then have ev: "account_evolves a b" using f by (simp add: decision_facts_def)
    have r: "r = restore_backup
            (capture_backup a (av_incarnation (req_authority q)) (decision_subject q))
            (av_incarnation (req_authority q)) (decision_subject q) b"
      by (simp add: r_def rolled_back_def DecApply)
    note t = decide_touches [OF DecApply]
    have "r = a\<lparr>as_incarnations := as_incarnations r\<rparr>"
      using unchanged_fields [OF restore_backup_fields [OF ev]] unfolding r .
    moreover have "r = a" if "\<not> advances q"
      unfolding r using t that by (intro restore_backup_exact [OF ev]) (auto simp: untouched_def)
    ultimately show ?thesis by (auto simp: advances_def)
  next
    case (DecRefusal r' i b)
    then show ?thesis using decide_refusal_account [OF DecRefusal] by (simp add: r_def rolled_back_def)
  qed (use assms(3) in simp)
  then show "r = a\<lparr>as_incarnations := as_incarnations r\<rparr>" by blast
  show "req_op q \<notin> {AdvanceEpoch, Rotate, Issue} \<Longrightarrow> r = a" using * by blast
qed


definition demo_full :: "InMemoryJournal engine" where
  "demo_full = demo_engine\<lparr>e_journal := Some (make_in_memory 0)\<rparr>"

lemma full_persist:
  assumes "e_journal e = Some (make_in_memory 0)"
  shows "\<not> status_ok (fst (persist_locked in_memory_ops q x a c e))"
proof -
  have "unat (of_nat (length (encode_request_body q)) + 8 :: u64) = length (encode_request_body q) + 8"
    using length_request_body [of q]
    by (simp add: unat_word_ariths unat_of_nat take_bit_eq_mod)
  then have "(0 :: u64) < of_nat (length (encode_request_body q)) + 8" by (simp add: word_less_nat_alt)
  then show ?thesis
    using assms by (simp add: persist_locked_def encode_request_message_def with_journal_def in_memory_ops_def
        mem_append_def make_in_memory_def Let_def status_ok_def)
qed


lemma advance_transition:
  assumes "decide e q a = DecApply b" "req_op q \<in> {AdvanceEpoch, Rotate}"
  shows "unat (id_value (as_generation b)) = unat (id_value (as_generation a)) + 1"
    "unat (id_value (as_epoch a)) < unat (id_value (as_epoch b))"
    "find_incarnation b i = Some r \<Longrightarrow> ir_state r \<noteq> Reconciled"
proof -
  have "classify_op (req_op q) = ControlOp" using assms(2) by auto
  then obtain c where c: "control_transition (e_limits e) q a = CtlApplied c" "b = count_committed q c"
    using assms(1) by (auto simp: decide_def decide_control_def split: if_splits control_step.splits)
  have "control_advance q a = CtlApplied c"
    using c(1) assms(2) by (auto simp: control_transition_def Let_def)
  define p where "p = snd (plan_quarantine_in_flight (make_plan (as_capacity a) (as_totals a)))"
  define ep where "ep = (if req_op q = Rotate then req_count q else snd (add_overflow (id_value (as_epoch a)) 1))"
  define g where "g = snd (add_overflow (id_value (as_generation a)) 1)"
  note c' = \<open>control_advance q a = CtlApplied c\<close>
  have g: "c = demote_all (a\<lparr>as_totals := p_totals p, as_epoch := StrongId ep, as_generation := StrongId g\<rparr>)"
    "add_overflow (id_value (as_generation a)) 1 = (False, g)"
    "req_op q = Rotate \<longrightarrow> id_value (as_epoch a) < ep"
    "req_op q \<noteq> Rotate \<longrightarrow> add_overflow (id_value (as_epoch a)) 1 = (False, ep)"
    using c' unfolding p_def ep_def g_def
    by (auto simp: control_advance_def Let_def not_le split: prod.splits bool.splits if_splits)
  have plus: "unat y = unat x + 1" if "add_overflow x 1 = (False, y)" for x y :: u64
    using that by (cases rule: add_overflow_cases [of x 1]) auto
  show "unat (id_value (as_generation b)) = unat (id_value (as_generation a)) + 1"
    using plus [OF g(2)] by (simp add: c(2) g(1) demote_all_def)
  show "unat (id_value (as_epoch a)) < unat (id_value (as_epoch b))"
    using g(3,4) plus by (cases "req_op q = Rotate") (simp_all add: c(2) g(1) demote_all_def word_less_nat_alt)
  have d: "ir_state (demote z) \<noteq> Reconciled" for z by (simp add: demote_def)
  show "ir_state r \<noteq> Reconciled" if "find_incarnation b i = Some r"
    using that d by (auto simp: c(2) g(1) demote_all_def find_incarnation_def count_committed_lookup split: if_splits)
qed

text \<open>C14: an epoch change cuts off everything that was in flight. Applying \<open>AdvanceEpoch\<close> or \<open>Rotate\<close>
  raises the epoch, adds one to the generation, moves every outstanding and spent credit to quarantine and no
  other credit anywhere, and leaves no incarnation live, so that every request other than a reconciliation is
  refused until its incarnation reconciles again.\<close>

theorem epoch_change_quarantines:
  assumes "engine_inv e" "apply_request jops q e = (out, e')" "out_applied out" "req_op q \<in> {AdvanceEpoch, Rotate}"
  shows "\<exists>a a'. fmlookup (e_accounts e) (request_key q) = Some a \<and> fmlookup (e_accounts e') (request_key q) = Some a' \<and>
           unat (id_value (as_generation a')) = unat (id_value (as_generation a)) + 1 \<and>
           unat (id_value (as_epoch a)) < unat (id_value (as_epoch a')) \<and>
           pool_of (as_capacity a') (as_totals a') =
             (let b = pool_of (as_capacity a) (as_totals a)
              in b\<lparr>outstanding := 0, spent_credit := 0, stale_credit := stale_credit b + outstanding b + spent_credit b\<rparr>) \<and>
           (\<forall>q2. req_op q2 \<noteq> Reconcile \<longrightarrow> authority_refusal e' a' q2 \<noteq> None)"
  using assms(2)
proof (cases rule: apply_cases)
  case (applied a b)
  have a: "fmlookup (e_accounts e) (request_key q) = Some a" using applied(1) by (simp add: admitted_def)
  note inv = engine_invD(1) [OF assms(1) a]
  let ?a' = "publish_window q out b"
  have "(as_capacity b, as_totals b) = ledger_apply_op L_Quarantine (as_capacity a, as_totals a)"
    using decide_facts [OF inv applied(1)] applied(2) assms(4)
    by (auto simp: decision_facts_def ledger_op_of_def ledger_effect_def)
  then have pool: "pool_of (as_capacity b) (as_totals b) = pool_apply L_Quarantine (pool_of (as_capacity a) (as_totals a))"
    using ledger_apply_op_refines [of "(as_capacity a, as_totals a)" L_Quarantine] account_invD(1) [OF inv]
    by (metis fst_conv snd_conv)
  note adv = advance_transition [OF applied(2) assms(4)]
  have dead: "\<not> is_live x y r" if "find_incarnation ?a' i = Some r" for i r x y
    using that adv(3) by (fastforce simp: find_incarnation_def publish_window_lookup is_live_def split: if_splits)
  have "authority_refusal e' ?a' q2 \<noteq> None" if "req_op q2 \<noteq> Reconcile" for q2
    using authority_admits(6) [of e' ?a' q2] that dead by blast
  then show ?thesis
    using a applied(3) adv(1,2) pool by (intro exI [of _ a] exI [of _ ?a']) (simp add: pool_apply_def Let_def)
qed (use assms(3,4) in auto)

theorem epoch_change_quarantines_witness:
  "let r = apply_request in_memory_ops (demo_request AdvanceEpoch 2 0) demo_engine
   in out_applied (fst r) \<and> (\<exists>a'. fmlookup (e_accounts (snd r)) 2 = Some a' \<and> unat (id_value (as_generation a')) = 2)"
proof -
  let ?q = "demo_request AdvanceEpoch 2 0"
  obtain out e' where c: "apply_request in_memory_ops ?q demo_engine = (out, e')" by fastforce
  have adm: "admitted demo_engine ?q demo_account" by (rule demo_admitted) simp_all
  have "fst (plan_quarantine_in_flight (make_plan 100 zero_totals))" by code_simp
  then have "\<exists>b. decide demo_engine ?q demo_account = DecApply b"
    by (auto simp: decide_def decide_control_def control_transition_def control_advance_def Let_def
        add_overflow_def is_zero_def split: prod.splits bool.splits)
  then have ap: "out_applied out" using mem_space.room_acknowledges(1) [OF demo_room c adm] by blast
  show ?thesis
    using epoch_change_quarantines [OF demo_engine_inv c ap] c ap by (auto simp: request_key_def Let_def)
qed

end
