(* ===== verification/Durability.thy ===== *)
theory Durability
  imports Runs
begin

text \<open>
  What the journal holds. Inside the journal contract: a decision that was acknowledged is in the log
  behind its intent, or covered by a snapshot; the replay loop ends; a successful recovery leaves no
  incarnation live. The replay of a recorded attempt makes exactly the transition the live engine
  made, and so recovering the log of a run rebuilds the accounts of the run.
\<close>

subsection \<open>What a decision leaves in the journal\<close>

lemma settled_persisted:
  assumes "apply_request jops q e = (out, e')" "out_decided out" "\<not> out_duplicate out"
    "reason (out_status out) \<noteq> AttemptConflict"
  shows "\<exists>b created s e1. persist_locked jops q out (Some b) created (put_account (request_key q) b e) = (s, e1) \<and>
           status_ok s \<and> e_journal e' = e_journal e1 \<and> e_chain e' = e_chain e1 \<and>
           created = (req_op q = Open) \<and> out_state_digest out = account_digest b \<and>
           out_view out = account_view b \<and>
           (if req_op q = Open then b = open_account (max_attempt_window (e_limits e)) q \<and> open_refusal e q = None
            else \<exists>a. admitted e q a \<and>
              (if out_applied out then decide e q a = DecApply b
               else \<exists>r i c. decide e q a = DecRefusal r i c \<and> b = count_refused q c))"
  using assms(1)
proof (cases rule: apply_request_cases)
  case quiet
  then show ?thesis using assms by blast
next
  case opened
  show ?thesis
  proof (cases "open_refusal e q")
    case None
    note adm = open_admits [OF None]
    show ?thesis
      using opened(4,5) None assms(2) adm(2)
      by (auto simp: create_account_locked_alt open_commit_def request_key_def persist_failure_def Let_def
          bump_applied_def open_outcome_def split: prod.splits if_splits) blast
  next
    case (Some w)
    then show ?thesis
      using opened(5) assms(2)
      by (cases w) (auto simp: create_account_locked_alt refuse_outcome_def initial_outcome_def default_outcome_def)
  qed
next
  case (decided a)
  have op: "req_op q \<noteq> Open" using decided(1) by (simp add: admitted_def)
  have un: "\<not> out_applied (bind_outcome a (initial_outcome q))" "\<not> out_decided (bind_outcome a (initial_outcome q))"
    by simp_all
  show ?thesis
  proof (cases "decide e q a")
    case (DecRefuse r i b)
    then show ?thesis using decided(2) assms(2) un by (auto simp: enact_def refuse_outcome_def)
  next
    case (DecRefusal r i c)
    obtain x where x: "x = (decided_refusal (bind_outcome a (initial_outcome q)) r i)
        \<lparr>out_view := account_view (count_refused q c), out_state_digest := account_digest (count_refused q c)\<rparr>" by simp
    obtain s e1 where p: "persist_locked jops q x (Some (count_refused q c)) False
        (put_account (request_key q) (count_refused q c) e) = (s, e1)" by fastforce
    have ok: "status_ok s" and res: "out = x" "e_journal e' = e_journal e1" "e_chain e' = e_chain e1"
      using decided(2) DecRefusal p assms(2)
      by (auto simp: enact_def finish_decided_def persist_failure_def bump_refused_def Let_def x [symmetric] split: if_splits)
    have "\<not> out_applied out" "out_state_digest out = account_digest (count_refused q c)"
      "out_view out = account_view (count_refused q c)"
      by (simp_all add: res x decided_refusal_def)
    then show ?thesis
      using p ok op res decided(1) DecRefusal by (intro exI [of _ "count_refused q c"] exI [of _ False]) auto
  next
    case (DecApply b)
    obtain x where x: "x = (bind_outcome a (initial_outcome q))\<lparr>out_applied := True, out_decided := True,
        out_status := success, out_view := account_view b, out_state_digest := account_digest b\<rparr>" by simp
    obtain s e1 where p: "persist_locked jops q x (Some b) False (put_account (request_key q) b e) = (s, e1)" by fastforce
    have ok: "status_ok s" and res: "out = x" "e_journal e' = e_journal e1" "e_chain e' = e_chain e1"
      using decided(2) DecApply p assms(2)
      by (auto simp: enact_def commit_applied_def persist_failure_def bump_applied_def Let_def x [symmetric] split: if_splits)
    have "out_applied out" "out_state_digest out = account_digest b" "out_view out = account_view b"
      by (simp_all add: res x)
    then show ?thesis using p ok op res decided(1) DecApply by (intro exI [of _ b] exI [of _ False]) auto
  qed
qed

abbreviation intent_record :: "'j engine \<Rightarrow> CreditRequest \<Rightarrow> log_record" where
  "intent_record e q \<equiv> LogRecord (e_next_sequence e) KindIntent
     (intent_chain_of (e_chain e) (e_next_sequence e) q) (encode_request_body q)"

abbreviation attempt_record :: "'j engine \<Rightarrow> DurableAttempt \<Rightarrow> log_record" where
  "attempt_record e t \<equiv> LogRecord (e_next_sequence e + 1) KindAttempt
     (commit_chain_of (e_chain e) (e_next_sequence e + 1) (dt_request t) (dt_outcome t))
     (encode_durable_attempt_body t)"

context journal_contract
begin

definition journaled :: "'j engine \<Rightarrow> bool" where
  "journaled e \<longleftrightarrow> (\<exists>j. e_journal e = Some j \<and> ready j)"

definition durable_log :: "'j engine \<Rightarrow> log_record list" where
  "durable_log e = log (the (e_journal e))"

definition durable_snap :: "'j engine \<Rightarrow> (u64 \<times> Digest128 \<times> bytes) option" where
  "durable_snap e = snap (the (e_journal e))"

lemma append_step:
  assumes "journaled e" "with_journal (j_append jops n k c p) e = (s, e')" "status_ok s" "k \<noteq> KindUnknown"
  shows "journaled e' \<and> durable_log e' = durable_log e @ [LogRecord n k c p] \<and> durable_snap e' = durable_snap e"
  using assms append_ok [of "the (e_journal e)" k n c p s]
  by (auto simp: journaled_def durable_log_def durable_snap_def with_journal_def split: prod.splits)

text \<open>A snapshot that succeeds is readable, and covers everything in the log before it.\<close>

lemma snapshot_step:
  assumes "journaled e" "snapshot_locked jops e = (s, e')" "status_ok s"
  shows "journaled e' \<and>
           durable_snap e' = Some (e_next_sequence e, e_chain e, encode_durable_state_body (snapshot_state e)) \<and>
           (\<forall>l \<in> set (durable_log e'). l \<in> set (durable_log e) \<and> e_next_sequence e < lr_sequence l)"
proof -
  have nn: "e_journal e \<noteq> None" using assms(1) by (auto simp: journaled_def)
  define payload where "payload = encode_durable_state_body (snapshot_state e)"
  have p: "encode_durable_state (snapshot_state e) = Inr payload" by (simp add: encode_durable_state_def payload_def)
  obtain s1 e1 where e1: "with_journal (j_append jops (e_next_sequence e) KindSnapshot (e_chain e) payload) e = (s1, e1)"
    by fastforce
  define e2 where "e2 = e1\<lparr>e_next_sequence := e_next_sequence e1 + 1, e_journal_records := e_journal_records e1 + 1\<rparr>"
  obtain s3 e3 where e3: "with_journal (j_write_snapshot jops (e_next_sequence e) (e_chain e2) payload) e2 = (s3, e3)"
    by fastforce
  obtain s4 e4 where e4: "with_journal (j_rotate jops (e_next_sequence e)) e3 = (s4, e4)" by fastforce
  have ok: "status_ok s1" "status_ok s3" "status_ok s4" and e': "e_journal e' = e_journal e4"
    using assms(2,3) nn p e1 e3 e4 unfolding snapshot_locked_def Let_def e2_def
    by (auto simp: Let_def split: if_splits)
  have ch: "e_chain e2 = e_chain e" using e1 by (auto simp: e2_def with_journal_def split: prod.splits)
  note a1 = append_step [OF assms(1) e1 ok(1) JournalRecordKind.distinct(4)]
  then have a2: "journaled e2" "durable_log e2 = durable_log e1" "durable_snap e2 = durable_snap e1"
    by (simp_all add: e2_def journaled_def durable_log_def durable_snap_def)
  have a3: "journaled e3 \<and> durable_log e3 = durable_log e2 \<and> durable_snap e3 = Some (e_next_sequence e, e_chain e2, payload)"
    using a2(1) e3 ok(2) write_snapshot_ok [of "the (e_journal e2)" "e_next_sequence e" "e_chain e2" payload s3]
    by (auto simp: journaled_def durable_log_def durable_snap_def with_journal_def split: prod.splits)
  have "journaled e4 \<and> set (durable_log e4) \<subseteq> {l \<in> set (durable_log e3). e_next_sequence e < lr_sequence l} \<and>
      durable_snap e4 = durable_snap e3"
    using a3 e4 ok(3) rotate_ok [of "the (e_journal e3)" "e_next_sequence e" s4]
    by (auto simp: journaled_def durable_log_def durable_snap_def with_journal_def split: prod.splits)
  then show ?thesis
    using a1 a2 a3 ch e' by (auto simp: journaled_def durable_log_def durable_snap_def payload_def)
qed

lemma persist_step:
  assumes "journaled e" "persist_locked jops q x (Some b) created e = (s, e')" "status_ok s"
  defines "t \<equiv> durable_attempt q x (Some b) created (e_stats e)"
  shows "journaled e' \<and>
     (durable_log e' = durable_log e @ [intent_record e q, attempt_record e t] \<and> durable_snap e' = durable_snap e \<and>
        e_chain e' = lr_chain (attempt_record e t) \<or>
      (\<exists>f :: 'j engine. e_accounts f = e_accounts e \<and> durable_snap e' =
         Some (e_next_sequence e + 2, lr_chain (attempt_record e t), encode_durable_state_body (snapshot_state f))))"
proof -
  let ?n = "e_next_sequence e"
  obtain s1 e1 where e1: "with_journal (j_append jops ?n KindIntent (intent_chain_of (e_chain e) ?n q) (encode_request_body q)) e = (s1, e1)"
    by fastforce
  define e2 where "e2 = e1\<lparr>e_next_sequence := e_next_sequence e1 + 1\<rparr>"
  have fr: "e_stats e2 = e_stats e" "e_chain e2 = e_chain e" "e_next_sequence e2 = ?n + 1" "e_accounts e2 = e_accounts e"
    using e1 by (auto simp: e2_def with_journal_def split: prod.splits)
  have t: "dt_request t = q" "dt_outcome t = x" by (simp_all add: t_def durable_attempt_def)
  obtain s3 e3 where e3: "with_journal (j_append jops (?n + 1) KindAttempt (commit_chain_of (e_chain e) (?n + 1) q x)
      (encode_durable_attempt_body t)) e2 = (s3, e3)" by fastforce
  have fr3: "e_next_sequence e3 = ?n + 1" "e_accounts e3 = e_accounts e"
    using e3 fr by (auto simp: with_journal_def split: prod.splits)
  define e4 where "e4 = e3\<lparr>e_chain := commit_chain_of (e_chain e) (?n + 1) q x, e_next_sequence := ?n + 2,
      e_journal_records := e_journal_records e3 + 2,
      e_stats := (e_stats e3)\<lparr>st_journal_records := e_journal_records e3 + 2, st_journal_bytes := journal_size jops e3\<rparr>\<rparr>"
  have ok: "status_ok s1" "status_ok s3"
    and fin: "snapshot_locked jops e4 = (s, e') \<or> e' = e4"
    using assms(2,3) e1 e3 fr fr3 unfolding persist_locked_def encode_request_message_def encode_durable_attempt_def
      Let_def e2_def [symmetric] t_def [symmetric]
    by (auto simp: Let_def e2_def [symmetric] t_def [symmetric] e4_def add.assoc split: if_splits)
  note a1 = append_step [OF assms(1) e1 ok(1) JournalRecordKind.distinct(6)]
  then have "journaled e2" "durable_log e2 = durable_log e @ [intent_record e q]" "durable_snap e2 = durable_snap e"
    by (simp_all add: e2_def journaled_def durable_log_def durable_snap_def)
  with append_step [OF _ e3 ok(2) JournalRecordKind.distinct(2)]
  have a4: "journaled e4" "durable_log e4 = durable_log e @ [intent_record e q, attempt_record e t]" "durable_snap e4 = durable_snap e"
    by (simp_all add: e4_def journaled_def durable_log_def durable_snap_def t)
  have "e_next_sequence e4 = ?n + 2" "e_chain e4 = lr_chain (attempt_record e t)" "e_accounts e4 = e_accounts e"
    by (simp_all add: e4_def t fr3)
  then show ?thesis
    using fin a4 snapshot_step [OF a4(1) _ assms(3), of e'] by auto
qed

lemma acknowledged_durable:
  assumes "apply_request jops q e = (out, e')" "out_decided out" "\<not> out_duplicate out"
    "reason (out_status out) \<noteq> AttemptConflict" "e_journal e = Some j" "ready j"
  shows "\<exists>j' b t. e_journal e' = Some j' \<and> ready j' \<and> account_digest b = out_state_digest out \<and>
           t = durable_attempt q out (Some b) (req_op q = Open) (e_stats e) \<and>
           (log j' = log j @ [intent_record e q, attempt_record e t] \<and> snap j' = snap j \<or>
            (\<exists>f :: 'j engine. e_accounts f = fmupd (request_key q) b (e_accounts e) \<and>
               snap j' = Some (e_next_sequence e + 2, lr_chain (attempt_record e t),
                 encode_durable_state_body (snapshot_state f))))"
proof -
  obtain b s e1 where p: "persist_locked jops q out (Some b) (req_op q = Open) (put_account (request_key q) b e) = (s, e1)"
    "status_ok s" "e_journal e' = e_journal e1" "out_state_digest out = account_digest b"
    using settled_persisted [OF assms(1-4)] by blast
  have ready: "journaled (put_account (request_key q) b e)"
    using assms(5,6) by (simp add: journaled_def)
  let ?t = "durable_attempt q out (Some b) (req_op q = Open) (e_stats e)"
  have t: "dt_request ?t = q" "dt_outcome ?t = out" by (simp_all add: durable_attempt_def)
  obtain j' where j': "e_journal e' = Some j'" "ready j'"
    using persist_step [OF ready p(1,2)] p(3) by (auto simp: journaled_def)
  have e1: "e_journal e1 = Some j'" using j'(1) p(3) by simp
  have "log j' = log j @ [intent_record e q, attempt_record e ?t] \<and> snap j' = snap j \<or>
      (\<exists>f :: 'j engine. e_accounts f = fmupd (request_key q) b (e_accounts e) \<and>
         snap j' = Some (e_next_sequence e + 2, lr_chain (attempt_record e ?t),
           encode_durable_state_body (snapshot_state f)))"
    using persist_step [OF ready p(1,2)] e1 assms(5) t
    by (simp add: durable_log_def durable_snap_def) blast
  with j' p(4) show ?thesis by (intro exI [of _ j'] exI [of _ b] exI [of _ ?t]) simp
qed

end

subsection \<open>Recovery terminates, and nobody is live after it\<close>

lemma restore_durable_journal:
  "restore_durable_state d e = (s, e') \<Longrightarrow> e' = e\<lparr>e_accounts := e_accounts e'\<rparr>"
  by (auto simp: restore_durable_state_def split: prod.splits)

lemma mark_ambiguous_journal [simp]:
  "e_journal (mark_ambiguous q n e) = e_journal e" "e_limits (mark_ambiguous q n e) = e_limits e"
  "e_chain (mark_ambiguous q n e) = e_chain e"
  by (simp_all add: mark_ambiguous_def Let_def split: option.splits)

lemma replay_finish_journal:
  "replay_finish t k a e = (s, e') \<Longrightarrow> e_journal e' = e_journal e \<and> e_limits e' = e_limits e"
  by (auto simp: replay_finish_def Let_def split: if_splits)

lemma replay_attempt_journal:
  "replay_attempt t e = (s, e') \<Longrightarrow> e_journal e' = e_journal e \<and> e_limits e' = e_limits e"
  by (auto simp: replay_attempt_def Let_def dest: replay_finish_journal split: if_splits option.splits prod.splits)

lemma bump_replayed_frame [simp]:
  "e_journal (bump_replayed e) = e_journal e" "e_limits (bump_replayed e) = e_limits e"
  "e_accounts (bump_replayed e) = e_accounts e" "e_chain (bump_replayed e) = e_chain e"
  by (simp_all add: bump_replayed_def)

lemma replay_record_journal:
  assumes "replay_record ss r e = (s, e')"
  shows "e_journal e' = e_journal e \<and> e_limits e' = e_limits e"
proof (cases "jr_kind r")
  case KindSnapshot
  have frame: "e_journal e1 = e_journal e \<and> e_limits e1 = e_limits e" if "restore_durable_state d e = (s1, e1)" for d s1 e1
    using that by (auto simp: restore_durable_state_def split: prod.splits)
  show ?thesis
    using assms KindSnapshot by (auto simp: replay_record_def dest!: frame split: if_splits sum.splits prod.splits)
qed (use assms in \<open>auto simp: replay_record_def dest!: replay_attempt_journal split: if_splits sum.splits prod.splits\<close>)

context journal_contract
begin

lemma replay_loop_ends:
  assumes "e_journal e = Some j" "reading j" "length (pending j) < fuel"
  shows "replay_loop jops fuel ss e \<noteq> None"
  using assms
proof (induction fuel arbitrary: e j)
  case (Suc fuel)
  show ?case
  proof (cases "pending j")
    case Nil
    obtain r j1 where "j_next_record jops j = (success, r, j1)" "\<not> jr_valid r"
      using next_record_end [OF Suc.prems(2) Nil] by blast
    then show ?thesis using Suc.prems(1) by (simp add: Let_def)
  next
    case (Cons l ls)
    obtain n j1 where n: "j_next_record jops j = (success, record_of l n, j1)" "reading j1" "pending j1 = ls"
      using next_record_some [OF Suc.prems(2) Cons] by blast
    obtain s2 e2 where r: "replay_record ss (record_of l n) (e\<lparr>e_journal := Some j1\<rparr>) = (s2, e2)" by fastforce
    have "e_journal e2 = Some j1" using replay_record_journal [OF r] by simp
    then show ?thesis using Suc.IH [of e2 j1] Suc.prems Cons n r by (simp add: Let_def)
  qed
qed simp

text \<open>The start of recovery, on a journal that can be read.\<close>

lemma recover_opens:
  assumes "e_journal e = Some j" "sane j"
  obtains s ss e1 j1 where "recover_snapshot jops e = (s, ss, e1)" "e_journal e1 = Some j1" "fresh j1"
    "log j1 = log j" "snap j1 = snap j" "e_limits e1 = e_limits e"
    "snap j = None \<Longrightarrow> s = success \<and> ss = None \<and> e1 = e\<lparr>e_accounts := fmempty, e_next_sequence := 1, e_chain := zero_digest,
        e_journal_records := 0, e_snapshots := 0, e_journal := Some j1\<rparr>"
proof -
  obtain j0 where o: "j_open jops j = (success, j0)" "fresh j0" "log j0 = log j" "snap j0 = snap j"
    using open_sane [OF assms(2)] by blast
  obtain j1 where rd: "j_read_snapshot jops j0 = (success, snap j, j1)" "fresh j1" "log j1 = log j" "snap j1 = snap j"
    using read_snapshot_fresh [OF o(2)] o(3,4) by auto
  obtain s ss e1 where r: "recover_snapshot jops e = (s, ss, e1)" by (metis prod_cases3)
  have fr: "e_journal e1 = Some j1" "e_limits e1 = e_limits e"
    using r assms(1) o(1) rd(1)
    by (auto simp: recover_snapshot_def with_journal_def restore_durable_state_def Let_def
        split: if_splits option.splits sum.splits prod.splits)
  have none: "s = success \<and> ss = None \<and> e1 = e\<lparr>e_accounts := fmempty, e_next_sequence := 1, e_chain := zero_digest,
      e_journal_records := 0, e_snapshots := 0, e_journal := Some j1\<rparr>" if "snap j = None"
    using r assms(1) o(1) rd(1) that by (auto simp: recover_snapshot_def with_journal_def Let_def)
  show thesis by (rule that [OF r fr(1) rd(2-4) fr(2) none])
qed

lemma recover_ends:
  assumes "e_journal e = Some j" "sane j" "length (log j) < fuel"
  shows "recover jops fuel e \<noteq> None"
proof -
  obtain s1 ss e1 j1 where r: "recover_snapshot jops e = (s1, ss, e1)" "e_journal e1 = Some j1" "fresh j1" "log j1 = log j"
    using recover_opens [OF assms(1,2)] by metis
  obtain j2 where b: "j_begin_replay jops j1 = (success, j2)" "reading j2" "pending j2 = log j1"
    using begin_replay_fresh [OF r(3)] by blast
  have "replay_loop jops fuel ss (e1\<lparr>e_journal := Some j2\<rparr>) \<noteq> None"
    using b(2,3) r(4) assms(3) by (intro replay_loop_ends [of _ j2]) simp_all
  then show ?thesis
    using assms(1) r(1,2) b(1) by (auto simp: recover_def with_journal_def split: prod.splits option.splits if_splits)
qed

end

lemma recover_dead:
  assumes "recover jops fuel e = Some (s, e')" "status_ok s"
  shows "e_recovered e'"
    "fmlookup (e_accounts e') k = Some a \<Longrightarrow> find_incarnation a i = Some r \<Longrightarrow> ir_state r \<noteq> Reconciled"
proof -
  obtain e4 where e': "e' = recover_finish jops e4"
    using assms by (auto simp: recover_def split: if_splits prod.splits option.splits)
  then show "e_recovered e'" by (simp add: recover_finish_def Let_def)
  have d: "ir_state (demote z) \<noteq> Reconciled" for z by (simp add: demote_def)
  show "ir_state r \<noteq> Reconciled" if "fmlookup (e_accounts e') k = Some a" "find_incarnation a i = Some r"
    using that d by (auto simp: e' recover_finish_def demote_all_def find_incarnation_def Let_def)
qed



subsection \<open>Replay makes the live transition\<close>

definition replay_step :: "CreditRequest \<Rightarrow> AccountState \<Rightarrow> AccountState option" where
  "replay_step q a =
     (case apply_replay_transition q a of
        (s1, a1) \<Rightarrow> if \<not> status_ok s1 then None
                   else case replay_subject q a1 of
                          (s2, a2) \<Rightarrow> if \<not> status_ok s2 then None else Some (count_committed q a2))"

lemma bind_issue_bound:
  assumes "bind_issue q r = (None, r')"
  shows "r' = (let r1 = (if is_set (req_producer q) then r\<lparr>ir_producer := req_producer q\<rparr> else r);
                   r2 = (if is_set (req_consumer q) then r1\<lparr>ir_consumer := req_consumer q\<rparr> else r1)
               in if is_set (req_grant q) then r2\<lparr>ir_grant := req_grant q\<rparr> else r2)"
  using assms by (auto simp: bind_issue_def Let_def split: if_splits)

lemma set_incarnation_totals:
  "(set_incarnation k r a)\<lparr>as_totals := t\<rparr> = set_incarnation k r (a\<lparr>as_totals := t\<rparr>)"
  by (simp add: set_incarnation_def)

lemma ledger_apply_config: "as_config b = as_config a \<Longrightarrow> ledger_apply b q p = ledger_apply a q p"
  by (cases "req_op q") (simp_all add: ledger_apply_def Let_def)

lemma replay_ledger:
  assumes "op_is_ledger (req_op q)"
  shows "apply_replay_transition q a =
     (case ledger_apply a q (make_plan (as_capacity a) (as_totals a)) of
        (s, p) \<Rightarrow> if \<not> status_ok s then (refused JournalDigestMismatch 140, a)
                  else (success, a\<lparr>as_totals := p_totals p\<rparr>))"
  using assms by (cases "req_op q") (simp_all add: apply_replay_transition_def Let_def)

lemma replay_data:
  assumes "decide_data nonce q a = DecApply b"
  shows "replay_step q a = Some b"
proof -
  consider "req_op q = Reconcile" | "op_is_ledger (req_op q)" "req_op q \<noteq> Issue" "req_op q \<noteq> Reconcile"
    | "req_op q = Issue"
    using assms by (auto simp: decide_data_def Let_def split: if_splits)
  then show ?thesis
  proof cases
    case 1
    then show ?thesis
      using assms by (auto simp: decide_data_def replay_step_def apply_replay_transition_def replay_subject_def
          Let_def split: if_splits)
  next
    case 2
    then have "decide_ledger q a = DecApply b"
      using assms by (simp add: decide_data_def Let_def)
    moreover have "replay_subject q x = (success, x)" for x
      using 2 by (cases "req_op q") (simp_all add: replay_subject_def)
    ultimately show ?thesis
      using 2 by (auto simp: decide_ledger_def replay_step_def replay_ledger split: prod.splits if_splits)
  next
    case 3
    then obtain r r' where r: "find_incarnation a (av_incarnation (req_authority q)) = Some r" "bind_issue q r = (None, r')"
      "decide_ledger q (set_incarnation (id_value (av_incarnation (req_authority q))) r' a) = DecApply b"
      using assms by (auto simp: decide_data_def Let_def split: if_splits option.splits prod.splits)
    obtain s p where p: "ledger_apply a q (make_plan (as_capacity a) (as_totals a)) = (s, p)" by fastforce
    have b: "status_ok s" "b = count_committed q (set_incarnation (id_value (av_incarnation (req_authority q))) r' (a\<lparr>as_totals := p_totals p\<rparr>))"
      using r(3) p ledger_apply_config [of "set_incarnation (id_value (av_incarnation (req_authority q))) r' a" a q]
      by (auto simp: decide_ledger_def set_incarnation_totals split: prod.splits if_splits)
    have "find_incarnation (a\<lparr>as_totals := p_totals p\<rparr>) (av_incarnation (req_authority q)) = Some r"
      using r(1) by (simp add: find_incarnation_def)
    then show ?thesis
      using 3 b p bind_issue_bound [OF r(2)]
      by (simp add: replay_step_def replay_ledger replay_subject_def Let_def)
  qed
qed

lemma replay_ctl_plan:
  assumes "ctl_plan r f = CtlApplied c"
  shows "replay_plan r code f a = (success, c)"
  using assms by (auto simp: ctl_plan_def replay_plan_def split: prod.splits bool.splits)

lemma add_one: "add_overflow x 1 = (False, y) \<Longrightarrow> y = x + (1 :: u64)"
  by (cases rule: add_overflow_cases [of x 1]) auto

lemma replay_advance_live:
  assumes "control_advance q a = CtlApplied c"
  shows "replay_advance q a = (success, c)"
  using assms
  by (auto simp: control_advance_def replay_advance_def Let_def add_overflow_def
      split: prod.splits bool.splits if_splits)

lemma replay_control:
  assumes "control_transition limits q a = CtlApplied c"
  shows "replay_step q a = Some (count_committed q c)"
proof -
  have keep: "replay_subject q x = (success, x)" if "req_op q \<notin> {Reconcile, Fence, RetireIncarnation, Issue}" for x
    using that by (cases "req_op q") (simp_all add: replay_subject_def)
  consider "req_op q = Fence" | "req_op q = RetireIncarnation" | "req_op q \<in> {AdvanceEpoch, Rotate}"
    | "req_op q \<notin> {Fence, RetireIncarnation, AdvanceEpoch, Rotate}" by blast
  then show ?thesis
  proof cases
    case 1
    then show ?thesis
      using assms by (auto simp: control_transition_def control_fence_def replay_step_def apply_replay_transition_def
          replay_subject_def Let_def split: if_splits)
  next
    case 2
    then show ?thesis
      using assms by (auto simp: control_transition_def control_retire_incarnation_def replay_step_def
          apply_replay_transition_def replay_subject_def Let_def split: if_splits option.splits)
  next
    case 3
    then have "replay_advance q a = (success, c)"
      using assms replay_advance_live by (auto simp: control_transition_def Let_def)
    then show ?thesis using 3 keep by (auto simp: replay_step_def apply_replay_transition_def Let_def)
  next
    case 4
    then show ?thesis
      using assms keep replay_ctl_plan
      by (cases "req_op q")
         (auto simp: control_transition_def replay_step_def apply_replay_transition_def Let_def split: if_splits)
  qed
qed

lemma replay_makes_the_transition:
  assumes "decide e q a = DecApply b"
  shows "replay_step q a = Some b"
  using assms replay_data [of "e_challenge e" q a b] replay_control [of "e_limits e" q a]
  by (auto simp: decide_def decide_control_def split: if_splits control_step.splits)

subsection \<open>What the journal does not carry\<close>

text \<open>The refusal log is not journaled and ambiguity notes are rebuilt, so replay is compared with the live
  account up to those fields; no transition reads them.\<close>

definition scrub :: "AmbiguousNote list \<Rightarrow> AccountState \<Rightarrow> AccountState" where
  "scrub notes a = a\<lparr>as_refusals := [], as_refusal_cursor := 0, as_ambiguous := notes\<rparr>"

lemma scrub_sel [simp]:
  "as_config (scrub z a) = as_config a" "as_domain (scrub z a) = as_domain a" "as_account (scrub z a) = as_account a"
  "as_epoch (scrub z a) = as_epoch a" "as_generation (scrub z a) = as_generation a"
  "as_capacity (scrub z a) = as_capacity a" "as_totals (scrub z a) = as_totals a"
  "as_hard_exhausted (scrub z a) = as_hard_exhausted a" "as_exhaustion_cause (scrub z a) = as_exhaustion_cause a"
  "as_window (scrub z a) = as_window a" "as_incarnations (scrub z a) = as_incarnations a"
  "as_fences (scrub z a) = as_fences a" "as_ambiguous (scrub z a) = z"
  "as_committed_attempts (scrub z a) = as_committed_attempts a"
  "as_refused_attempts (scrub z a) = as_refused_attempts a"
  "account_digest (scrub z a) = account_digest a" "account_view (scrub z a) = account_view a"
  "find_incarnation (scrub z a) i = find_incarnation a i"
  by (simp_all add: scrub_def account_digest_def account_view_def find_incarnation_def)

lemma scrub_scrub [simp]: "scrub y (scrub z a) = scrub y a"
  by (simp add: scrub_def)

lemma scrub_upd [simp]:
  "(scrub z a)\<lparr>as_totals := t\<rparr> = scrub z (a\<lparr>as_totals := t\<rparr>)"
  "(scrub z a)\<lparr>as_capacity := c\<rparr> = scrub z (a\<lparr>as_capacity := c\<rparr>)"
  "(scrub z a)\<lparr>as_hard_exhausted := h\<rparr> = scrub z (a\<lparr>as_hard_exhausted := h\<rparr>)"
  "(scrub z a)\<lparr>as_exhaustion_cause := w\<rparr> = scrub z (a\<lparr>as_exhaustion_cause := w\<rparr>)"
  "(scrub z a)\<lparr>as_fences := f\<rparr> = scrub z (a\<lparr>as_fences := f\<rparr>)"
  "(scrub z a)\<lparr>as_committed_attempts := n\<rparr> = scrub z (a\<lparr>as_committed_attempts := n\<rparr>)"
  "(scrub z a)\<lparr>as_refused_attempts := n\<rparr> = scrub z (a\<lparr>as_refused_attempts := n\<rparr>)"
  "(scrub z a)\<lparr>as_window := v\<rparr> = scrub z (a\<lparr>as_window := v\<rparr>)"
  "(scrub z a)\<lparr>as_ambiguous := y\<rparr> = scrub y a"
  "(scrub z a)\<lparr>as_epoch := e\<rparr> = scrub z (a\<lparr>as_epoch := e\<rparr>)"
  "(scrub z a)\<lparr>as_generation := g\<rparr> = scrub z (a\<lparr>as_generation := g\<rparr>)"
  "set_incarnation k r (scrub z a) = scrub z (set_incarnation k r a)"
  "demote_all (scrub z a) = scrub z (demote_all a)"
  by (simp_all add: scrub_def set_incarnation_def demote_all_def)

lemma scrub_update [simp]: "update_incarnation i f (scrub z a) = scrub z (update_incarnation i f a)"
  by (simp add: update_incarnation_def split: option.splits)

lemma scrub_count [simp]:
  "count_committed q (scrub z a) = scrub z (count_committed q a)"
  "count_refused q (scrub z a) = scrub z (count_refused q a)"
  by (simp_all add: count_committed_def count_refused_def)

lemma scrub_subjects [simp]:
  "reconcile_incarnation q (scrub z a) = scrub z (reconcile_incarnation q a)"
  "fence_target q (scrub z a) = scrub z (fence_target q a)"
  by (simp_all add: reconcile_incarnation_def fence_target_def Let_def split: option.splits)

lemma replay_plan_scrub:
  "(\<And>p. g p = scrub z (f p)) \<Longrightarrow> replay_plan r c g (scrub z a) = map_prod id (scrub z) (replay_plan r c f a)"
  by (simp add: replay_plan_def split: prod.splits bool.splits)

lemma replay_advance_scrub: "replay_advance q (scrub z a) = map_prod id (scrub z) (replay_advance q a)"
  by (simp add: replay_advance_def Let_def split: prod.splits bool.splits)

lemma replay_transition_scrub:
  "apply_replay_transition q (scrub z a) = map_prod id (scrub z) (apply_replay_transition q a)"
proof -
  have l: "ledger_apply (scrub z a) q p = ledger_apply a q p" for p by (rule ledger_apply_config) simp
  show ?thesis
    by (cases "req_op q")
       (simp_all add: apply_replay_transition_def Let_def l replay_advance_scrub replay_plan_scrub [of _ z]
         split: prod.splits)
qed

lemma replay_subject_scrub: "replay_subject q (scrub z a) = map_prod id (scrub z) (replay_subject q a)"
  by (cases "req_op q") (simp_all add: replay_subject_def Let_def split: option.splits)

lemma replay_step_scrub: "replay_step q (scrub z a) = map_option (scrub z) (replay_step q a)"
  by (simp add: replay_step_def replay_transition_scrub replay_subject_scrub split: prod.splits)

lemma publish_window_scrub:
  "publish_window q x (scrub z a) =
     scrub (filter (\<lambda>n. \<not> (am_incarnation n = av_incarnation (req_authority q) \<and> am_sequence n = req_sequence q)) z)
       (publish_window q x a)"
  by (simp add: publish_window_def resolve_ambiguous_def Let_def) (simp add: scrub_def)

lemma publish_window_cong:
  "out_status x = out_status y \<Longrightarrow> out_applied x = out_applied y \<Longrightarrow> out_view x = out_view y \<Longrightarrow>
     publish_window q x a = publish_window q y a"
  by (simp add: publish_window_def Let_def)

lemma record_refusal_scrub [simp]: "scrub z (record_refusal n q x a) = scrub z a"
  by (simp add: scrub_def record_refusal_def Let_def)

lemma open_account_scrub: "scrub [] (open_account n q) = open_account n q"
  by (simp add: scrub_def open_account_def make_account_def set_incarnation_def Let_def)

lemma replay_open_live:
  "replay_open n (durable_attempt q x (Some (open_account n q)) c st) = open_account n q"
  by (simp add: replay_open_def durable_attempt_def build_durable_account_def Let_def open_account_def make_account_def
      set_incarnation_def opener_record_def)

subsection \<open>Replaying one decision\<close>

abbreviation other_notes :: "CreditRequest \<Rightarrow> AmbiguousNote list \<Rightarrow> AmbiguousNote list" where
  "other_notes q \<equiv> filter (\<lambda>n. \<not> (am_incarnation n = av_incarnation (req_authority q) \<and> am_sequence n = req_sequence q))"

lemma replay_finish_live:
  assumes "t = durable_attempt q x (Some b) c st" "out_decided x" "out_view x = account_view b"
  shows "\<exists>r'. replay_finish t k (scrub z b) r = (success, r') \<and>
           e_accounts r' = fmupd k (scrub (other_notes q z) (publish_window q x b)) (e_accounts r) \<and>
           e_chain r' = e_chain r \<and> e_limits r' = e_limits r"
proof -
  have t: "dt_request t = q" "dt_outcome t = x" "dt_account t = build_durable_account b False"
    using assms(1) by (simp_all add: durable_attempt_def)
  have ok: "replay_check t (scrub z b) = success"
    by (simp add: replay_check_def t build_durable_account_def Let_def)
  have "publish_window q (recorded_outcome t (scrub z b)) (scrub z b) = scrub (other_notes q z) (publish_window q x b)"
    unfolding publish_window_scrub
    by (intro arg_cong [of _ _ "scrub (other_notes q z)"] publish_window_cong) (simp_all add: recorded_outcome_def t assms(3))
  then show ?thesis by (simp add: replay_finish_def Let_def ok t assms(2))
qed

lemma decode_intent:
  assumes "length (req_note q) \<le> n" "n \<le> 4096"
  shows "decode_request_message (encode_request_body q) n = Inr q"
proof -
  have "bounded_note n" using assms(2) by unfold_locales
  from bounded_note.request_message [OF this] show ?thesis
    using assms(1) by (simp add: encode_request_message_def)
qed

lemma decode_attempt:
  assumes "length (req_note q) \<le> 4096" "out_view x = account_view b" "totals_ok (as_capacity b) (as_totals b)"
    "c \<Longrightarrow> out_applied x" "t = durable_attempt q x (Some b) c st"
  shows "decode_durable_attempt (encode_durable_attempt_body t) = Inr t"
proof -
  have "v_quarantined (account_view b) = v_stale (account_view b)"
    using assms(3) by (simp add: account_view_def view_ok)
  then have "attempt_ok t"
    using assms(1,2,4,5)
    by (simp add: attempt_ok_def durable_attempt_def account_body_ok_def build_durable_account_def Let_def)
  then show ?thesis unfolding decode_durable_attempt_def attempt.message_accepts by simp
qed

definition replays :: "'j engine \<Rightarrow> 'j engine \<Rightarrow> bool" where
  "replays e r \<longleftrightarrow> e_accounts r = fmmap (scrub []) (e_accounts e) \<and> e_chain r = e_chain e \<and> e_limits r = e_limits e"

text \<open>Marking the intent of a live account leaves one note, which the attempt record resolves.\<close>

lemma mark_live:
  assumes "replays e r" "0 < max_ambiguous_attempts (e_limits e)"
  shows "fmlookup (e_accounts e) (request_key q) = None \<Longrightarrow> mark_ambiguous q n r = r"
    and "fmlookup (e_accounts e) (request_key q) = Some a \<Longrightarrow>
      \<exists>z. e_accounts (mark_ambiguous q n r) = fmupd (request_key q) (scrub z a) (e_accounts r) \<and> other_notes q z = []"
  using assms by (auto simp: mark_ambiguous_def replays_def request_key_def Let_def)

lemma settled_accounts:
  assumes "apply_request jops q e = (out, e')" "out_decided out" "\<not> out_duplicate out"
    "reason (out_status out) \<noteq> AttemptConflict"
    "if req_op q = Open then b = open_account (max_attempt_window (e_limits e)) q
     else \<exists>a. admitted e q a \<and> (if out_applied out then decide e q a = DecApply b
               else \<exists>r i c. decide e q a = DecRefusal r i c \<and> b = count_refused q c)"
  shows "fmmap (scrub []) (e_accounts e') =
           fmupd (request_key q) (scrub [] (publish_window q out b)) (fmmap (scrub []) (e_accounts e))"
    "req_op q = Open \<Longrightarrow> out_applied out" "frame_kept e e'"
proof -
  have "fmmap (scrub []) (e_accounts e') =
           fmupd (request_key q) (scrub [] (publish_window q out b)) (fmmap (scrub []) (e_accounts e)) \<and>
        (req_op q = Open \<longrightarrow> out_applied out) \<and> frame_kept e e'"
    using assms(1)
  proof (cases rule: apply_cases)
    case opened
    then show ?thesis using assms(5) by (simp add: fmmap_fmupd)
  next
    case (rejected a r i c)
    then have op: "req_op q \<noteq> Open" by (simp add: admitted_def)
    then obtain a' r' i' c' where a': "admitted e q a'" "decide e q a' = DecRefusal r' i' c'" "b = count_refused q c'"
      using assms(5) rejected(5) by auto
    then have "a' = a" using rejected(1) by (simp add: admitted_def)
    then have "b = count_refused q c" using a'(2,3) rejected(2) by simp
    then show ?thesis using rejected(3,4) op by (simp add: fmmap_fmupd)
  next
    case (applied a c)
    then have op: "req_op q \<noteq> Open" by (simp add: admitted_def)
    then obtain a' where a': "admitted e q a'" "decide e q a' = DecApply b"
      using assms(5) applied(5) by auto
    then have "a' = a" using applied(1) by (simp add: admitted_def)
    then have "b = c" using a'(2) applied(2) by simp
    then show ?thesis using applied(3,4) op by (simp add: fmmap_fmupd)
  qed (use assms(2-4) in auto)
  then show "fmmap (scrub []) (e_accounts e') =
           fmupd (request_key q) (scrub [] (publish_window q out b)) (fmmap (scrub []) (e_accounts e))"
    "req_op q = Open \<Longrightarrow> out_applied out" "frame_kept e e'" by blast+
qed

text \<open>The calls whose effect on the account is fully journaled: not an issue that is refused after it
  changed the caller's binding, and not a fence refused for its budget after it inserted its target.\<close>

fun clean_call :: "call \<Rightarrow> bool" where
  "clean_call (CallApply q out) \<longleftrightarrow>
     (req_op q = Issue \<and> out_decided out \<and> \<not> out_applied out \<longrightarrow>
        \<not> is_set (req_producer q) \<and> \<not> is_set (req_consumer q) \<and> \<not> is_set (req_grant q)) \<and>
     \<not> (req_op q = Fence \<and> \<not> out_decided out \<and> reason (out_status out) = BudgetExceeded)"
| "clean_call (CallSnapshot s) \<longleftrightarrow> False"

lemma unbound_refusal:
  assumes "decide e q a = DecRefusal r i c"
    "req_op q = Issue \<longrightarrow> \<not> is_set (req_producer q) \<and> \<not> is_set (req_consumer q) \<and> \<not> is_set (req_grant q)"
  shows "c = a"
proof (cases "req_op q = Issue")
  case True
  then have "bind_issue q x = (None, x)" for x using assms(2) by (simp add: bind_issue_def)
  moreover have "set_incarnation (id_value k) x a = a" if "find_incarnation a k = Some x" for k x
    using that by (simp add: set_incarnation_def find_incarnation_def fmupd_same)
  ultimately show ?thesis
    using assms(1) True
    by (auto simp: decide_def decide_data_def Let_def split: if_splits option.splits dest!: decide_ledger_refusal)
qed (rule decide_refusal_account(2) [OF assms(1)])

lemma declined_same:
  assumes "decide e q a = DecRefuse r i b" "\<not> (req_op q = Fence \<and> r = BudgetExceeded)"
  shows "b = a"
proof (cases "classify_op (req_op q) = ControlOp")
  case True
  have plan: "ctl_plan x f \<noteq> CtlRefused r' i' b'" for x f r' i' b'
    by (auto simp: ctl_plan_def split: prod.splits bool.splits)
  have adv: "control_advance q a = CtlRefused r' i' b' \<Longrightarrow> b' = a" for r' i' b'
    by (auto simp: control_advance_def Let_def split: prod.splits bool.splits if_splits)
  have fence: "control_fence l q a = CtlRefused r' i' b' \<Longrightarrow> r' \<noteq> BudgetExceeded \<Longrightarrow> b' = a" for l r' i' b'
    by (auto simp: control_fence_def Let_def split: if_splits)
  have ret: "control_retire_incarnation q a = CtlRefused r' i' b' \<Longrightarrow> b' = a" for r' i' b'
    by (auto simp: control_retire_incarnation_def split: if_splits option.splits)
  have "b' = a" if "control_transition (e_limits e) q a = CtlRefused r i b'" for b'
    using that assms(2) plan adv fence ret
    by (cases "req_op q") (auto simp: control_transition_def Let_def split: if_splits)
  then show ?thesis
    using assms(1) True by (auto simp: decide_def decide_control_def split: if_splits control_step.splits)
next
  case False
  then show ?thesis
    using assms(1) by (auto simp: decide_def decide_data_def decide_ledger_def Let_def split: if_splits option.splits prod.splits)
qed

text \<open>What was persisted for a settled call: the account \<open>b\<close> and its relation to the decision.\<close>

definition persisted :: "'j engine \<Rightarrow> CreditRequest \<Rightarrow> CreditOutcome \<Rightarrow> AccountState \<Rightarrow> bool" where
  "persisted e q out b \<longleftrightarrow>
     out_view out = account_view b \<and>
     (if req_op q = Open then b = open_account (max_attempt_window (e_limits e)) q \<and> open_refusal e q = None
      else \<exists>a. admitted e q a \<and> (if out_applied out then decide e q a = DecApply b
               else \<exists>r i c. decide e q a = DecRefusal r i c \<and> b = count_refused q c))"

lemma persisted_totals:
  assumes "engine_inv e" "persisted e q out b"
  shows "totals_ok (as_capacity b) (as_totals b)"
proof (cases "req_op q = Open")
  case True
  then show ?thesis using assms(2) by (simp add: persisted_def zero_totals_ok)
next
  case False
  then obtain a where a: "admitted e q a" "(if out_applied out then decide e q a = DecApply b
      else \<exists>r i c. decide e q a = DecRefusal r i c \<and> b = count_refused q c)"
    using assms(2) by (auto simp: persisted_def)
  have inv: "account_inv (e_limits e) a" using engine_invD(1) [OF assms(1)] a(1) by (auto simp: admitted_def)
  show ?thesis
    using decide_facts [OF inv a(1)] a(2) account_invD(1)
    by (fastforce simp: decision_facts_def split: if_splits)
qed

lemma persisted_note:
  assumes "apply_request jops q e = (out, e')" "out_decided out"
  shows "length (req_note q) \<le> max_note_bytes (e_limits e)"
proof (rule ccontr)
  assume "\<not> ?thesis"
  then have "structural_refusal (e_limits e) q \<noteq> None" by (auto simp: structural_refusal_def Let_def)
  then show False
    using assms by (auto simp: apply_request_def apply_locked_def refuse_outcome_def initial_outcome_def
        default_outcome_def Let_def split: if_splits)
qed

text \<open>Replaying the attempt record of a settled call on the replayed account, with the note its intent left.\<close>

lemma replay_attempt_live:
  assumes "replays e r" "persisted e q out b" "out_decided out"
    "t = durable_attempt q out (Some b) (req_op q = Open) st" "clean_call (CallApply q out)"
    "0 < max_ambiguous_attempts (e_limits e)"
  shows "\<exists>r2. replay_attempt t (mark_ambiguous q n r) = (success, r2) \<and>
           e_accounts r2 = fmupd (request_key q) (scrub [] (publish_window q out b)) (e_accounts r) \<and>
           e_limits r2 = e_limits r"
proof -
  have t: "dt_request t = q" "dt_outcome t = out" "dt_created_account t = (req_op q = Open)"
    using assms(4) by (simp_all add: durable_attempt_def)
  have view: "out_view out = account_view b" using assms(2) by (simp add: persisted_def)
  note fin = replay_finish_live [OF assms(4,3) view]
  show ?thesis
  proof (cases "req_op q = Open")
    case True
    then have b: "b = open_account (max_attempt_window (e_limits e)) q" "fmlookup (e_accounts e) (request_key q) = None"
      using assms(2) open_admits(1) by (auto simp: persisted_def)
    have m: "mark_ambiguous q n r = r" by (rule mark_live(1) [OF assms(1,6) b(2)])
    have lk: "fmlookup (e_accounts r) (request_key q) = None" "e_limits r = e_limits e"
      using assms(1) b(2) by (simp_all add: replays_def)
    have "replay_open (max_attempt_window (e_limits r)) t = scrub [] b"
      unfolding assms(4) b(1) lk(2) by (simp add: replay_open_live open_account_scrub)
    then show ?thesis
      using fin [of "request_key q" "[]" r] lk True by (auto simp: m replay_attempt_def t Let_def request_key_def)
  next
    case False
    then obtain a where a: "admitted e q a" "if out_applied out then decide e q a = DecApply b
        else \<exists>r i c. decide e q a = DecRefusal r i c \<and> b = count_refused q c"
      using assms(2) by (auto simp: persisted_def)
    have lk: "fmlookup (e_accounts e) (request_key q) = Some a" using a(1) by (simp add: admitted_def)
    obtain z where z: "e_accounts (mark_ambiguous q n r) = fmupd (request_key q) (scrub z a) (e_accounts r)" "other_notes q z = []"
      using mark_live(2) [OF assms(1,6) lk] by blast
    have step: "replay_attempt t (mark_ambiguous q n r) = replay_finish t (request_key q) (scrub z b) (mark_ambiguous q n r)"
    proof (cases "out_applied out")
      case True
      then have "replay_step q (scrub z a) = Some (scrub z b)"
        using replay_makes_the_transition [of e q a b] a(2) by (simp add: replay_step_scrub)
      then show ?thesis
        using True False z(1)
        by (auto simp: replay_attempt_def t Let_def request_key_def replay_step_def split: prod.splits if_splits)
    next
      case refused: False
      then obtain r' i c where c: "decide e q a = DecRefusal r' i c" "b = count_refused q c" using a(2) by auto
      have "c = a" using unbound_refusal [OF c(1)] assms(3,5) refused by simp
      then show ?thesis
        using refused False z(1) c(2) assms(3) by (simp add: replay_attempt_def t Let_def request_key_def)
    qed
    show ?thesis
      using fin [of "request_key q" z "mark_ambiguous q n r"] z by (auto simp: step fmupd_fmupd)
  qed
qed

lemma replay_pair:
  assumes "engine_inv e" "replays e r" "apply_request jops q e = (out, e')" "out_decided out" "\<not> out_duplicate out"
    "reason (out_status out) \<noteq> AttemptConflict" "persisted e q out b" "clean_call (CallApply q out)"
    "max_note_bytes (e_limits e) \<le> 4096" "0 < max_ambiguous_attempts (e_limits e)"
    "t = durable_attempt q out (Some b) (req_op q = Open) st" "e_chain e' = lr_chain (attempt_record e t)"
  shows "\<exists>r1 r2. replay_record None (record_of (intent_record e q) n) r = (success, r1) \<and>
           replay_record None (record_of (attempt_record e t) m) r1 = (success, r2) \<and> replays e' r2"
proof -
  have t: "dt_request t = q" "dt_outcome t = out" using assms(11) by (simp_all add: durable_attempt_def)
  note fits = persisted_note [OF assms(3,4)]
  have lim: "e_limits r = e_limits e" "e_chain r = e_chain e" using assms(2) by (simp_all add: replays_def)
  have acc: "if req_op q = Open then b = open_account (max_attempt_window (e_limits e)) q
     else \<exists>a. admitted e q a \<and> (if out_applied out then decide e q a = DecApply b
               else \<exists>r i c. decide e q a = DecRefusal r i c \<and> b = count_refused q c)"
    using assms(7) by (simp add: persisted_def split: if_splits)
  note eff = settled_accounts [OF assms(3-6) acc]
  have i: "replay_record None (record_of (intent_record e q) n) r = (success, mark_ambiguous q (e_next_sequence e) r)"
    using decode_intent [OF fits assms(9)] by (simp add: replay_record_def lim)
  obtain r2 where r2: "replay_attempt t (mark_ambiguous q (e_next_sequence e) r) = (success, r2)"
    "e_accounts r2 = fmupd (request_key q) (scrub [] (publish_window q out b)) (e_accounts r)" "e_limits r2 = e_limits r"
    using replay_attempt_live [OF assms(2,7,4,11,8,10)] by blast
  have "decode_durable_attempt (encode_durable_attempt_body t) = Inr t"
    using decode_attempt [OF _ _ persisted_totals [OF assms(1,7)] _ assms(11)] fits assms(7,9) eff(2)
    by (simp add: persisted_def)
  then have "replay_record None (record_of (attempt_record e t) m) (mark_ambiguous q (e_next_sequence e) r) =
      (success, bump_replayed (r2\<lparr>e_chain := lr_chain (attempt_record e t), e_next_sequence := e_next_sequence e + 2,
         e_journal_records := e_journal_records r2 + 1\<rparr>))"
    using r2(1) lim by (simp add: replay_record_def t add.assoc)
  moreover have "replays e' (bump_replayed (r2\<lparr>e_chain := lr_chain (attempt_record e t), e_next_sequence := e_next_sequence e + 2,
         e_journal_records := e_journal_records r2 + 1\<rparr>))"
    using eff(1,3) r2(2,3) lim assms(2,12) by (simp add: replays_def frame_kept_def)
  ultimately show ?thesis using i by blast
qed

subsection \<open>Replaying a run\<close>

lemma pool_step_no_conflict: "pool_step l b = Inl r \<Longrightarrow> r \<noteq> AttemptConflict"
  by (cases l) (auto simp: Let_def split: if_splits)

lemma plan_refusal_reason:
  assumes "totals_ok cap t" "plan_step l (make_plan cap t) = (False, p)"
  shows "reason (p_status p) \<noteq> AttemptConflict"
  using plan_step_meets [of "make_plan cap t" l] assms make_plan_sound [of cap t]
  by (auto simp: step_meets_def dest: pool_step_no_conflict split: sum.splits)

lemma decide_ledger_reason:
  assumes "totals_ok (as_capacity a) (as_totals a)" "op_is_ledger (req_op q)" "decide_ledger q a = DecRefusal r i b"
  shows "r \<noteq> AttemptConflict"
proof -
  obtain l where l: "ledger_op_of (as_config a) q = Some l"
    using assms(2) by (cases "req_op q") (auto simp: ledger_op_of_def)
  obtain ok p where p: "plan_step l (make_plan (as_capacity a) (as_totals a)) = (ok, p)" by fastforce
  have "ok \<or> reason (p_status p) \<noteq> AttemptConflict"
    using plan_refusal_reason [OF assms(1)] p by (cases ok) auto
  then show ?thesis
    using assms(2,3) l p
    by (cases "req_op q")
       (auto simp: decide_ledger_def ledger_apply_def ledger_op_of_def Let_def status_ok_def split: if_splits)
qed

lemma ctl_plan_reason:
  assumes "totals_ok cap t" "ctl_plan (plan_step l (make_plan cap t)) f = CtlDecided r i"
  shows "r \<noteq> AttemptConflict"
  using assms plan_refusal_reason [OF assms(1), of l]
  by (auto simp: ctl_plan_def split: prod.splits bool.splits)

lemma control_reason:
  assumes "totals_ok (as_capacity a) (as_totals a)" "control_transition limits q a = CtlDecided r i"
  shows "r \<noteq> AttemptConflict"
proof -
  note plan = ctl_plan_reason [OF assms(1), of "L_Retire (req_count q)"]
    ctl_plan_reason [OF assms(1), of "L_To_Returned (req_count q)"]
    ctl_plan_reason [OF assms(1), of "L_To_Consumed (req_count q)"]
    ctl_plan_reason [OF assms(1), of "L_Set_Capacity (req_new_capacity q) (cfg_max_capacity (as_config a))
      (allow_capacity_growth (cfg_rules (as_config a)))"]
  have adv: "control_advance q a \<noteq> CtlDecided r i"
    by (auto simp: control_advance_def Let_def split: prod.splits bool.splits)
  have fence: "control_fence limits q a = CtlDecided r i \<Longrightarrow> r = InvalidState"
    by (auto simp: control_fence_def Let_def split: if_splits)
  have ret: "control_retire_incarnation q a = CtlDecided r i \<Longrightarrow> r = FencedIncarnation"
    by (auto simp: control_retire_incarnation_def split: if_splits option.splits)
  show ?thesis
    using assms(2) plan adv fence ret
    by (cases "req_op q") (auto simp: control_transition_def Let_def split: if_splits)
qed

lemma refusal_reason:
  assumes "account_inv limits a" "decide e q a = DecRefusal r i b"
  shows "r \<noteq> AttemptConflict"
proof (cases "classify_op (req_op q) = ControlOp")
  case True
  then show ?thesis
    using assms(2) control_reason [OF account_invD(1) [OF assms(1)]]
    by (auto simp: decide_def decide_control_def split: if_splits control_step.splits)
next
  case False
  have set: "totals_ok (as_capacity (set_incarnation k x a)) (as_totals (set_incarnation k x a))" for k x
    using account_invD(1) [OF assms(1)] by simp
  have bind: "bind_issue q x = (Some (w, j), y) \<Longrightarrow> w \<noteq> AttemptConflict" for x w j y
    by (auto simp: bind_issue_def Let_def split: if_splits)
  show ?thesis
    using assms(2) False bind decide_ledger_reason [OF set, of q] decide_ledger_reason [OF account_invD(1) [OF assms(1)], of q]
    by (auto simp: decide_def decide_data_def Let_def split: if_splits option.splits prod.splits)
qed

definition settled :: "CreditOutcome \<Rightarrow> bool" where
  "settled out \<longleftrightarrow> out_decided out \<and> \<not> out_duplicate out \<and> reason (out_status out) \<noteq> AttemptConflict"

lemma unsettled_same:
  assumes "engine_inv e" "apply_request jops q e = (out, e')" "\<not> e_journal_failed e'" "\<not> settled out"
    "clean_call (CallApply q out)"
  shows "e_journal e' = e_journal e \<and> e_chain e' = e_chain e \<and> e_accounts e' = e_accounts e \<and> e_limits e' = e_limits e \<and>
    \<not> e_journal_failed e"
  using assms(2)
proof (cases rule: apply_request_cases)
  case quiet
  have "e_journal_failed e' = e_journal_failed e" by (subst quiet(1)) simp
  then show ?thesis using assms(3) by (subst quiet(1), subst (2) quiet(1), subst (3) quiet(1), subst (4) quiet(1)) simp
next
  case opened
  show ?thesis
  proof (cases "open_refusal e q")
    case (Some w)
    then show ?thesis using opened by (cases w) (auto simp: create_account_locked_alt)
  next
    case None
    then show ?thesis
      using opened(5) assms(3,4)
      by (auto simp: create_account_locked_alt open_commit_def open_outcome_def settled_def initial_outcome_def
          default_outcome_def Let_def split: prod.splits if_splits)
  qed
next
  case (decided a)
  have a: "fmlookup (e_accounts e) (request_key q) = Some a" "\<not> e_journal_failed e"
    using decided(1) by (simp_all add: admitted_def)
  note out = enact_outcome [OF decided(2) a(2) bound_outcome_flags(1,2)]
  show ?thesis
  proof (cases "decide e q a")
    case (DecRefuse r i b)
    then have "\<not> (req_op q = Fence \<and> r = BudgetExceeded)"
      using out(1) assms(5) by auto
    then have "b = a" using declined_same [OF DecRefuse] by blast
    then show ?thesis using decided(2) DecRefuse a by (auto simp: enact_def put_account_same)
  next
    case (DecRefusal r i b)
    then show ?thesis
      using out(2) assms(3,4) refusal_reason [OF engine_invD(1) [OF assms(1) a(1)] DecRefusal]
      by (simp add: settled_def)
  next
    case (DecApply b)
    then show ?thesis using out(3) assms(3,4) by (simp add: settled_def)
  qed
qed

fun replay_log :: "log_record list \<Rightarrow> 'j engine \<Rightarrow> Status \<times> 'j engine" where
  "replay_log [] e = (success, e)"
| "replay_log (l # ls) e =
     (case replay_record None (record_of l 0) e of
        (s, e1) \<Rightarrow> if \<not> status_ok s then (s, e1) else replay_log ls e1)"

lemma replay_log_append:
  "replay_log xs e = (success, e1) \<Longrightarrow> replay_log (xs @ ys) e = replay_log ys e1"
  by (induction xs arbitrary: e) (auto split: prod.splits if_splits)

lemma replay_record_offset: "replay_record ss (record_of l n) e = replay_record ss (record_of l 0) e"
  by (simp only: replay_record_def JournalRecord.select_convs)

lemma put_account_set_journal: "put_account k a (e\<lparr>e_journal := j\<rparr>) = (put_account k a e)\<lparr>e_journal := j\<rparr>"
  by (simp add: put_account_def)

lemma mark_set_journal: "mark_ambiguous q n (e\<lparr>e_journal := j\<rparr>) = (mark_ambiguous q n e)\<lparr>e_journal := j\<rparr>"
  by (simp add: mark_ambiguous_def Let_def put_account_set_journal split: option.splits)

lemma finish_set_journal:
  "replay_finish t k a (e\<lparr>e_journal := j\<rparr>) = map_prod id (\<lambda>x. x\<lparr>e_journal := j\<rparr>) (replay_finish t k a e)"
  by (simp add: replay_finish_def Let_def put_account_set_journal)

lemma attempt_set_journal:
  "replay_attempt t (e\<lparr>e_journal := j\<rparr>) = map_prod id (\<lambda>x. x\<lparr>e_journal := j\<rparr>) (replay_attempt t e)"
  by (simp add: replay_attempt_def Let_def put_account_set_journal finish_set_journal split: option.splits prod.splits)

lemma restore_set_journal:
  "restore_durable_state d (e\<lparr>e_journal := j\<rparr>) = map_prod id (\<lambda>x. x\<lparr>e_journal := j\<rparr>) (restore_durable_state d e)"
  by (simp add: restore_durable_state_def split: prod.splits)

lemma record_set_journal:
  "replay_record ss r (e\<lparr>e_journal := j\<rparr>) = map_prod id (\<lambda>x. x\<lparr>e_journal := j\<rparr>) (replay_record ss r e)"
  by (cases "jr_kind r")
     (simp_all add: replay_record_def mark_set_journal attempt_set_journal restore_set_journal bump_replayed_def
       split: sum.splits prod.splits)

lemma replay_log_set_journal:
  "replay_log ls (e\<lparr>e_journal := j\<rparr>) = map_prod id (\<lambda>x. x\<lparr>e_journal := j\<rparr>) (replay_log ls e)"
  by (induction ls arbitrary: e) (simp_all add: record_set_journal split: prod.splits)

context journal_contract
begin

text \<open>The loop of \<open>recover\<close> is the fold over the readable log.\<close>

lemma replay_loop_log:
  assumes "e_journal e = Some j" "reading j" "length (pending j) < fuel" "replay_log (pending j) e = (success, r)"
  shows "\<exists>j'. replay_loop jops fuel None e = Some (success, r\<lparr>e_journal := Some j'\<rparr>) \<and> reading j' \<and> pending j' = [] \<and>
           log j' = log j \<and> snap j' = snap j"
  using assms
proof (induction fuel arbitrary: e j r)
  case (Suc fuel)
  show ?case
  proof (cases "pending j")
    case Nil
    obtain x j1 where n: "j_next_record jops j = (success, x, j1)" "\<not> jr_valid x" "reading j1" "pending j1 = []"
      "log j1 = log j" "snap j1 = snap j"
      using next_record_end [OF Suc.prems(2) Nil] by blast
    then show ?thesis using Suc.prems(1,4) Nil by (auto simp: Let_def)
  next
    case (Cons l ls)
    obtain m j1 where n: "j_next_record jops j = (success, record_of l m, j1)" "reading j1" "pending j1 = ls"
      "log j1 = log j" "snap j1 = snap j"
      using next_record_some [OF Suc.prems(2) Cons] by blast
    obtain s2 e2 where r: "replay_record None (record_of l 0) e = (s2, e2)" by fastforce
    then have ok2: "status_ok s2" "replay_log ls e2 = (success, r)" using Suc.prems(4) Cons by (auto split: if_splits)
    have r': "replay_record None (record_of l m) (e\<lparr>e_journal := Some j1\<rparr>) = (s2, e2\<lparr>e_journal := Some j1\<rparr>)"
      by (simp add: replay_record_offset [of None l m] record_set_journal r)
    have "replay_log ls (e2\<lparr>e_journal := Some j1\<rparr>) = (success, r\<lparr>e_journal := Some j1\<rparr>)"
      by (simp add: replay_log_set_journal ok2(2))
    moreover have "length (pending j1) < fuel" using Suc.prems(3) Cons n(3) by simp
    ultimately have "\<exists>j'. replay_loop jops fuel None (e2\<lparr>e_journal := Some j1\<rparr>) =
        Some (success, (r\<lparr>e_journal := Some j1\<rparr>)\<lparr>e_journal := Some j'\<rparr>) \<and> reading j' \<and> pending j' = [] \<and>
        log j' = log j1 \<and> snap j' = snap j1"
      using Suc.IH [of "e2\<lparr>e_journal := Some j1\<rparr>" j1] n(2,3) by simp
    then show ?thesis using n(1,4,5) ok2(1) r' Suc.prems(1) by (simp add: Let_def)
  qed
qed simp

lemma recover_log:
  assumes "e_journal n = Some j" "sane j" "snap j = None" "length (log j) < fuel"
    "replay_log (log j) (n\<lparr>e_accounts := fmempty, e_next_sequence := 1, e_chain := zero_digest,
        e_journal_records := 0, e_snapshots := 0\<rparr>) = (success, r)"
  shows "\<exists>n'. recover jops fuel n = Some (success, n') \<and> e_accounts n' = fmmap demote_all (e_accounts r) \<and>
           e_chain n' = e_chain r \<and> e_recovered n'"
proof -
  let ?r0 = "n\<lparr>e_accounts := fmempty, e_next_sequence := 1, e_chain := zero_digest, e_journal_records := 0, e_snapshots := 0\<rparr>"
  obtain j1 where r: "recover_snapshot jops n = (success, None, ?r0\<lparr>e_journal := Some j1\<rparr>)" "fresh j1" "log j1 = log j"
    using recover_opens [OF assms(1,2)] assms(3) by metis
  obtain j2 where b: "j_begin_replay jops j1 = (success, j2)" "reading j2" "pending j2 = log j"
    using begin_replay_fresh [OF r(2)] r(3) by auto
  have "replay_log (pending j2) (?r0\<lparr>e_journal := Some j2\<rparr>) = (success, r\<lparr>e_journal := Some j2\<rparr>)"
    using assms(5) by (simp add: b(3) replay_log_set_journal)
  then obtain j3 where l: "replay_loop jops fuel None (?r0\<lparr>e_journal := Some j2\<rparr>) = Some (success, r\<lparr>e_journal := Some j3\<rparr>)"
      "reading j3" "pending j3 = []"
    using replay_loop_log [of "?r0\<lparr>e_journal := Some j2\<rparr>" j2 fuel "r\<lparr>e_journal := Some j2\<rparr>"] b(2,3) assms(4) by auto
  obtain j4 where "j_end_replay jops j3 = (success, j4)" using end_replay_reading [OF l(2,3)] by blast
  then show ?thesis
    using r(1) b(1) l(1) assms(1) by (simp add: recover_def with_journal_def recover_finish_def Let_def)
qed

lemma settled_log:
  assumes "journaled e" "apply_request jops q e = (out, e')" "settled out" "durable_snap e' = None"
  shows "\<exists>b t st. persisted e q out b \<and> t = durable_attempt q out (Some b) (req_op q = Open) st \<and> journaled e' \<and>
           durable_log e' = durable_log e @ [intent_record e q, attempt_record e t] \<and>
           durable_snap e' = durable_snap e \<and> e_chain e' = lr_chain (attempt_record e t)"
proof -
  obtain b s e1 where p: "persist_locked jops q out (Some b) (req_op q = Open) (put_account (request_key q) b e) = (s, e1)"
    "status_ok s" "e_journal e' = e_journal e1" "e_chain e' = e_chain e1" "persisted e q out b"
    using settled_persisted [OF assms(2)] assms(3) unfolding settled_def persisted_def by blast
  define t where "t = durable_attempt q out (Some b) (req_op q = Open) (e_stats e)"
  have t: "dt_request t = q" "dt_outcome t = out" by (simp_all add: t_def durable_attempt_def)
  have j: "journaled (put_account (request_key q) b e)" using assms(1) by (simp add: journaled_def)
  have "durable_snap e1 = None" using assms(4) p(3) by (simp add: durable_snap_def)
  then have "journaled e1 \<and> durable_log e1 = durable_log e @ [intent_record e q, attempt_record e t] \<and>
      durable_snap e1 = durable_snap e \<and> e_chain e1 = lr_chain (attempt_record e t)"
    using persist_step [OF j p(1,2)] t by (auto simp: durable_log_def durable_snap_def t_def [symmetric])
  then show ?thesis
    using p(3-5) t_def by (intro exI [of _ b] exI [of _ t] exI [of _ "e_stats e"]) (simp add: journaled_def durable_log_def durable_snap_def)
qed

lemma healthy_before:
  assumes "apply_request jops q e = (out, e')" "\<not> e_journal_failed e'"
  shows "\<not> e_journal_failed e"
  using assms by (auto simp: apply_request_def split: if_splits)

lemma step_journaled:
  assumes "journaled e" "engine_inv e" "apply_request jops q e = (out, e')" "clean_call (CallApply q out)"
    "\<not> e_journal_failed e'"
  shows "journaled e'"
proof (cases "settled out")
  case True
  then obtain b s e1 where p: "persist_locked jops q out (Some b) (req_op q = Open) (put_account (request_key q) b e) = (s, e1)"
    "status_ok s" "e_journal e' = e_journal e1"
    using settled_persisted [OF assms(3)] unfolding settled_def by blast
  have "journaled (put_account (request_key q) b e)" using assms(1) by (simp add: journaled_def)
  then show ?thesis using persist_step [OF _ p(1,2)] p(3) by (simp add: journaled_def)
next
  case False
  then show ?thesis using unsettled_same [OF assms(2,3,5) False assms(4)] assms(1) by (simp add: journaled_def)
qed

lemma run_journaled:
  assumes "engine_run jops e0 calls e" "engine_inv e0" "journaled e0" "list_all clean_call calls" "\<not> e_journal_failed e"
  shows "journaled e"
  using assms
proof (induction rule: engine_run.induct)
  case (run_step e0 calls f c g)
  have inv: "engine_inv f" using run_keeps_inv [OF run_step(1)] run_step.prems(1) .
  have "clean_call c" using run_step.prems(3) by simp
  then obtain q out where c: "c = CallApply q out" "clean_call (CallApply q out)" by (cases c) simp_all
  then have ap: "apply_request jops q f = (out, g)" using run_step(2) by (auto elim: engine_stepE)
  have ok: "\<not> e_journal_failed f" by (rule healthy_before [OF ap run_step.prems(4)])
  then have "journaled f" using run_step.IH run_step.prems by simp
  then show ?case using step_journaled inv ap c(2) run_step.prems(4) by blast
qed simp

lemma run_replays:
  assumes "engine_run jops e0 calls e" "engine_inv e0" "journaled e0" "list_all clean_call calls"
    "\<not> e_journal_failed e" "durable_snap e = None" "durable_log e0 = []" "replays e0 r0"
    "max_note_bytes (e_limits e0) \<le> 4096" "0 < max_ambiguous_attempts (e_limits e0)"
  shows "\<exists>r. replay_log (durable_log e) r0 = (success, r) \<and> replays e r"
  using assms
proof (induction rule: engine_run.induct)
  case (run_step e0 calls f c g)
  have inv: "engine_inv f" using run_keeps_inv [OF run_step(1)] run_step.prems(1) .
  have cl: "list_all clean_call calls" "clean_call c" using run_step.prems(3) by simp_all
  then obtain q out where c: "c = CallApply q out" "clean_call (CallApply q out)" by (cases c) simp_all
  then have ap: "apply_request jops q f = (out, g)" using run_step(2) by (auto elim: engine_stepE)
  have ok: "\<not> e_journal_failed f" by (rule healthy_before [OF ap run_step.prems(4)])
  have jf: "journaled f" by (rule run_journaled [OF run_step(1) run_step.prems(1,2) cl(1) ok])
  have lim: "max_note_bytes (e_limits f) \<le> 4096" "0 < max_ambiguous_attempts (e_limits f)"
    using run_frame [OF run_step(1)] run_step.prems(8,9) by (simp_all add: frame_kept_def)
  show ?case
  proof (cases "settled out")
    case True
    obtain b t st where t: "persisted f q out b" "t = durable_attempt q out (Some b) (req_op q = Open) st"
      "durable_log g = durable_log f @ [intent_record f q, attempt_record f t]"
      "durable_snap g = durable_snap f" "e_chain g = lr_chain (attempt_record f t)"
      using settled_log [OF jf ap True run_step.prems(5)] by blast
    then obtain r where r: "replay_log (durable_log f) r0 = (success, r)" "replays f r"
      using run_step.IH run_step.prems cl(1) ok by auto
    have "out_decided out" "\<not> out_duplicate out" "reason (out_status out) \<noteq> AttemptConflict"
      using True by (simp_all add: settled_def)
    from replay_pair [OF inv r(2) ap this t(1) c(2) lim t(2,5)] obtain r1 r2
      where "replay_record None (record_of (intent_record f q) 0) r = (success, r1)"
        "replay_record None (record_of (attempt_record f t) 0) r1 = (success, r2)" "replays g r2"
      by blast
    then show ?thesis by (simp add: t(3) replay_log_append [OF r(1)])
  next
    case False
    note same = unsettled_same [OF inv ap run_step.prems(4) False c(2)]
    then have "durable_log g = durable_log f" "durable_snap f = None"
      using run_step.prems(5) by (simp_all add: durable_log_def durable_snap_def)
    then show ?thesis using run_step.IH run_step.prems cl(1) ok same by (simp add: replays_def)
  qed
qed simp

text \<open>From a run to the accounts that recovery rebuilds from a journal holding the log of the run.\<close>

lemma recover_run:
  assumes "e_accounts e0 = fmempty" "e_chain e0 = zero_digest" "clamp_limits (e_limits e0) = e_limits e0"
    "max_note_bytes (e_limits e0) \<le> 4096" "journaled e0" "durable_log e0 = []"
    "engine_run jops e0 calls e" "list_all clean_call calls" "\<not> e_journal_failed e" "durable_snap e = None"
    "e_journal n = Some j" "e_limits n = e_limits e0" "sane j" "log j = durable_log e" "snap j = None"
    "length (log j) < fuel"
  shows "\<exists>n'. recover jops fuel n = Some (success, n') \<and> e_recovered n' \<and> e_chain n' = e_chain e \<and>
           e_accounts n' = fmmap (\<lambda>a. demote_all (a\<lparr>as_refusals := [], as_refusal_cursor := 0, as_ambiguous := []\<rparr>))
             (e_accounts e)"
proof -
  let ?r0 = "n\<lparr>e_accounts := fmempty, e_next_sequence := 1, e_chain := zero_digest, e_journal_records := 0, e_snapshots := 0\<rparr>"
  have inv: "engine_inv e0" using assms(1,3) by (simp add: engine_inv_def fcard_fempty)
  have "max_ambiguous_attempts (clamp_limits (e_limits e0)) > 0" by (simp add: clamp_limits_def at_least_def)
  then have amb: "0 < max_ambiguous_attempts (e_limits e0)" using assms(3) by simp
  have r0: "replays e0 ?r0" using assms(1,2,12) by (simp add: replays_def)
  obtain r where r: "replay_log (log j) ?r0 = (success, r)" "replays e r"
    using run_replays [OF assms(7) inv assms(5,8,9,10,6) r0 assms(4) amb] assms(14) by auto
  have sc: "fmmap demote_all (fmmap (scrub []) m) =
      fmmap (\<lambda>a. demote_all (a\<lparr>as_refusals := [], as_refusal_cursor := 0, as_ambiguous := []\<rparr>)) m" for m :: "(u64, AccountState) fmap"
    by (intro fmap_ext) (simp add: scrub_def option.map_comp comp_def)
  from recover_log [OF assms(11,13,15,16) r(1)] obtain n' where "recover jops fuel n = Some (success, n')"
    "e_accounts n' = fmmap demote_all (e_accounts r)" "e_chain n' = e_chain r" "e_recovered n'"
    by blast
  then show ?thesis using r(2) by (auto simp: replays_def sc)
qed

end

text \<open>A new engine on a given journal, and the opening of its first account.\<close>

definition demo_start :: "'j \<Rightarrow> 'j engine" where
  "demo_start j = (make_engine default_limits (Some j) demo_operator demo_nonce)\<lparr>e_next_sequence := 1, e_recovered := True\<rparr>"

lemma demo_start_sel [simp]:
  "e_limits (demo_start j) = default_limits" "e_challenge (demo_start j) = demo_nonce" "e_recovered (demo_start j)"
  "\<not> e_journal_failed (demo_start j)" "e_accounts (demo_start j) = fmempty" "e_chain (demo_start j) = zero_digest"
  "e_journal (demo_start j) = Some j" "e_journal_records (demo_start j) = 0"
  by (simp_all add: demo_start_def make_engine_def default_limits_clamped)

lemma demo_open_admitted: "open_refusal (demo_start j) (demo_request Open 1 0) = None"
  by (simp add: open_refusal_def Let_def demo_config_def default_config_def default_policy_def is_set_def u64_max_def
      challenge_verify_iff default_limits_def fcard_fempty)

context journal_space
begin

lemma demo_open_call:
  assumes "usable j0" "10000 \<le> space j0" "unat (j_bytes jops j0) + 10000 < 67108864"
  obtains out e j where "apply_request jops (demo_request Open 1 0) (demo_start j0) = (out, e)" "out_applied out"
    "\<not> e_journal_failed e" "e_journal e = Some j" "kept j = kept j0" "fmlookup (e_accounts e) 2 \<noteq> None"
proof -
  let ?q = "demo_request Open 1 0" and ?e = "demo_start j0"
  define a where "a = open_account (max_attempt_window default_limits) ?q"
  define d where "d = open_outcome ?q (initial_outcome ?q) a"
  have room: "has_room (put_account (id_value (as_account a)) a ?e)"
    using assms by (simp add: has_room_def default_limits_def)
  obtain e1 j where p: "persist_locked jops ?q d (Some a) True (put_account (id_value (as_account a)) a ?e) = (success, e1)"
    "e_journal e1 = Some j" "kept j = kept j0"
    using room_persist [OF room, of ?q d a True] by auto
  have s: "structural_refusal default_limits ?q = None"
    using demo_operator_set by (simp add: structural_refusal_def Let_def demo_operator_bound is_set_def)
  have "apply_request jops ?q ?e = (d, bump_applied (put_account (id_value (as_account a)) (publish_window ?q d a) e1))"
    using p(1) s demo_open_admitted [of j0]
    by (simp add: apply_request_def apply_locked_def create_account_locked_alt open_commit_def Let_def
        a_def [symmetric] d_def [symmetric])
  moreover have "\<not> e_journal_failed e1" using persist_locked_same [OF p(1)] by (simp add: same_decisions_def)
  moreover have "id_value (as_account a) = 2" by (simp add: a_def demo_config_def)
  ultimately show thesis
    using that p(2,3) by (simp add: d_def open_outcome_def)
qed

end

end
