(* ===== verification/FileLog.thy ===== *)
theory FileLog
  imports FileJournal Durability
begin

text \<open>
  What the file journal promises. A pure reading of the log (\<open>scan_log\<close>) and of the snapshot file
  (\<open>parse_snapshot\<close>) says which records the bytes of a file hold; the operations are related to it under
  an arbitrary schedule of faults for the writes, and on a calm device for the reads. The interpretation
  \<open>disk\<close> discharges the journal contract for \<open>FileJournal\<close>.
\<close>

subsection \<open>The log in a file\<close>

text \<open>The pure reading of a log: one record from the front of the bytes, then the whole log and the bytes
  that remain where it stops being readable.\<close>

definition parse_one :: "nat \<Rightarrow> bytes \<Rightarrow> (log_record \<times> bytes) option" where
  "parse_one limit bs =
     (let n = unat (read_u32 bs); envelope = take n (drop kRecordOverhead bs) in
      if length bs < kRecordOverhead \<or> n > limit \<or> n < kEnvelopeBytes \<or> length bs < kRecordOverhead + n \<or>
         crc32c envelope 0 \<noteq> read_u32 (drop 4 bs)
      then None
      else case record_kind_of (envelope ! 8) of
        None \<Rightarrow> None
      | Some kind \<Rightarrow>
          Some (LogRecord (get_u64 envelope) kind
                  (Digest128 (get_u64 (drop 9 envelope)) (get_u64 (drop 17 envelope))) (drop kEnvelopeBytes envelope),
                drop (kRecordOverhead + n) bs))"

lemma parse_one_shrinks: "parse_one limit bs = Some (l, rest) \<Longrightarrow> length rest < length bs"
  by (auto simp: parse_one_def Let_def kRecordOverhead_def kEnvelopeBytes_def split: if_splits option.splits)

function scan_log :: "nat \<Rightarrow> bytes \<Rightarrow> log_record list" where
  "scan_log limit bs = (case parse_one limit bs of None \<Rightarrow> [] | Some (l, rest) \<Rightarrow> l # scan_log limit rest)"
  by auto
termination
  by (relation "measure (length \<circ> snd)") (auto dest: parse_one_shrinks)

function scan_rest :: "nat \<Rightarrow> bytes \<Rightarrow> bytes" where
  "scan_rest limit bs = (case parse_one limit bs of None \<Rightarrow> bs | Some (l, rest) \<Rightarrow> scan_rest limit rest)"
  by auto
termination
  by (relation "measure (length \<circ> snd)") (auto dest: parse_one_shrinks)

declare scan_log.simps [simp del] scan_rest.simps [simp del]

lemma scan_none: "parse_one limit bs = None \<Longrightarrow> scan_log limit bs = [] \<and> scan_rest limit bs = bs"
  by (simp add: scan_log.simps scan_rest.simps)

lemma scan_some:
  "parse_one limit bs = Some (l, rest) \<Longrightarrow>
     scan_log limit bs = l # scan_log limit rest \<and> scan_rest limit bs = scan_rest limit rest"
  by (subst scan_log.simps, subst scan_rest.simps) simp

lemma parse_one_nil [simp]: "parse_one limit [] = None"
  by (simp add: parse_one_def kRecordOverhead_def)

lemma scan_nil [simp]: "scan_log limit [] = []" "scan_rest limit [] = []"
  using scan_none [OF parse_one_nil] by simp_all

text \<open>The bytes \<open>append\<close> writes for a record.\<close>

definition record_bytes :: "log_record \<Rightarrow> bytes" where
  "record_bytes l =
     (let envelope = encode_envelope (lr_sequence l) (lr_kind l) (lr_chain l) (lr_payload l) in
      bw_u32 (of_nat (length envelope)) @ bw_u32 (crc32c envelope 0) @ envelope)"

definition fits :: "nat \<Rightarrow> log_record \<Rightarrow> bool" where
  "fits limit l \<longleftrightarrow> lr_kind l \<noteq> KindUnknown \<and> kEnvelopeBytes + length (lr_payload l) \<le> limit \<and> limit < 2 ^ 32"

lemma unat_of_nat_u32: "n < 2 ^ 32 \<Longrightarrow> unat (of_nat n :: u32) = n"
  by (simp add: unsigned_of_nat take_bit_nat_eq_self)

lemma length_envelope [simp]: "length (encode_envelope n k c p) = 25 + length p"
  by (simp add: encode_envelope_def)

lemma length_record [simp]: "length (record_bytes l) = 33 + length (lr_payload l)"
  by (simp add: record_bytes_def Let_def)

lemma get_u64_encode [simp]: "get_u64 (bw_u64 v @ rest) = v" "get_u64 (bw_u64 v) = v"
  using le_decode_encode [where 'a=64, of 8 v "[]"] le_decode_encode [where 'a=64, of 8 v rest]
  by (simp_all add: get_u64_def bw_u64_def)

lemma envelope_fields:
  "get_u64 (encode_envelope n k c p) = n" "encode_envelope n k c p ! 8 = of_nat (record_kind_value k)"
  "get_u64 (drop 9 (encode_envelope n k c p)) = dg_lo c" "get_u64 (drop 17 (encode_envelope n k c p)) = dg_hi c"
  "drop 25 (encode_envelope n k c p) = p"
  by (simp_all add: encode_envelope_def nth_append)

lemma record_kind_value_of: "k \<noteq> KindUnknown \<Longrightarrow> record_kind_of (of_nat (record_kind_value k)) = Some k"
  by (cases k) (simp_all add: record_kind_of_def)

lemma parse_record:
  assumes "fits limit l"
  shows "parse_one limit (record_bytes l @ rest) = Some (l, rest)"
proof -
  define env where "env = encode_envelope (lr_sequence l) (lr_kind l) (lr_chain l) (lr_payload l)"
  have b: "record_bytes l = bw_u32 (of_nat (length env)) @ bw_u32 (crc32c env 0) @ env"
    by (simp add: record_bytes_def env_def Let_def)
  have n: "25 \<le> length env" "length env \<le> limit" "length env < 2 ^ 32"
    using assms by (simp_all add: env_def fits_def kEnvelopeBytes_def)
  have r: "read_u32 (bw_u32 v @ z) = v" for v z by (simp add: bw_u32_def)
  have k: "lr_kind l \<noteq> KindUnknown" using assms by (simp add: fits_def)
  note f = envelope_fields [of "lr_sequence l" "lr_kind l" "lr_chain l" "lr_payload l", folded env_def]
  show ?thesis
    unfolding parse_one_def Let_def b
    using n by (simp add: r unat_of_nat_u32 kEnvelopeBytes_def kRecordOverhead_def f record_kind_value_of [OF k] not_less)
qed

text \<open>A record cut short is not readable.\<close>

lemma parse_cut:
  assumes "fits limit l" "m < length (record_bytes l)"
  shows "parse_one limit (take m (record_bytes l)) = None"
proof (cases "m < 8")
  case False
  define env where "env = encode_envelope (lr_sequence l) (lr_kind l) (lr_chain l) (lr_payload l)"
  have n: "length env < 2 ^ 32" "length (record_bytes l) = 8 + length env"
    using assms(1) by (simp_all add: env_def fits_def kEnvelopeBytes_def)
  have "record_bytes l = bw_u32 (of_nat (length env)) @ bw_u32 (crc32c env 0) @ env"
    by (simp add: record_bytes_def env_def Let_def)
  then obtain z where z: "take m (record_bytes l) = bw_u32 (of_nat (length env)) @ z"
    using False by (simp add: take_append)
  have u: "unat (read_u32 (take m (record_bytes l))) = length env"
    unfolding z by (simp add: bw_u32_def unat_of_nat_u32 [OF n(1)])
  have "length (take m (record_bytes l)) < 8 + length env" using assms(2) n(2) by simp
  then show ?thesis unfolding parse_one_def Let_def u by (simp add: kRecordOverhead_def)
qed (simp add: parse_one_def kRecordOverhead_def)

lemma scan_append:
  assumes "scan_rest limit xs = []"
  shows "scan_log limit (xs @ ys) = scan_log limit xs @ scan_log limit ys \<and> scan_rest limit (xs @ ys) = scan_rest limit ys"
  using assms
proof (induction limit xs rule: scan_log.induct)
  case (1 limit xs)
  show ?case
  proof (cases "parse_one limit xs")
    case None
    then show ?thesis using 1(2) scan_none [OF None] by simp
  next
    case (Some w)
    obtain l rest where w: "w = (l, rest)" by fastforce
    define n where "n = unat (read_u32 xs)"
    have len: "8 \<le> length xs" "8 + n \<le> length xs" and "25 \<le> n"
      using Some by (auto simp: parse_one_def n_def Let_def kRecordOverhead_def kEnvelopeBytes_def split: if_splits option.splits)
    have r: "read_u32 (xs @ ys) = read_u32 xs" "read_u32 (drop 4 xs @ ys) = read_u32 (drop 4 xs)"
      using len by (simp_all add: read_u32_iff) (simp_all add: read_u32_iff [symmetric])
    have "parse_one limit (xs @ ys) = Some (l, rest @ ys)"
      using Some len w unfolding parse_one_def Let_def
      by (auto simp: r n_def [symmetric] kRecordOverhead_def split: if_splits option.splits)
    then show ?thesis
      using scan_some [of limit xs l rest] scan_some [of limit "xs @ ys" l "rest @ ys"] 1(1) [OF _ w [symmetric]] 1(2) Some w by simp
  qed
qed

subsection \<open>What is durable in the files\<close>

definition calm :: "file_world \<Rightarrow> bool" where
  "calm w \<longleftrightarrow> (\<forall>n. fw_fault w n = None)"

definition fj_content :: "FileJournal \<Rightarrow> bytes" where
  "fj_content j = fw_content (fj_journal_path j) (fj_world j)"

definition fj_limit :: "FileJournal \<Rightarrow> nat" where
  "fj_limit j = fo_max_record_bytes (fj_options j)"

definition parse_snapshot :: "bytes \<Rightarrow> (u64 \<times> Digest128 \<times> bytes) option" where
  "parse_snapshot bs =
     (let trailer = drop (length bs - 16) bs; n = unat (read_u32 (drop 8 trailer)); payload = take n (drop 28 bs) in
      if length bs < 28 \<or> read_u32 bs \<noteq> kSnapshotMagic \<or> bs ! 4 \<noteq> ucast kFormatVersion \<or>
         read_u32 (drop 8 bs) \<noteq> crc32c (take 8 bs) 0 \<or> n > kSnapshotPayloadLimit \<or> length bs < 28 + n \<or>
         crc32c payload 0 \<noteq> read_u32 (drop 12 trailer)
      then None
      else Some (get_u64 (drop 12 bs), Digest128 (get_u64 (drop 20 bs)) (get_u64 trailer), payload))"

definition file_log :: "FileJournal \<Rightarrow> log_record list" where
  "file_log j = scan_log (fj_limit j) (drop kHeaderBytes (fj_content j))"

definition file_snap :: "FileJournal \<Rightarrow> (u64 \<times> Digest128 \<times> bytes) option" where
  "file_snap j = parse_snapshot (fw_content (fj_snapshot_path j) (fj_world j))"

definition placed :: "FileJournal \<Rightarrow> bool" where
  "placed j \<longleftrightarrow> fj_journal_path j = fo_prefix (fj_options j) @ ''.jrnl'' \<and>
     fj_snapshot_path j = fo_prefix (fj_options j) @ ''.snap'' \<and> fj_limit j < 2 ^ 32"

definition file_ready :: "FileJournal \<Rightarrow> bool" where
  "file_ready j \<longleftrightarrow> placed j \<and> fj_open j \<and> \<not> fj_replaying j \<and> \<not> fj_torn j \<and> fj_stream j \<and>
     take kHeaderBytes (fj_content j) = file_header kJournalMagic \<and> fj_write_offset j = length (fj_content j) \<and>
     scan_rest (fj_limit j) (drop kHeaderBytes (fj_content j)) = []"

lemma length_file_header [simp]: "length (file_header m) = 12"
  by (simp add: file_header_def Let_def)

lemma placed_paths:
  assumes "placed j"
  shows "fj_journal_path j \<noteq> fj_snapshot_path j" "fj_journal_path j \<noteq> fj_snapshot_path j @ ''.tmp''"
    "fj_snapshot_path j \<noteq> fj_snapshot_path j @ ''.tmp''"
  using assms by (simp_all add: placed_def)

lemma ready_long:
  assumes "file_ready j"
  shows "12 \<le> length (fj_content j)"
proof -
  have "length (take kHeaderBytes (fj_content j)) = 12" using assms by (simp add: file_ready_def)
  then show ?thesis by (simp add: kHeaderBytes_def min_def split: if_splits)
qed

subsection \<open>Appending\<close>

lemma append_effect:
  assumes "file_ready j" "k \<noteq> KindUnknown" "fj_append n k c p j = (s, j')"
  obtains m w where "fw_content (fj_journal_path j) w = fj_content j @ take m (record_bytes (LogRecord n k c p))"
    "same_but (fj_journal_path j) (fj_world j) w" "0 < m \<Longrightarrow> fits (fj_limit j) (LogRecord n k c p)"
    "status_ok s \<Longrightarrow> m = length (record_bytes (LogRecord n k c p)) \<and>
       j' = j\<lparr>fj_world := w, fj_write_offset := fj_write_offset j + m, fj_bytes := fj_write_offset j + m, fj_records := Suc (fj_records j)\<rparr>"
    "\<not> status_ok s \<Longrightarrow> j' = j\<lparr>fj_world := w\<rparr>"
proof -
  let ?l = "LogRecord n k c p" and ?path = "fj_journal_path j" and ?w = "fj_world j"
  have st: "fj_open j" "\<not> fj_replaying j" "\<not> fj_torn j" "fj_stream j" "fj_write_offset j = length (fj_content j)"
    using assms(1) by (simp_all add: file_ready_def)
  define env where "env = encode_envelope n k c p"
  define start where "start = bw_u32 (of_nat (length env)) @ bw_u32 (crc32c env 0)"
  have rb: "record_bytes ?l = start @ env" by (simp add: record_bytes_def start_def env_def Let_def)
  have ls: "length start = 8" by (simp add: start_def)
  show thesis
  proof (cases "length p + kEnvelopeBytes > fo_max_record_bytes (fj_options j) \<or>
      fj_bytes j + length p + kEnvelopeBytes + kRecordOverhead > unat (fo_max_bytes (fj_options j))")
    case True
    then have "j' = j" "\<not> status_ok s" using assms(3) st by (auto simp: fj_append_def split: if_splits)
    then show thesis by (intro that [of ?w 0]) (simp_all add: fj_content_def same_files_but)
  next
    case False
    then have ft: "fits (fj_limit j) ?l"
      using assms(1,2) by (simp add: fits_def fj_limit_def file_ready_def placed_def)
    obtain b w1 where c1: "libc_call ?w = (b, w1)" by fastforce
    obtain n1 w2 where c2: "libc_fwrite ?path (fj_write_offset j) start w1 = (n1, w2)" by fastforce
    obtain n2 w3 where c3: "libc_fwrite ?path (fj_write_offset j + 8) env w2 = (n2, w3)" by fastforce
    obtain s4 w4 where c4: "durable_flush True w3 = (s4, w4)" by fastforce
    note run = assms(3) [unfolded fj_append_def Let_def env_def [symmetric] start_def [symmetric] kRecordOverhead_def]
    have w1: "fw_content ?path w1 = fj_content j" "same_files ?w w1"
      using libc_call_same [OF c1] by (simp_all add: same_files_content fj_content_def)
    have w2: "fw_content ?path w2 = fj_content j @ take n1 start" "n1 \<le> 8" "same_but ?path ?w w2"
      using fwrite_some [OF c2] same_but_trans [OF same_files_but [OF w1(2)] fwrite_same_but [OF c2]] st(5)
      by (simp_all add: w1 overwrite_end ls)
    show thesis
    proof (cases "b \<and> n1 = 8")
      case False
      then have r: "\<not> status_ok s" "j' = j\<lparr>fj_world := if b then w2 else w1\<rparr>"
        using run st c1 c2 ls \<open>\<not> (_ \<or> _)\<close> by (auto simp: kRecordOverhead_def split: if_splits)
      show thesis
        using r w1 w2 ft by (intro that [of "if b then w2 else w1" "if b then n1 else 0"])
          (auto simp: rb ls same_files_but)
    next
      case True
      have w3: "fw_content ?path w3 = fj_content j @ start @ take n2 env" "n2 \<le> length env" "same_but ?path ?w w3"
        using fwrite_some [OF c3] same_but_trans [OF w2(3) fwrite_same_but [OF c3]] w2(1,2) st(5) True ls
        by (simp_all add: overwrite_end)
      have w4: "fw_content ?path w4 = fw_content ?path w3" "same_but ?path ?w w4"
        using durable_flush_same [OF c4] same_but_trans [OF w3(3) same_files_but [OF durable_flush_same [OF c4]]]
        by (simp_all add: same_files_content)
      have r: "status_ok s \<Longrightarrow> n2 = length env \<and> j' = j\<lparr>fj_world := w4, fj_write_offset := fj_write_offset j + 8 + length env,
          fj_bytes := fj_write_offset j + 8 + length env, fj_records := Suc (fj_records j)\<rparr>"
        "\<not> status_ok s \<Longrightarrow> j' = j\<lparr>fj_world := if n2 = length env then w4 else w3\<rparr>"
        using run st c1 c2 c3 c4 True ls \<open>\<not> (_ \<or> _)\<close> by (auto simp: kRecordOverhead_def split: if_splits)
      show thesis
        using r w3 w4 ft by (intro that [of "if n2 = length env then w4 else w3" "8 + n2"])
          (auto simp: rb ls split: if_splits)
    qed
  qed
qed

lemma scan_record: "fits limit l \<Longrightarrow> scan_log limit (record_bytes l) = [l] \<and> scan_rest limit (record_bytes l) = []"
  using parse_record [of limit l "[]"] scan_some [of limit "record_bytes l" l "[]"] by simp

lemma scan_cut:
  "fits limit l \<Longrightarrow> m < length (record_bytes l) \<Longrightarrow> scan_log limit (take m (record_bytes l)) = []"
  using parse_cut scan_none by blast

text \<open>The log after an append that stopped after \<open>m\<close> bytes of the record.\<close>

lemma file_append_ok:
  assumes "file_ready j" "k \<noteq> KindUnknown" "fj_append n k c p j = (s, j')" "status_ok s"
  shows "file_log j' = file_log j @ [LogRecord n k c p]" "file_snap j' = file_snap j" "file_ready j'"
proof -
  let ?l = "LogRecord n k c p"
  obtain m w where w: "fw_content (fj_journal_path j) w = fj_content j @ take m (record_bytes ?l)"
    "same_but (fj_journal_path j) (fj_world j) w" "0 < m \<Longrightarrow> fits (fj_limit j) ?l"
    "status_ok s \<Longrightarrow> m = length (record_bytes ?l) \<and>
      j' = j\<lparr>fj_world := w, fj_write_offset := fj_write_offset j + m, fj_bytes := fj_write_offset j + m, fj_records := Suc (fj_records j)\<rparr>"
    "\<not> status_ok s \<Longrightarrow> j' = j\<lparr>fj_world := w\<rparr>"
    by (rule append_effect [OF assms(1-3)], rule that)
  note w' = w(4) [OF assms(4), THEN conjunct1] w(4) [OF assms(4), THEN conjunct2]
  have ft: "fits (fj_limit j) ?l" using w(3) w'(1) by simp
  have j': "fj_content j' = fj_content j @ record_bytes ?l" "fj_limit j' = fj_limit j" "placed j' = placed j"
    using w(1) w'(1) by (simp_all add: w'(2) fj_content_def fj_limit_def placed_def)
  have r: "scan_rest (fj_limit j) (drop 12 (fj_content j)) = []" using assms(1) by (simp add: file_ready_def kHeaderBytes_def)
  have long: "12 \<le> length (fj_content j)" by (rule ready_long [OF assms(1)])
  show "file_log j' = file_log j @ [?l]"
    using scan_append [OF r, of "record_bytes ?l"] scan_record [OF ft] long by (simp add: file_log_def j' kHeaderBytes_def)
  show "file_snap j' = file_snap j"
    using same_but_content [OF w(2)] placed_paths(1) [of j] assms(1) by (simp add: file_snap_def w'(2) file_ready_def)
  show "file_ready j'"
    using assms(1) scan_append [OF r, of "record_bytes ?l"] scan_record [OF ft] long w'(1) unfolding file_ready_def j'
    by (simp add: w'(2) kHeaderBytes_def)
qed

lemma file_append_failed:
  assumes "file_ready j" "k \<noteq> KindUnknown" "fj_append n k c p j = (s, j')" "\<not> status_ok s"
  shows "file_log j' = file_log j \<or> file_log j' = file_log j @ [LogRecord n k c p]" "file_snap j' = file_snap j"
proof -
  let ?l = "LogRecord n k c p"
  obtain m w where w: "fw_content (fj_journal_path j) w = fj_content j @ take m (record_bytes ?l)"
    "same_but (fj_journal_path j) (fj_world j) w" "0 < m \<Longrightarrow> fits (fj_limit j) ?l"
    "status_ok s \<Longrightarrow> m = length (record_bytes ?l) \<and>
      j' = j\<lparr>fj_world := w, fj_write_offset := fj_write_offset j + m, fj_bytes := fj_write_offset j + m, fj_records := Suc (fj_records j)\<rparr>"
    "\<not> status_ok s \<Longrightarrow> j' = j\<lparr>fj_world := w\<rparr>"
    by (rule append_effect [OF assms(1-3)], rule that)
  note w' = w(5) [OF assms(4)]
  have j': "fj_content j' = fj_content j @ take m (record_bytes ?l)" "fj_limit j' = fj_limit j"
    using w(1) by (simp_all add: w' fj_content_def fj_limit_def)
  have r: "scan_rest (fj_limit j) (drop 12 (fj_content j)) = []" using assms(1) by (simp add: file_ready_def kHeaderBytes_def)
  have tail: "scan_log (fj_limit j) (take m (record_bytes ?l)) \<in> {[], [?l]}"
    using scan_record [OF w(3)] scan_cut [OF w(3), of m] by (cases "m = 0"; cases "m < length (record_bytes ?l)") auto
  show "file_log j' = file_log j \<or> file_log j' = file_log j @ [?l]"
    using scan_append [OF r, of "take m (record_bytes ?l)"] tail ready_long [OF assms(1)]
    by (auto simp: file_log_def j' kHeaderBytes_def)
  show "file_snap j' = file_snap j"
    using same_but_content [OF w(2)] placed_paths(1) [of j] assms(1) by (simp add: file_snap_def w' file_ready_def)
qed

subsection \<open>Rotating\<close>

lemma take_drop_overwrite: "take k old = bs \<Longrightarrow> length bs = k \<Longrightarrow> overwrite 0 (take m bs) old = old"
proof -
  assume "take k old = bs" "length bs = k"
  then have "take m bs = take (min m k) old" "length (take m bs) = min m k" by auto
  then show ?thesis by (simp add: overwrite_def)
qed

lemma truncate_effect:
  assumes "truncate_stream path keep w = (s, w')" "keep \<le> length (fw_content path w)"
  shows "same_but path w w'" "fw_content path w' = fw_content path w \<or> fw_content path w' = take keep (fw_content path w)"
    "status_ok s \<Longrightarrow> fw_content path w' = take keep (fw_content path w)"
  using assms
  by (auto simp: truncate_stream_def libc_call_def libc_ftruncate_def fw_tick_def fw_put_def fw_content_def same_but_def
      Let_def split: if_splits option.splits prod.splits)

lemma rewrite_effect:
  assumes "file_ready j" "rewrite_journal_header j = (s, j')"
  shows "\<exists>w. j' = j\<lparr>fj_world := w\<rparr> \<and> same_but (fj_journal_path j) (fj_world j) w \<and>
           fw_content (fj_journal_path j) w = fj_content j"
proof -
  let ?path = "fj_journal_path j" and ?h = "file_header kJournalMagic"
  have h: "take 12 (fj_content j) = ?h" "fj_stream j" using assms(1) by (simp_all add: file_ready_def kHeaderBytes_def)
  obtain b w1 where c1: "libc_call (fj_world j) = (b, w1)" by fastforce
  obtain n w2 where c2: "libc_fwrite ?path 0 ?h w1 = (n, w2)" by fastforce
  obtain s3 w3 where c3: "durable_flush True w2 = (s3, w3)" by fastforce
  have w1: "same_but ?path (fj_world j) w1" "fw_content ?path w1 = fj_content j"
    using libc_call_same [OF c1] by (simp_all add: same_files_but same_files_content fj_content_def)
  have w2: "same_but ?path (fj_world j) w2" "fw_content ?path w2 = fj_content j"
    using same_but_trans [OF w1(1) fwrite_same_but [OF c2]] fwrite_some(1) [OF c2] w1(2) take_drop_overwrite [OF h(1)] by simp_all
  have w3: "same_but ?path (fj_world j) w3" "fw_content ?path w3 = fj_content j"
    using same_but_trans [OF w2(1) same_files_but [OF durable_flush_same [OF c3]]] durable_flush_same [OF c3] w2(2)
    by (simp_all add: same_files_content)
  have "\<exists>w \<in> {w1, w2, w3}. j' = j\<lparr>fj_world := w\<rparr>"
    using assms(2) h(2) c1 c2 c3 by (auto simp: rewrite_journal_header_def split: if_splits)
  then show ?thesis using w1 w2 w3 by auto
qed

lemma rotate_effect:
  assumes "file_ready j" "fj_rotate n j = (s, j')"
  shows "file_log j' = file_log j \<or> file_log j' = []" "file_snap j' = file_snap j"
    "status_ok s \<Longrightarrow> file_log j' = [] \<and> file_ready j'"
proof -
  let ?path = "fj_journal_path j" and ?c = "fj_content j"
  have st: "fj_open j" "fj_stream j" "placed j" "\<not> fj_replaying j" "take 12 ?c = file_header kJournalMagic"
    using assms(1) by (simp_all add: file_ready_def kHeaderBytes_def)
  obtain s1 j1 where c1: "rewrite_journal_header j = (s1, j1)" by fastforce
  then obtain w1 where w1: "j1 = j\<lparr>fj_world := w1\<rparr>" "same_but ?path (fj_world j) w1" "fw_content ?path w1 = ?c"
    using rewrite_effect [OF assms(1)] by blast
  obtain s2 w2 where c2: "truncate_stream ?path 12 w1 = (s2, w2)" by fastforce
  obtain s3 w3 where c3: "durable_flush True w2 = (s3, w3)" by fastforce
  note t = truncate_effect [OF c2, unfolded w1(3), OF ready_long [OF assms(1)]]
  note f = durable_flush_same [OF c3]
  have w2: "same_but ?path (fj_world j) w2" using same_but_trans [OF w1(2) t(1)] .
  have w3: "same_but ?path (fj_world j) w3" "fw_content ?path w3 = fw_content ?path w2"
    using same_but_trans [OF w2 same_files_but [OF f]] f by (simp_all add: same_files_content)
  have run: "(\<exists>w \<in> {w1, w2, w3}. \<not> status_ok s \<and> j' = j\<lparr>fj_world := w\<rparr>) \<or>
      status_ok s \<and> status_ok s2 \<and> j' = j\<lparr>fj_world := w3, fj_write_offset := 12, fj_scan_offset := 12, fj_bytes := 12, fj_records := 0,
        fj_torn := False, fj_truncated_bytes := 0\<rparr>"
    using assms(2) st(1,2) c1 c2 c3 w1(1) by (auto simp: fj_rotate_def kHeaderBytes_def split: if_splits)
  have cut: "fj_content j' = ?c \<or> fj_content j' = take 12 ?c" "status_ok s \<Longrightarrow> fj_content j' = take 12 ?c"
    using run t(2,3) w1(3) w3(2) by (auto simp: fj_content_def)
  have lim: "fj_limit j' = fj_limit j" "placed j' = placed j" using run by (auto simp: fj_limit_def placed_def)
  show "file_log j' = file_log j \<or> file_log j' = []" using cut(1) by (auto simp: file_log_def lim kHeaderBytes_def)
  show "file_snap j' = file_snap j"
    using run same_but_content [OF w1(2)] same_but_content [OF w2] same_but_content [OF w3(1)] placed_paths(1) [OF st(3)]
    by (auto simp: file_snap_def)
  show "file_log j' = [] \<and> file_ready j'" if ok: "status_ok s"
    using run ok cut(2) [OF ok] st ready_long [OF assms(1)] lim
    by (auto simp: file_log_def file_ready_def kHeaderBytes_def)
qed

subsection \<open>The snapshot file\<close>

definition snapshot_bytes :: "u64 \<Rightarrow> Digest128 \<Rightarrow> bytes \<Rightarrow> bytes" where
  "snapshot_bytes n c p = snapshot_head n c @ p @ snapshot_trailer c p"

lemma length_snapshot_head [simp]: "length (snapshot_head n c) = 28"
  by (simp add: snapshot_head_def)

lemma length_snapshot_trailer [simp]: "length (snapshot_trailer c p) = 16"
  by (simp add: snapshot_trailer_def)

lemma file_header_checks:
  "read_u32 (file_header m @ z) = m" "(file_header m @ z) ! 4 = ucast kFormatVersion"
  "read_u32 (drop 8 (file_header m @ z)) = crc32c (take 8 (file_header m @ z)) 0" "drop 12 (file_header m @ z) = z"
  by (simp_all add: file_header_def Let_def bw_u32_def nth_append)

lemma parse_snapshot_bytes:
  assumes "length p \<le> kSnapshotPayloadLimit"
  shows "parse_snapshot (snapshot_bytes n c p) = Some (n, c, p)"
proof -
  let ?bs = "snapshot_bytes n c p" and ?t = "snapshot_trailer c p"
  have bs: "?bs = file_header kSnapshotMagic @ bw_u64 n @ bw_u64 (dg_lo c) @ p @ ?t"
    by (simp add: snapshot_bytes_def snapshot_head_def)
  have n: "length p < 2 ^ 32" using assms by (simp add: kSnapshotPayloadLimit_def)
  have len: "length ?bs = 44 + length p" by (simp add: snapshot_bytes_def)
  have tr: "drop (length ?bs - 16) ?bs = ?t" by (simp add: len) (simp add: snapshot_bytes_def)
  have body: "take (length p) (drop 28 ?bs) = p" by (simp add: snapshot_bytes_def)
  have f: "read_u32 (drop 8 ?t) = of_nat (length p)" "read_u32 (drop 12 ?t) = crc32c p 0" "get_u64 ?t = dg_hi c"
    "get_u64 (drop 12 ?bs) = n" "get_u64 (drop 20 ?bs) = dg_lo c"
    by (simp_all add: snapshot_trailer_def bs bw_u32_def read_u32_encode [where rest="[]", simplified])
  have u: "unat (read_u32 (drop 8 ?t)) = length p" by (simp add: f(1) unat_of_nat_u32 [OF n])
  note h = file_header_checks [of kSnapshotMagic "bw_u64 n @ bw_u64 (dg_lo c) @ p @ ?t", folded bs]
  show ?thesis
    unfolding parse_snapshot_def Let_def tr h(1-3) using len assms by (simp add: u body f(2-5))
qed

lemma write_parts_effect:
  assumes "write_parts path (length (fw_content path w)) parts w = (ok, w')"
  shows "same_but path w w'" "ok \<Longrightarrow> fw_content path w' = fw_content path w @ concat parts"
proof -
  let ?step = "\<lambda>(ok, k, v) bs. if \<not> ok then (ok, k, v) else if bs = [] then (True, k, v)
      else case libc_fwrite path k bs v of (n, v') \<Rightarrow> (n = length bs, k + length bs, v')"
  have stuck: "foldl ?step (False, k, v) ps = (False, k, v)" for k v ps by (induction ps) simp_all
  have "\<exists>ok k v'. foldl ?step (True, length (fw_content path v), v) ps = (ok, k, v') \<and> same_but path v v' \<and>
      (ok \<longrightarrow> fw_content path v' = fw_content path v @ concat ps)" for v ps
  proof (induction ps arbitrary: v)
    case Nil
    show ?case by (intro exI [of _ True]) (simp add: same_but_def)
  next
    case (Cons bs ps)
    show ?case
    proof (cases "bs = []")
      case False
      obtain n v1 where c: "libc_fwrite path (length (fw_content path v)) bs v = (n, v1)" by fastforce
      note sb = fwrite_same_but [OF c]
      show ?thesis
      proof (cases "n = length bs")
        case True
        have e: "fw_content path v1 = fw_content path v @ bs"
          using fwrite_all [OF c True] by (simp add: overwrite_end)
        obtain ok k v' where i: "foldl ?step (True, length (fw_content path v1), v1) ps = (ok, k, v')" "same_but path v1 v'"
          "ok \<Longrightarrow> fw_content path v' = fw_content path v1 @ concat ps"
          using Cons.IH [of v1] by blast
        have "length (fw_content path v) + length bs = length (fw_content path v1)" by (simp add: e)
        then show ?thesis using False c True i e same_but_trans [OF sb i(2)] by (auto simp del: length_append)
      next
        case False
        then show ?thesis using c \<open>bs \<noteq> []\<close> sb stuck [of "length (fw_content path v) + length bs" v1 ps]
            by (intro exI [of _ False]) simp
      qed
    qed (use Cons.IH [of v] in simp)
  qed
  from this [of w parts] assms show "same_but path w w'" "ok \<Longrightarrow> fw_content path w' = fw_content path w @ concat parts"
    by (auto simp: write_parts_def)
qed

lemma replace_effect:
  assumes "atomic_replace_file src dst w = (s, w')" "src \<noteq> dst"
  shows "q \<noteq> src \<Longrightarrow> q \<noteq> dst \<or> \<not> status_ok s \<Longrightarrow> fw_content q w' = fw_content q w"
    "status_ok s \<Longrightarrow> fw_content dst w' = fw_content src w" "\<not> status_ok s \<Longrightarrow> fw_files w' = fw_files w"
    "fw_fault w' = fw_fault w"
  using assms
  by (auto simp: atomic_replace_file_def libc_rename_def libc_call_def fw_tick_def fw_content_def
      split: if_splits option.splits prod.splits)

lemma write_snapshot_effect:
  assumes "fj_write_snapshot n c p j = (s, j')" "placed j"
  shows "\<exists>w. j' = j\<lparr>fj_world := w\<rparr> \<and> fw_content (fj_journal_path j) w = fj_content j \<and>
           fw_content (fj_snapshot_path j) w =
             (if status_ok s then snapshot_bytes n c p else fw_content (fj_snapshot_path j) (fj_world j)) \<and>
           (status_ok s \<longrightarrow> length p \<le> kSnapshotPayloadLimit) \<and>
           (\<not> status_ok s \<longrightarrow> fmlookup (fw_files w) (fj_snapshot_path j) = fmlookup (fw_files (fj_world j)) (fj_snapshot_path j))"
proof (cases "length p > kSnapshotPayloadLimit")
  case True
  then have "j' = j\<lparr>fj_world := fj_world j\<rparr>" "\<not> status_ok s" using assms(1) by (auto simp: fj_write_snapshot_def)
  then show ?thesis by (intro exI [of _ "fj_world j"]) (simp add: fj_content_def)
next
  case False
  let ?w = "fj_world j" and ?snap = "fj_snapshot_path j" and ?jr = "fj_journal_path j"
  define tmp where "tmp = ?snap @ ''.tmp''"
  have ne: "?snap \<noteq> tmp" "?jr \<noteq> tmp" "?jr \<noteq> ?snap" using placed_paths [OF assms(2)] by (auto simp: tmp_def)
  obtain b w1 where c1: "libc_fopen tmp OpenCreate ?w = (b, w1)" by fastforce
  obtain ok w2 where c2: "write_parts tmp 0 [snapshot_head n c, p, snapshot_trailer c p] w1 = (ok, w2)" by fastforce
  obtain s3 w3 where c3: "durable_flush True w2 = (s3, w3)" by fastforce
  obtain s4 w4 where c4: "atomic_replace_file tmp ?snap w3 = (s4, w4)" by fastforce
  define cl where "cl v = snd (remove_file tmp v)" for v
  have cl: "same_but tmp v (cl v)" for v
    using remove_same_but [of tmp v "fst (remove_file tmp v)" "cl v"] by (simp add: cl_def)
  have w1: "same_but tmp ?w w1" "b \<Longrightarrow> fw_content tmp w1 = []"
    using create_same_but [OF c1] c1 by (auto simp: libc_fopen_def fw_tick_def fw_put_def fw_content_def split: option.splits)
  have w2: "same_but tmp ?w w2" "ok \<Longrightarrow> fw_content tmp w2 = snapshot_bytes n c p" if b
    using write_parts_effect [of tmp w1 _ ok w2] c2 w1 that same_but_trans [OF w1(1)] by (simp_all add: snapshot_bytes_def)
  note f3 = durable_flush_same [OF c3]
  have w3: "same_but tmp ?w w3" "ok \<Longrightarrow> fw_content tmp w3 = snapshot_bytes n c p" if b
    using w2 [OF that] same_but_trans [OF _ same_files_but [OF f3]] same_files_content [OF f3] by auto
  note r = replace_effect [OF c4 ne(1) [symmetric]]
  have run: "\<not> b \<and> j' = j\<lparr>fj_world := w1\<rparr> \<and> \<not> status_ok s \<or>
      b \<and> (\<exists>w \<in> {w2, w3}. j' = j\<lparr>fj_world := cl w\<rparr>) \<and> \<not> status_ok s \<or>
      b \<and> ok \<and> \<not> status_ok s4 \<and> j' = j\<lparr>fj_world := cl w4\<rparr> \<and> \<not> status_ok s \<or>
      b \<and> ok \<and> status_ok s4 \<and> j' = j\<lparr>fj_world := w4\<rparr> \<and> status_ok s"
    using assms(1) False c1 c2 c3 c4 unfolding fj_write_snapshot_def Let_def tmp_def [symmetric] cl_def [symmetric]
    by (auto split: if_splits)
  have w4: "same_but tmp ?w w4" if "b" "\<not> status_ok s4"
    using w3(1) [OF that(1)] r(3) [OF that(2)] r(4) by (simp add: same_but_def)
  show ?thesis
  proof (cases "status_ok s")
    case True
    then have g: "b" "ok" "status_ok s4" "j' = j\<lparr>fj_world := w4\<rparr>" using run by auto
    have "fw_content ?jr w4 = fj_content j"
      using r(1) [OF ne(2)] ne(3) same_but_content [OF w3(1) [OF g(1)] ne(2)] by (simp add: fj_content_def)
    moreover have "fw_content ?snap w4 = snapshot_bytes n c p" using r(2) [OF g(3)] w3(2) [OF g(1,2)] by simp
    ultimately show ?thesis using g(4) True \<open>\<not> kSnapshotPayloadLimit < length p\<close> by (intro exI [of _ w4]) simp
  next
    case no: False
    have "\<exists>w. j' = j\<lparr>fj_world := w\<rparr> \<and> same_but tmp ?w w"
    proof (cases b)
      case False
      then show ?thesis using run no w1(1) by blast
    next
      case True
      have "j' = j\<lparr>fj_world := cl w2\<rparr> \<or> j' = j\<lparr>fj_world := cl w3\<rparr> \<or> \<not> status_ok s4 \<and> j' = j\<lparr>fj_world := cl w4\<rparr>"
        using run no True by auto
      then show ?thesis
        using same_but_trans [OF w2(1) [OF True] cl] same_but_trans [OF w3(1) [OF True] cl]
          same_but_trans [OF w4 [OF True] cl] by blast
    qed
    then obtain w where w: "j' = j\<lparr>fj_world := w\<rparr>" "same_but tmp ?w w" by blast
    then show ?thesis
      using no ne same_but_content [OF w(2)] by (intro exI [of _ w]) (auto simp: fj_content_def same_but_def)
  qed
qed

subsection \<open>Reading on a calm device\<close>

definition later :: "file_world \<Rightarrow> file_world" where
  "later w = w\<lparr>fw_clock := Suc (fw_clock w)\<rparr>"

lemma later_same [simp]:
  "fw_files (later w) = fw_files w" "fw_content p (later w) = fw_content p w" "calm (later w) = calm w" "same_files w (later w)"
  "fw_dirs (later w) = fw_dirs w"
  by (simp_all add: later_def fw_content_def calm_def same_files_def)

lemma calm_calls:
  assumes "calm w"
  shows "libc_call w = (True, later w)"
    "libc_fread p k n w = (take n (drop k (fw_content p w)), later w)"
    "libc_fopen p OpenRead w = (fmlookup (fw_files w) p \<noteq> None, later w)"
    "libc_fopen p OpenUpdate w = (fmlookup (fw_files w) p \<noteq> None, later w)"
    "libc_fopen p OpenCreate w = (True, fw_put p [] (later w))"
    "file_exists p w = (fmlookup (fw_files w) p \<noteq> None, later w)"
    "durable_flush True w = (success, later (later (later w)))"
  using assms
  by (simp_all add: calm_def later_def libc_call_def libc_fread_def libc_fopen_def fw_tick_def fw_content_def
      file_exists_def durable_flush_def)

lemma calm_put [simp]: "calm (fw_put p bs w) = calm w" "fw_content p (fw_put p bs w) = bs"
  "q \<noteq> p \<Longrightarrow> fw_content q (fw_put p bs w) = fw_content q w" "fmlookup (fw_files (fw_put p bs w)) p = Some bs"
  "q \<noteq> p \<Longrightarrow> fmlookup (fw_files (fw_put p bs w)) q = fmlookup (fw_files w) q"
  by (simp_all add: calm_def fw_put_def fw_content_def)

lemma calm_fwrite:
  assumes "calm w"
  shows "libc_fwrite p k bs w = (length bs, fw_put p (overwrite k bs (fw_content p w)) (later w))"
  using assms by (simp add: calm_def libc_fwrite_def fw_tick_def later_def fw_put_def fw_content_def)

lemma calm_truncate:
  assumes "calm w" "keep \<le> length (fw_content p w)"
  shows "\<exists>w'. truncate_stream p keep w = (success, w') \<and> calm w' \<and> fw_content p w' = take keep (fw_content p w) \<and>
           (\<forall>q. q \<noteq> p \<longrightarrow> fw_content q w' = fw_content q w)"
  using assms
  by (simp add: truncate_stream_def calm_calls) (auto simp: libc_ftruncate_def fw_tick_def calm_def later_def fw_put_def
      fw_content_def Let_def)

lemma calm_parent:
  assumes "calm w"
  shows "\<exists>w'. ensure_parent_directory p w = (success, w') \<and> calm w' \<and> fw_files w' = fw_files w"
  using assms
  by (auto simp: ensure_parent_directory_def directory_exists_def libc_mkdir_def fw_tick_def calm_def
      split: option.splits)

definition snapshot_readable :: "FileJournal \<Rightarrow> bool" where
  "snapshot_readable j \<longleftrightarrow> fmlookup (fw_files (fj_world j)) (fj_snapshot_path j) = None \<or> file_snap j \<noteq> None"

definition at_hand :: "FileJournal \<Rightarrow> bool" where
  "at_hand j \<longleftrightarrow> placed j \<and> calm (fj_world j) \<and> fo_truncate_torn_tail (fj_options j) \<and> snapshot_readable j"

definition file_sane :: "FileJournal \<Rightarrow> bool" where
  "file_sane j \<longleftrightarrow> at_hand j \<and> (fmlookup (fw_files (fj_world j)) (fj_journal_path j) = None \<or>
     take kHeaderBytes (fj_content j) = file_header kJournalMagic)"

definition file_fresh :: "FileJournal \<Rightarrow> bool" where
  "file_fresh j \<longleftrightarrow> at_hand j \<and> fj_open j \<and> fj_stream j \<and> \<not> fj_replaying j \<and>
     fj_write_offset j = length (fj_content j) \<and> 12 \<le> length (fj_content j)"

definition file_reading :: "FileJournal \<Rightarrow> bool" where
  "file_reading j \<longleftrightarrow> at_hand j \<and> fj_open j \<and> fj_stream j \<and> fj_replaying j \<and>
     fj_write_offset j = length (fj_content j) \<and> 12 \<le> fj_scan_offset j \<and> fj_scan_offset j \<le> length (fj_content j) \<and>
     scan_rest (fj_limit j) (drop 12 (take (fj_scan_offset j) (fj_content j))) = []"

definition file_pending :: "FileJournal \<Rightarrow> log_record list" where
  "file_pending j = scan_log (fj_limit j) (drop (fj_scan_offset j) (fj_content j))"

lemma content_none: "fmlookup (fw_files w) p = None \<Longrightarrow> fw_content p w = []"
  by (simp add: fw_content_def)

lemma parse_snapshot_nil [simp]: "parse_snapshot [] = None"
  by (simp add: parse_snapshot_def Let_def)

lemma at_hand_move:
  assumes "at_hand j" "fj_options j' = fj_options j" "fj_journal_path j' = fj_journal_path j"
    "fj_snapshot_path j' = fj_snapshot_path j" "calm (fj_world j')"
    "fmlookup (fw_files (fj_world j')) (fj_snapshot_path j) = fmlookup (fw_files (fj_world j)) (fj_snapshot_path j)"
  shows "at_hand j'" "file_snap j' = file_snap j" "fj_limit j' = fj_limit j"
  using assms unfolding at_hand_def placed_def snapshot_readable_def fj_limit_def
  by (auto simp: file_snap_def fw_content_def)

lemma open_effect:
  assumes "file_sane j"
  shows "\<exists>j'. fj_open_call j = (success, j') \<and> file_fresh j' \<and> file_log j' = file_log j \<and> file_snap j' = file_snap j \<and>
           \<not> fj_torn j' \<and> fj_limit j' = fj_limit j \<and>
           fj_content j' = (if fmlookup (fw_files (fj_world j)) (fj_journal_path j) = None then file_header kJournalMagic else fj_content j)"
proof -
  let ?path = "fj_journal_path j" and ?snap = "fj_snapshot_path j"
  have h: "at_hand j" "calm (fj_world j)" "?path \<noteq> ?snap"
    using assms placed_paths(1) [of j] by (simp_all add: file_sane_def at_hand_def)
  obtain w0 where w0: "ensure_parent_directory ?path (fj_world j) = (success, w0)" "calm w0" "fw_files w0 = fw_files (fj_world j)"
    using calm_parent [OF h(2)] by blast
  have c0: "fw_content q w0 = fw_content q (fj_world j)" for q by (simp add: fw_content_def w0(3))
  show ?thesis
  proof (cases "fmlookup (fw_files (fj_world j)) ?path")
    case None
    let ?w = "fw_put ?path (file_header kJournalMagic) (later (fw_put ?path [] (later (later w0))))"
    let ?v = "later (later (later (later (later ?w))))"
    have o: "fj_open_call j = (success, j\<lparr>fj_stream := True, fj_open := True, fj_replaying := False, fj_torn := False,
        fj_truncated_bytes := 0, fj_world := ?v, fj_write_offset := 12, fj_scan_offset := kHeaderBytes, fj_bytes := 12, fj_records := 0\<rparr>)"
      using None w0
      by (simp add: fj_open_call_def Let_def calm_calls create_header_def calm_fwrite overwrite_end)
    have c: "fw_content ?path ?v = file_header kJournalMagic" "fw_content ?snap ?v = fw_content ?snap (fj_world j)"
      "fmlookup (fw_files ?v) ?snap = fmlookup (fw_files (fj_world j)) ?snap" "calm ?v"
      using h(3) w0 c0 by simp_all
    have empty: "fj_content j = []" using None by (simp add: fj_content_def content_none)
    show ?thesis
      using o c at_hand_move [OF h(1), of "snd (fj_open_call j)"] empty None
      by (simp add: file_fresh_def fj_content_def file_log_def kHeaderBytes_def)
  next
    case (Some bs)
    have hd: "take 12 (fj_content j) = file_header kJournalMagic" "fj_content j = bs"
      using assms Some by (simp_all add: file_sane_def kHeaderBytes_def fj_content_def fw_content_def)
    have len: "12 \<le> length bs" using arg_cong [OF hd(1), of length] hd(2) by simp
    obtain z where z: "bs = file_header kJournalMagic @ z" using hd append_take_drop_id [of 12 bs] by metis
    note hc = file_header_checks [of kJournalMagic "[]", simplified]
    have o: "fj_open_call j = (success, j\<lparr>fj_stream := True, fj_open := True, fj_replaying := False, fj_torn := False,
        fj_truncated_bytes := 0, fj_world := later (later (later (later (later w0)))), fj_write_offset := length bs,
        fj_scan_offset := kHeaderBytes, fj_bytes := length bs, fj_records := 0\<rparr>)"
      using Some w0 c0 hd(2) len
      by (simp add: fj_open_call_def Let_def calm_calls check_header_def kHeaderBytes_def fj_content_def [symmetric] z hc)
    show ?thesis
      using o at_hand_move [OF h(1), of "snd (fj_open_call j)"] hd(2) len c0 w0 Some
      by (simp add: file_fresh_def fj_content_def file_log_def)
  qed
qed

lemma file_open_sane:
  "file_sane j \<Longrightarrow> \<exists>j'. fj_open_call j = (success, j') \<and> file_fresh j' \<and> file_log j' = file_log j \<and> file_snap j' = file_snap j"
  using open_effect by blast

text \<open>Opening a journal with a clean log, a new one for instance, makes it ready for appends.\<close>

lemma open_ready:
  assumes "file_sane j" "scan_rest (fj_limit j) (drop kHeaderBytes (fj_content j)) = []"
  shows "\<exists>j'. fj_open_call j = (success, j') \<and> file_ready j' \<and> file_log j' = file_log j \<and> file_snap j' = file_snap j"
proof -
  obtain j' where o: "fj_open_call j = (success, j')" "file_fresh j'" "file_log j' = file_log j" "file_snap j' = file_snap j"
    "\<not> fj_torn j'" "fj_limit j' = fj_limit j"
    "fj_content j' = (if fmlookup (fw_files (fj_world j)) (fj_journal_path j) = None then file_header kJournalMagic else fj_content j)"
    using open_effect [OF assms(1)] by blast
  have "take kHeaderBytes (fj_content j') = file_header kJournalMagic" "scan_rest (fj_limit j') (drop kHeaderBytes (fj_content j')) = []"
    using assms o(6,7) by (auto simp: file_sane_def kHeaderBytes_def)
  then have "file_ready j'" using o(2,5) by (simp add: file_ready_def file_fresh_def at_hand_def)
  then show ?thesis using o by blast
qed

lemma read_u32_take: "m + 4 \<le> k \<Longrightarrow> k \<le> length bs \<Longrightarrow> read_u32 (drop m (take k bs)) = read_u32 (drop m bs)"
  unfolding read_u32_def le_decode_def by (intro fold_cong) (auto simp: drop_take)

lemma read_u32_front:
  "8 \<le> length bs \<Longrightarrow> read_u32 (take 8 bs) = read_u32 bs" "8 \<le> length bs \<Longrightarrow> read_u32 (drop 4 (take 8 bs)) = read_u32 (drop 4 bs)"
  using read_u32_take [of 0 8 bs] read_u32_take [of 4 8 bs] by simp_all

lemma get_u64_take: "m + 8 \<le> k \<Longrightarrow> k \<le> length bs \<Longrightarrow> get_u64 (drop m (take k bs)) = get_u64 (drop m bs)"
  unfolding get_u64_def le_decode_def by (intro fold_cong) (auto simp: drop_take)

lemma file_read_snapshot:
  assumes "file_fresh j"
  shows "\<exists>j'. fj_read_snapshot j = (success, file_snap j, j') \<and> file_fresh j' \<and> file_log j' = file_log j \<and> file_snap j' = file_snap j"
proof -
  have h: "at_hand j" "calm (fj_world j)" using assms by (simp_all add: file_fresh_def at_hand_def)
  let ?snap = "fj_snapshot_path j"
  have keep: "file_fresh (j\<lparr>fj_world := w\<rparr>) \<and> file_log (j\<lparr>fj_world := w\<rparr>) = file_log j \<and> file_snap (j\<lparr>fj_world := w\<rparr>) = file_snap j"
    if "calm w" "fw_files w = fw_files (fj_world j)" for w
    using assms that at_hand_move [OF h(1), of "j\<lparr>fj_world := w\<rparr>"]
    by (auto simp: file_fresh_def file_log_def fj_content_def fw_content_def)
  show ?thesis
  proof (cases "fmlookup (fw_files (fj_world j)) ?snap")
    case None
    have "fj_read_snapshot j = (success, None, j\<lparr>fj_world := later (fj_world j)\<rparr>)" "file_snap j = None"
      using None h(2) by (simp_all add: fj_read_snapshot_def calm_calls Let_def file_snap_def content_none)
    then show ?thesis using keep [of "later (fj_world j)"] h(2) by auto
  next
    case (Some bs)
    have bs: "fw_content ?snap (fj_world j) = bs" using Some by (simp add: fw_content_def)
    have ok: "parse_snapshot bs \<noteq> None"
      using h(1) Some bs by (auto simp: at_hand_def snapshot_readable_def file_snap_def)
    define trailer where "trailer = drop (length bs - 16) bs"
    define n where "n = unat (read_u32 (drop 8 trailer))"
    have f: "28 \<le> length bs" "read_u32 bs = kSnapshotMagic" "bs ! 4 = ucast kFormatVersion"
      "read_u32 (drop 8 bs) = crc32c (take 8 bs) 0" "n \<le> kSnapshotPayloadLimit" "28 + n \<le> length bs"
      "crc32c (take n (drop 28 bs)) 0 = read_u32 (drop 12 trailer)"
      and res: "file_snap j = Some (get_u64 (drop 12 bs), Digest128 (get_u64 (drop 20 bs)) (get_u64 trailer), take n (drop 28 bs))"
      using ok unfolding file_snap_def bs parse_snapshot_def Let_def trailer_def [symmetric] n_def [symmetric]
      by (auto simp: not_less split: if_splits)
    have lt: "length trailer = 16" using f(1) by (simp add: trailer_def)
    have r: "read_u32 (take 28 bs) = read_u32 bs" "read_u32 (drop 8 (take 28 bs)) = read_u32 (drop 8 bs)"
      "get_u64 (drop 12 (take 28 bs)) = get_u64 (drop 12 bs)" "get_u64 (drop 20 (take 28 bs)) = get_u64 (drop 20 bs)"
      using read_u32_take [of 0 28 bs] read_u32_take [of 8 28 bs] get_u64_take [of 12 28 bs] get_u64_take [of 20 28 bs] f(1)
      by simp_all
    have t16: "take 16 (drop (length bs - 16) bs) = trailer" using lt by (simp add: trailer_def)
    have pay: "(if n = 0 then ([], v) else libc_fread ?snap 28 n v) = (take n (drop 28 bs), if n = 0 then v else later v)"
      if "calm v" "fw_content ?snap v = bs" for v
      using that by (simp add: calm_calls)
    let ?v = "later (later (later (later (later (later (fj_world j))))))"
    have "fj_read_snapshot j = (success, file_snap j, j\<lparr>fj_world := if n = 0 then ?v else later ?v\<rparr>)"
      unfolding res fj_read_snapshot_def Let_def
      using Some h(2) bs f lt
      by (simp add: calm_calls kHeaderBytes_def r t16 n_def [symmetric] pay min_def) (use f(6,7) in auto)
    then show ?thesis using keep [of "if n = 0 then ?v else later ?v"] h(2) by auto
  qed
qed

lemma file_begin_replay:
  assumes "file_fresh j"
  shows "\<exists>j'. fj_begin_replay j = (success, j') \<and> file_reading j' \<and> file_pending j' = file_log j \<and>
           file_log j' = file_log j \<and> file_snap j' = file_snap j"
  using assms at_hand_move [of j "snd (fj_begin_replay j)"]
  by (auto simp: file_fresh_def fj_begin_replay_def file_reading_def file_pending_def file_log_def fj_content_def
      at_hand_def fj_limit_def kHeaderBytes_def)

text \<open>The record that \<open>next_record\<close> returns is the one the pure reading finds at the scan offset.\<close>

lemma next_found:
  assumes "file_reading j" "parse_one (fj_limit j) (drop (fj_scan_offset j) (fj_content j)) = Some (l, rest)"
  shows "\<exists>m w. fj_next_record j = (success, record_of l (of_nat (fj_scan_offset j)),
             j\<lparr>fj_world := w, fj_scan_offset := fj_scan_offset j + m, fj_records := Suc (fj_records j)\<rparr>) \<and>
           rest = drop (fj_scan_offset j + m) (fj_content j) \<and> fj_scan_offset j + m \<le> length (fj_content j) \<and> 8 \<le> m \<and>
           calm w \<and> fw_files w = fw_files (fj_world j) \<and>
           parse_one (fj_limit j) (take m (drop (fj_scan_offset j) (fj_content j))) = Some (l, [])"
proof -
  define bs where "bs = drop (fj_scan_offset j) (fj_content j)"
  define n where "n = unat (read_u32 bs)"
  define env where "env = take n (drop 8 bs)"
  have st: "fj_open j" "fj_stream j" "calm (fj_world j)" "fj_write_offset j = length (fj_content j)"
    "fj_scan_offset j \<le> length (fj_content j)"
    using assms(1) by (simp_all add: file_reading_def at_hand_def)
  obtain k where f: "8 \<le> length bs" "n \<le> fj_limit j" "25 \<le> n" "8 + n \<le> length bs" "crc32c env 0 = read_u32 (drop 4 bs)"
    "record_kind_of (env ! 8) = Some k"
    "l = LogRecord (get_u64 env) k (Digest128 (get_u64 (drop 9 env)) (get_u64 (drop 17 env))) (drop 25 env)"
    "rest = drop (8 + n) bs"
    using assms(2) unfolding bs_def [symmetric]
    by (auto simp: parse_one_def n_def [symmetric] env_def [symmetric] Let_def kRecordOverhead_def kEnvelopeBytes_def not_less
        split: if_splits option.splits)
  have len: "fj_scan_offset j + (8 + n) \<le> length (fj_content j)" "length env = n"
    using f(1,4) st(5) by (simp_all add: bs_def env_def)
  have e: "take n (drop (fj_scan_offset j + 8) (fj_content j)) = env" by (simp add: env_def bs_def add.commute)
  have cut: "parse_one (fj_limit j) (take (8 + n) bs) = Some (l, [])"
  proof -
    have r: "read_u32 (take (8 + n) bs) = read_u32 bs" "read_u32 (drop 4 (take (8 + n) bs)) = read_u32 (drop 4 bs)"
      using read_u32_take [of 0 "8 + n" bs] read_u32_take [of 4 "8 + n" bs] f(1,4) by simp_all
    have "take n (drop 8 (take (8 + n) bs)) = env" by (simp add: env_def drop_take)
    then show ?thesis
      using f r len(2) by (simp add: parse_one_def n_def [symmetric] Let_def kRecordOverhead_def kEnvelopeBytes_def min_def)
  qed
  have "fj_next_record j = (success, record_of l (of_nat (fj_scan_offset j)),
      j\<lparr>fj_world := later (later (later (fj_world j))), fj_scan_offset := fj_scan_offset j + (8 + n), fj_records := Suc (fj_records j)\<rparr>)"
    using st f len e read_u32_front [OF f(1)]
    by (simp add: fj_next_record_def Let_def calm_calls kRecordOverhead_def kEnvelopeBytes_def fj_content_def [symmetric]
        bs_def [symmetric] n_def [symmetric] fj_limit_def not_less add.assoc)
  moreover have "rest = drop (fj_scan_offset j + (8 + n)) (fj_content j)" using f(8) by (simp add: bs_def ac_simps)
  ultimately show ?thesis
    using cut len(1) st(3) by (intro exI [of _ "8 + n"] exI [of _ "later (later (later (fj_world j)))"]) (simp add: bs_def)
qed

lemma next_none:
  assumes "file_reading j" "parse_one (fj_limit j) (drop (fj_scan_offset j) (fj_content j)) = None"
  shows "\<exists>w j'. fj_next_record j = (success, default_journal_record, j') \<and>
           j' = (if fj_scan_offset j = length (fj_content j) then j\<lparr>fj_world := w\<rparr> else mark_torn (j\<lparr>fj_world := w\<rparr>)) \<and> calm w \<and> fw_files w = fw_files (fj_world j)"
proof -
  define bs where "bs = drop (fj_scan_offset j) (fj_content j)"
  define n where "n = unat (read_u32 bs)"
  define env where "env = take n (drop 8 bs)"
  let ?w = "fj_world j"
  have st: "fj_open j" "fj_stream j" "calm ?w" "fj_write_offset j = length (fj_content j)"
    "fj_scan_offset j \<le> length (fj_content j)"
    using assms(1) by (simp_all add: file_reading_def at_hand_def)
  have len: "length bs = length (fj_content j) - fj_scan_offset j" by (simp add: bs_def)
  have e: "take n (drop (fj_scan_offset j + 8) (fj_content j)) = env" by (simp add: env_def bs_def add.commute)
  have "length bs < 8 \<or> n > fj_limit j \<or> n < 25 \<or> length bs < 8 + n \<or> crc32c env 0 \<noteq> read_u32 (drop 4 bs) \<or>
      record_kind_of (env ! 8) = None"
    using assms(2) unfolding bs_def [symmetric]
    by (auto simp: parse_one_def n_def [symmetric] env_def [symmetric] Let_def kRecordOverhead_def kEnvelopeBytes_def
        split: if_splits option.splits)
  then consider "length bs < 8" | "\<not> length bs < 8" "n > fj_limit j \<or> n < 25 \<or> length bs < 8 + n"
    | "\<not> length bs < 8" "\<not> (n > fj_limit j \<or> n < 25 \<or> length bs < 8 + n)"
      "crc32c env 0 \<noteq> read_u32 (drop 4 bs) \<or> record_kind_of (env ! 8) = None"
    by argo
  then show ?thesis
  proof cases
    case 1
    then show ?thesis
      using st len by (intro exI [of _ ?w] exI [of _ "snd (snd (fj_next_record j))"])
        (auto simp: fj_next_record_def kRecordOverhead_def Let_def)
  next
    case 2
    then have "fj_next_record j = (success, default_journal_record, mark_torn (j\<lparr>fj_world := later (later ?w)\<rparr>))"
      using st len read_u32_front [of bs] 2(1)
      by (auto simp: fj_next_record_def Let_def calm_calls kRecordOverhead_def kEnvelopeBytes_def fj_content_def [symmetric]
          bs_def [symmetric] n_def [symmetric] fj_limit_def)
    moreover have "fj_scan_offset j \<noteq> length (fj_content j)" using 2(1) len by auto
    ultimately show ?thesis using st(3) by auto
  next
    case 3
    have l: "length env = n" "fj_scan_offset j + 8 + n \<le> length (fj_content j)" using 3 len st(5) by (auto simp: env_def)
    have "fj_next_record j = (success, default_journal_record, mark_torn (j\<lparr>fj_world := later (later (later ?w))\<rparr>))"
      using st len l 3 e read_u32_front [of bs]
      by (auto simp: fj_next_record_def Let_def calm_calls kRecordOverhead_def kEnvelopeBytes_def fj_content_def [symmetric]
          bs_def [symmetric] n_def [symmetric] fj_limit_def split: option.split)
    moreover have "fj_scan_offset j \<noteq> length (fj_content j)" using 3(1) len by auto
    ultimately show ?thesis using st(3) by auto
  qed
qed

lemma scan_log_Cons: "scan_log limit bs = l # ls \<longleftrightarrow> (\<exists>rest. parse_one limit bs = Some (l, rest) \<and> ls = scan_log limit rest)"
  by (subst scan_log.simps) (auto split: option.splits)

lemma scan_log_Nil: "scan_log limit bs = [] \<longleftrightarrow> parse_one limit bs = None"
  by (subst scan_log.simps) (auto split: option.splits)

text \<open>What is before the scan offset and what is pending make up the log.\<close>

lemma reading_log:
  assumes "file_reading j"
  shows "file_log j = scan_log (fj_limit j) (drop 12 (take (fj_scan_offset j) (fj_content j))) @ file_pending j"
proof -
  let ?c = "fj_content j" and ?k = "fj_scan_offset j"
  have st: "12 \<le> ?k" "?k \<le> length ?c" "scan_rest (fj_limit j) (drop 12 (take ?k ?c)) = []"
    using assms by (simp_all add: file_reading_def)
  have "drop 12 ?c = drop 12 (take ?k ?c) @ drop ?k ?c"
    using st(1,2) append_take_drop_id [of ?k ?c] drop_append [of 12 "take ?k ?c" "drop ?k ?c"] by simp
  then show ?thesis using scan_append [OF st(3), of "drop ?k ?c"] by (simp add: file_log_def file_pending_def kHeaderBytes_def)
qed

lemma file_next_some:
  assumes "file_reading j" "file_pending j = l # ls"
  shows "\<exists>n j'. fj_next_record j = (success, record_of l n, j') \<and> file_reading j' \<and> file_pending j' = ls \<and>
           file_log j' = file_log j \<and> file_snap j' = file_snap j"
proof -
  let ?c = "fj_content j" and ?k = "fj_scan_offset j"
  obtain rest where p: "parse_one (fj_limit j) (drop ?k ?c) = Some (l, rest)" "ls = scan_log (fj_limit j) rest"
    using assms(2) by (auto simp: file_pending_def scan_log_Cons)
  obtain m w where n: "fj_next_record j = (success, record_of l (of_nat ?k),
      j\<lparr>fj_world := w, fj_scan_offset := ?k + m, fj_records := Suc (fj_records j)\<rparr>)"
    "rest = drop (?k + m) ?c" "?k + m \<le> length ?c" "calm w" "fw_files w = fw_files (fj_world j)"
    "parse_one (fj_limit j) (take m (drop ?k ?c)) = Some (l, [])"
    using next_found [OF assms(1) p(1)] by blast
  define j' where "j' = j\<lparr>fj_world := w, fj_scan_offset := ?k + m, fj_records := Suc (fj_records j)\<rparr>"
  have st: "at_hand j" "12 \<le> ?k" "scan_rest (fj_limit j) (drop 12 (take ?k ?c)) = []"
    using assms(1) by (simp_all add: file_reading_def)
  have mv: "at_hand j'" "file_snap j' = file_snap j" "fj_limit j' = fj_limit j"
    using at_hand_move [OF st(1), of j'] n(4,5) by (simp_all add: j'_def)
  have c: "fj_content j' = ?c" using n(5) by (simp add: j'_def fj_content_def fw_content_def)
  have "drop 12 (take (?k + m) ?c) = drop 12 (take ?k ?c) @ take m (drop ?k ?c)"
    using st(2) n(3) by (simp add: take_add)
  moreover have "scan_rest (fj_limit j) (take m (drop ?k ?c)) = []" using scan_some [OF n(6)] by simp
  ultimately have "scan_rest (fj_limit j) (drop 12 (take (?k + m) ?c)) = []" using scan_append [OF st(3)] by simp
  then have "file_reading j'"
    using assms(1) mv n(3) st(2) c unfolding file_reading_def by (simp add: j'_def)
  moreover have "file_pending j' = ls" by (simp add: file_pending_def mv(3) c p(2) n(2)) (simp add: j'_def)
  moreover have "file_log j' = file_log j" by (simp add: file_log_def mv(3) c)
  ultimately show ?thesis using n(1) mv(2) by (auto simp: j'_def [symmetric])
qed

lemma file_next_end:
  assumes "file_reading j" "file_pending j = []"
  shows "\<exists>r j'. fj_next_record j = (success, r, j') \<and> \<not> jr_valid r \<and> file_reading j' \<and> file_pending j' = [] \<and>
           file_log j' = file_log j \<and> file_snap j' = file_snap j"
proof -
  have p: "parse_one (fj_limit j) (drop (fj_scan_offset j) (fj_content j)) = None"
    using assms(2) by (simp add: file_pending_def scan_log_Nil)
  obtain w j' where n: "fj_next_record j = (success, default_journal_record, j')"
    "j' = (if fj_scan_offset j = length (fj_content j) then j\<lparr>fj_world := w\<rparr> else mark_torn (j\<lparr>fj_world := w\<rparr>))"
    "calm w" "fw_files w = fw_files (fj_world j)"
    using next_none [OF assms(1) p] by blast
  have sel: "fj_options j' = fj_options j" "fj_journal_path j' = fj_journal_path j" "fj_snapshot_path j' = fj_snapshot_path j"
    "fj_world j' = w" "fj_scan_offset j' = fj_scan_offset j" "fj_write_offset j' = fj_write_offset j"
    "fj_open j' = fj_open j" "fj_stream j' = fj_stream j" "fj_replaying j' = fj_replaying j"
    using n(2) by (simp_all add: mark_torn_def)
  have "at_hand j" using assms(1) by (simp add: file_reading_def)
  from at_hand_move [OF this, of j'] have mv: "at_hand j'" "file_snap j' = file_snap j" "fj_limit j' = fj_limit j"
    using n(3,4) by (simp_all add: sel)
  have c: "fj_content j' = fj_content j" using n(4) by (simp add: sel fj_content_def fw_content_def)
  have "file_reading j'" "file_pending j' = []" "file_log j' = file_log j"
    using assms mv by (simp_all add: file_reading_def file_pending_def file_log_def c sel)
  then show ?thesis using n(1) mv(2) by (auto simp: default_journal_record_def)
qed

lemma file_end_replay:
  assumes "file_reading j" "file_pending j = []"
  shows "\<exists>j'. fj_end_replay j = (success, j') \<and> file_log j' = file_log j \<and> file_snap j' = file_snap j"
proof -
  let ?c = "fj_content j" and ?k = "fj_scan_offset j"
  have st: "fj_open j" "fj_stream j" "fj_replaying j" "calm (fj_world j)" "placed j" "fo_truncate_torn_tail (fj_options j)"
    "?k \<le> length ?c" "12 \<le> ?k" "at_hand j"
    using assms(1) by (simp_all add: file_reading_def at_hand_def)
  obtain w where t: "truncate_stream (fj_journal_path j) ?k (fj_world j) = (success, w)"
    "fw_content (fj_journal_path j) w = take ?k ?c" "\<And>q. q \<noteq> fj_journal_path j \<Longrightarrow> fw_content q w = fw_content q (fj_world j)"
    using calm_truncate [OF st(4), of ?k "fj_journal_path j"] st(7) by (auto simp: fj_content_def)
  have "file_log j = scan_log (fj_limit j) (drop 12 (take ?k ?c))" using reading_log [OF assms(1)] assms(2) by simp
  then show ?thesis
    using st(1-3,6) t placed_paths(1) [OF st(5)]
    by (auto simp: fj_end_replay_def Let_def file_log_def file_snap_def fj_content_def fj_limit_def kHeaderBytes_def)
qed

subsection \<open>The contract\<close>

interpretation disk: journal_contract file_ops file_log file_snap file_ready file_sane file_fresh file_reading file_pending
proof unfold_locales
  fix j k n c p s j'
  assume a: "file_ready j" "k \<noteq> KindUnknown" "j_append file_ops n k c p j = (s, j')"
  then have a': "fj_append n k c p j = (s, j')" by (simp add: file_ops_def)
  show "file_log j' = file_log j @ [LogRecord n k c p] \<and> file_snap j' = file_snap j \<and> file_ready j'" if "status_ok s"
    using file_append_ok [OF a(1,2) a' that] by simp
  show "(file_log j' = file_log j \<or> file_log j' = file_log j @ [LogRecord n k c p]) \<and> file_snap j' = file_snap j" if "\<not> status_ok s"
    using file_append_failed [OF a(1,2) a' that] by simp
next
  fix j n c p s j'
  assume a: "file_ready j" "j_write_snapshot file_ops n c p j = (s, j')"
  then obtain w where w: "j' = j\<lparr>fj_world := w\<rparr>" "fw_content (fj_journal_path j) w = fj_content j"
    "fw_content (fj_snapshot_path j) w =
       (if status_ok s then snapshot_bytes n c p else fw_content (fj_snapshot_path j) (fj_world j))"
    "status_ok s \<longrightarrow> length p \<le> kSnapshotPayloadLimit"
    using write_snapshot_effect [of n c p j s j'] by (auto simp: file_ops_def file_ready_def)
  have same: "fj_content j' = fj_content j" "fj_limit j' = fj_limit j" using w(1,2) by (simp_all add: fj_content_def fj_limit_def)
  show "file_log j' = file_log j \<and> file_snap j' = Some (n, c, p) \<and> file_ready j'" if "status_ok s"
    using a(1) that w(3,4) same parse_snapshot_bytes [of p n c]
    by (simp add: file_log_def file_snap_def file_ready_def placed_def w(1))
  show "file_log j' = file_log j \<and> file_snap j' = file_snap j" if "\<not> status_ok s"
    using that w(3) same by (simp add: file_log_def file_snap_def w(1))
next
  fix j n s j'
  assume a: "file_ready j" "j_rotate file_ops n j = (s, j')"
  then have a': "fj_rotate n j = (s, j')" by (simp add: file_ops_def)
  show "set (file_log j') \<subseteq> {l \<in> set (file_log j). n < lr_sequence l} \<and> file_snap j' = file_snap j \<and> file_ready j'" if "status_ok s"
    using rotate_effect [OF a(1) a'] that by simp
  show "(file_log j' = file_log j \<or> file_log j' = []) \<and> file_snap j' = file_snap j" if "\<not> status_ok s"
    using rotate_effect [OF a(1) a'] by simp
qed (simp_all add: file_ops_def file_open_sane file_read_snapshot file_begin_replay file_next_some file_next_end file_end_replay)

subsection \<open>Restarting\<close>

text \<open>A new journal object over the files another one left, on a device that does not fail.\<close>

definition reopened :: "FileJournal \<Rightarrow> FileJournal" where
  "reopened j = make_file_journal (fj_options j) ((fj_world j)\<lparr>fw_fault := \<lambda>_. None\<rparr>)"

definition recoverable :: "FileJournal \<Rightarrow> bool" where
  "recoverable j \<longleftrightarrow> placed j \<and> fo_truncate_torn_tail (fj_options j) \<and> snapshot_readable j \<and>
     take kHeaderBytes (fj_content j) = file_header kJournalMagic"

lemma recoverable_move:
  assumes "recoverable j" "fj_options j' = fj_options j" "fj_journal_path j' = fj_journal_path j"
    "fj_snapshot_path j' = fj_snapshot_path j" "take kHeaderBytes (fj_content j') = take kHeaderBytes (fj_content j)"
    "fmlookup (fw_files (fj_world j')) (fj_snapshot_path j) = fmlookup (fw_files (fj_world j)) (fj_snapshot_path j) \<or>
     file_snap j' \<noteq> None"
  shows "recoverable j'"
  using assms unfolding recoverable_def placed_def snapshot_readable_def fj_limit_def
  by (auto simp: file_snap_def fw_content_def)

lemma reopened_same:
  assumes "placed j"
  shows "placed (reopened j)" "fj_content (reopened j) = fj_content j" "fj_limit (reopened j) = fj_limit j"
    "file_log (reopened j) = file_log j" "file_snap (reopened j) = file_snap j"
  using assms
  by (simp_all add: placed_def reopened_def make_file_journal_def fj_content_def fj_limit_def file_log_def file_snap_def
      fw_content_def)

lemma reopened_sane: "recoverable j \<Longrightarrow> file_sane (reopened j)"
  using reopened_same [of j]
  by (auto simp: recoverable_def file_sane_def at_hand_def snapshot_readable_def calm_def)
     (simp_all add: reopened_def make_file_journal_def placed_def)

lemma file_read_back:
  assumes "recoverable j" "length (file_log j) < fuel"
  shows "\<exists>j1 j2 j3 j4. fj_open_call (reopened j) = (success, j1) \<and> fj_begin_replay j1 = (success, j2) \<and>
           read_all file_ops fuel j2 = (file_log j, j3) \<and> fj_end_replay j3 = (success, j4) \<and> file_snap j4 = file_snap j"
proof -
  have p: "placed j" using assms(1) by (simp add: recoverable_def)
  show ?thesis
    using disk.read_back [OF reopened_sane [OF assms(1)], of fuel] assms(2) reopened_same [OF p]
    by (auto simp: file_ops_def)
qed

text \<open>A concrete device: the journal file with the given bytes, no snapshot, and a write fault.\<close>

definition demo_disk :: "bytes \<Rightarrow> FileJournal" where
  "demo_disk z = make_file_journal default_file_options
     \<lparr>fw_files = fmupd ''creditfabric.jrnl'' (file_header kJournalMagic @ z) fmempty, fw_dirs = {||},
      fw_fault = (\<lambda>n. if n = 2 then Some 7 else None), fw_clock = 0\<rparr>"

definition demo_record :: "u64 \<Rightarrow> log_record" where
  "demo_record n = LogRecord n KindAttempt zero_digest [1, 2, 3]"

lemma demo_disk_facts:
  "recoverable (demo_disk z)" "fj_content (demo_disk z) = file_header kJournalMagic @ z"
  "fits (fj_limit (demo_disk z)) (demo_record n)" "file_snap (demo_disk z) = None"
  by (simp_all add: recoverable_def placed_def snapshot_readable_def demo_disk_def make_file_journal_def default_file_options_def
      fj_content_def fw_content_def fj_limit_def file_snap_def kHeaderBytes_def fits_def demo_record_def kEnvelopeBytes_def)

definition demo_journal :: FileJournal where
  "demo_journal = (demo_disk [])\<lparr>fj_open := True, fj_stream := True, fj_write_offset := 12, fj_bytes := 12\<rparr>"

lemma demo_journal_facts: "recoverable demo_journal" "file_log demo_journal = []"
  using recoverable_move [OF demo_disk_facts(1) [of "[]"], of demo_journal] demo_disk_facts(2) [of "[]"]
  by (simp_all add: demo_journal_def fj_content_def file_log_def kHeaderBytes_def)

lemma demo_journal_ready: "file_ready demo_journal"
  by (simp add: demo_journal_def file_ready_def placed_def demo_disk_def make_file_journal_def default_file_options_def fj_content_def
      fw_content_def fj_limit_def kHeaderBytes_def)

text \<open>An append keeps the files recoverable, whatever fails.\<close>

lemma append_recoverable:
  assumes "file_ready j" "k \<noteq> KindUnknown" "fj_append n k c p j = (s, j')" "recoverable j"
  shows "recoverable j'"
proof -
  let ?l = "LogRecord n k c p"
  obtain m w where w: "fw_content (fj_journal_path j) w = fj_content j @ take m (record_bytes ?l)"
    "same_but (fj_journal_path j) (fj_world j) w" "0 < m \<Longrightarrow> fits (fj_limit j) ?l"
    "status_ok s \<Longrightarrow> m = length (record_bytes ?l) \<and>
      j' = j\<lparr>fj_world := w, fj_write_offset := fj_write_offset j + m, fj_bytes := fj_write_offset j + m, fj_records := Suc (fj_records j)\<rparr>"
    "\<not> status_ok s \<Longrightarrow> j' = j\<lparr>fj_world := w\<rparr>"
    by (rule append_effect [OF assms(1-3)], rule that)
  have sel: "fj_options j' = fj_options j" "fj_journal_path j' = fj_journal_path j" "fj_snapshot_path j' = fj_snapshot_path j"
    "fj_world j' = w"
    using w(4,5) by (cases "status_ok s"; simp)+
  have "fmlookup (fw_files w) (fj_snapshot_path j) = fmlookup (fw_files (fj_world j)) (fj_snapshot_path j)"
    using w(2) placed_paths(1) [of j] assms(1) by (auto simp: same_but_def file_ready_def)
  then show ?thesis
    using w(1) ready_long [OF assms(1)] by (intro recoverable_move [OF assms(4) sel(1-3)]) (simp_all add: sel fj_content_def kHeaderBytes_def)
qed



lemma write_snapshot_recoverable:
  assumes "recoverable j" "fj_write_snapshot n c p j = (s, j')"
  shows "recoverable j'" "file_log j' = file_log j" "file_snap j' = (if status_ok s then Some (n, c, p) else file_snap j)"
proof -
  have pl: "placed j" using assms(1) by (simp add: recoverable_def)
  obtain w where w: "j' = j\<lparr>fj_world := w\<rparr>" "fw_content (fj_journal_path j) w = fj_content j"
    "fw_content (fj_snapshot_path j) w =
       (if status_ok s then snapshot_bytes n c p else fw_content (fj_snapshot_path j) (fj_world j))"
    "status_ok s \<longrightarrow> length p \<le> kSnapshotPayloadLimit"
    "\<not> status_ok s \<longrightarrow> fmlookup (fw_files w) (fj_snapshot_path j) = fmlookup (fw_files (fj_world j)) (fj_snapshot_path j)"
    using write_snapshot_effect [OF assms(2) pl] by blast
  show l: "file_log j' = file_log j" using w(2) by (simp add: file_log_def fj_content_def fj_limit_def w(1))
  show sn: "file_snap j' = (if status_ok s then Some (n, c, p) else file_snap j)"
    using w(3,4) parse_snapshot_bytes [of p n c] by (simp add: file_snap_def w(1))
  show "recoverable j'"
    using w(2,5) sn by (intro recoverable_move [OF assms(1)]) (auto simp: w(1) fj_content_def split: if_splits)
qed

text \<open>C20: the snapshot file is replaced atomically. Under every schedule of faults, the journal reopened after
  \<open>write_snapshot\<close> reads back the snapshot of before when the call failed and the new one, sequence, chain and
  payload, when it reported success; the log is untouched.\<close>

theorem snapshot_replacement_is_atomic:
  assumes "recoverable j" "fj_write_snapshot n c p j = (s, j')"
  shows "\<exists>j1 j2. fj_open_call (reopened j') = (success, j1) \<and>
           fj_read_snapshot j1 = (success, if status_ok s then Some (n, c, p) else file_snap j, j2) \<and> file_log j2 = file_log j"
proof -
  note r = write_snapshot_recoverable [OF assms]
  have "placed j'" using r(1) by (simp add: recoverable_def)
  note o = reopened_same(4,5) [OF this]
  obtain j1 where j1: "fj_open_call (reopened j') = (success, j1)" "file_fresh j1" "file_log j1 = file_log j'" "file_snap j1 = file_snap j'"
    using file_open_sane [OF reopened_sane [OF r(1)]] o by auto
  with file_read_snapshot [OF j1(2)] r(2,3) show ?thesis by auto
qed

theorem snapshot_replacement_is_atomic_witness:
  "\<exists>s j' j1 j2. fj_write_snapshot 7 zero_digest [1, 2, 3] (demo_disk []) = (s, j') \<and> fj_open_call (reopened j') = (success, j1) \<and>
     fj_read_snapshot j1 = (success, if status_ok s then Some (7, zero_digest, [1, 2, 3]) else None, j2)"
proof -
  obtain s j' where "fj_write_snapshot 7 zero_digest [1, 2, 3] (demo_disk []) = (s, j')" by fastforce
  with snapshot_replacement_is_atomic [OF demo_disk_facts(1) this] show ?thesis by (auto simp: demo_disk_facts)
qed

subsection \<open>Damaged tails\<close>

lemma scan_records:
  assumes "list_all (fits limit) ls"
  shows "scan_log limit (concat (map record_bytes ls)) = ls \<and> scan_rest limit (concat (map record_bytes ls)) = []"
  using assms
proof (induction ls)
  case (Cons l ls)
  then have f: "fits limit l" by simp
  show ?case using Cons scan_append [OF scan_record [OF f, THEN conjunct2]] scan_record [OF f] by simp
qed simp

lemma scan_records_then:
  "list_all (fits limit) ls \<Longrightarrow> parse_one limit z = None \<Longrightarrow>
     scan_log limit (concat (map record_bytes ls) @ z) = ls \<and> scan_rest limit (concat (map record_bytes ls) @ z) = z"
  using scan_records [of limit ls] scan_append [of limit "concat (map record_bytes ls)" z] scan_none [of limit z] by simp

text \<open>A replay reads up to the first byte it cannot make sense of, and notes whether there is one.\<close>

lemma file_read_all:
  assumes "file_reading j" "length (file_pending j) < fuel"
  shows "\<exists>j'. read_all file_ops fuel j = (file_pending j, j') \<and> file_reading j' \<and> file_pending j' = [] \<and>
           fj_content j' = fj_content j \<and> fj_journal_path j' = fj_journal_path j \<and>
           drop (fj_scan_offset j') (fj_content j) = scan_rest (fj_limit j) (drop (fj_scan_offset j) (fj_content j)) \<and>
           fj_torn j' = (fj_torn j \<or> scan_rest (fj_limit j) (drop (fj_scan_offset j) (fj_content j)) \<noteq> [])"
  using assms
proof (induction fuel arbitrary: j)
  case (Suc fuel)
  let ?bs = "drop (fj_scan_offset j) (fj_content j)"
  show ?case
  proof (cases "parse_one (fj_limit j) ?bs")
    case None
    obtain w j1 where n: "fj_next_record j = (success, default_journal_record, j1)"
      "j1 = (if fj_scan_offset j = length (fj_content j) then j\<lparr>fj_world := w\<rparr> else mark_torn (j\<lparr>fj_world := w\<rparr>))"
      "fw_files w = fw_files (fj_world j)"
      using next_none [OF Suc.prems(1) None] by blast
    have p: "file_pending j = []" using None by (simp add: file_pending_def scan_log_Nil)
    have r: "file_reading j1" "file_pending j1 = []" using file_next_end [OF Suc.prems(1) p] n(1) by auto
    have sel: "fj_content j1 = fj_content j" "fj_journal_path j1 = fj_journal_path j" "fj_scan_offset j1 = fj_scan_offset j"
      "fj_torn j1 = (fj_torn j \<or> fj_scan_offset j \<noteq> length (fj_content j))"
      using n(2,3) by (simp_all add: mark_torn_def fj_content_def fw_content_def)
    have "fj_scan_offset j \<le> length (fj_content j)" using Suc.prems(1) by (simp add: file_reading_def)
    then show ?thesis using n(1) p r sel scan_none [OF None] by (simp add: file_ops_def default_journal_record_def) auto
  next
    case (Some v)
    then obtain l rest where v: "parse_one (fj_limit j) ?bs = Some (l, rest)" by (cases v) simp
    have p: "file_pending j = l # scan_log (fj_limit j) rest" using scan_some [OF v] by (simp add: file_pending_def)
    obtain m w where n: "fj_next_record j = (success, record_of l (of_nat (fj_scan_offset j)),
        j\<lparr>fj_world := w, fj_scan_offset := fj_scan_offset j + m, fj_records := Suc (fj_records j)\<rparr>)"
      "rest = drop (fj_scan_offset j + m) (fj_content j)" "fw_files w = fw_files (fj_world j)"
      using next_found [OF Suc.prems(1) v] by blast
    define j1 where "j1 = j\<lparr>fj_world := w, fj_scan_offset := fj_scan_offset j + m, fj_records := Suc (fj_records j)\<rparr>"
    have r: "file_reading j1" "file_pending j1 = scan_log (fj_limit j) rest"
      using file_next_some [OF Suc.prems(1) p] n(1) by (auto simp: j1_def)
    have sel: "fj_content j1 = fj_content j" "fj_journal_path j1 = fj_journal_path j" "fj_torn j1 = fj_torn j"
      "fj_limit j1 = fj_limit j" "drop (fj_scan_offset j1) (fj_content j) = rest"
      using n(2,3) by (simp_all add: j1_def fj_content_def fw_content_def fj_limit_def)
    have "length (file_pending j1) < fuel" using Suc.prems(2) p r(2) by simp
    from Suc.IH [OF r(1) this] show ?thesis
      using n(1) scan_some [OF v] sel r(2) p by (auto simp: file_ops_def j1_def [symmetric])
  qed
qed simp

lemma end_replay_content:
  assumes "file_reading j" "file_pending j = []" "fj_torn j \<or> fj_scan_offset j = length (fj_content j)"
  shows "\<exists>j'. fj_end_replay j = (success, j') \<and> fj_content j' = take (fj_scan_offset j) (fj_content j) \<and>
           fj_torn j' = fj_torn j \<and> \<not> fj_replaying j' \<and> fj_open j' \<and> fj_truncated_bytes j' = fj_truncated_bytes j"
proof -
  have st: "fj_open j" "fj_stream j" "fj_replaying j" "calm (fj_world j)" "fo_truncate_torn_tail (fj_options j)"
    "fj_scan_offset j \<le> length (fj_content j)"
    using assms(1) by (simp_all add: file_reading_def at_hand_def)
  obtain w where t: "truncate_stream (fj_journal_path j) (fj_scan_offset j) (fj_world j) = (success, w)"
    "fw_content (fj_journal_path j) w = take (fj_scan_offset j) (fj_content j)"
    using calm_truncate [OF st(4), of "fj_scan_offset j" "fj_journal_path j"] st(6) by (auto simp: fj_content_def)
  show ?thesis using st t assms(3) by (auto simp: fj_end_replay_def Let_def fj_content_def)
qed

text \<open>A replay of a whole journal file: what it returns, and what it leaves of the file.\<close>

lemma replay_file:
  assumes "recoverable j" "fj_content j = file_header kJournalMagic @ concat (map record_bytes ls) @ z"
    "list_all (fits (fj_limit j)) ls" "parse_one (fj_limit j) z = None" "length ls < fuel"
  shows "\<exists>j1 j2 j3 j4. fj_open_call (reopened j) = (success, j1) \<and> fj_begin_replay j1 = (success, j2) \<and>
           read_all file_ops fuel j2 = (ls, j3) \<and> fj_end_replay j3 = (success, j4) \<and>
           fj_content j4 = file_header kJournalMagic @ concat (map record_bytes ls) \<and>
           fj_open j4 \<and> \<not> fj_replaying j4 \<and> fj_torn j4 = (z \<noteq> [])"
proof -
  let ?good = "file_header kJournalMagic @ concat (map record_bytes ls)"
  have pl: "placed j" using assms(1) by (simp add: recoverable_def)
  note o = reopened_same [OF pl]
  note sc = scan_records_then [OF assms(3,4)]
  have lg: "file_log j = ls" using sc by (simp add: file_log_def assms(2) kHeaderBytes_def)
  have some: "fmlookup (fw_files (fj_world (reopened j))) (fj_journal_path (reopened j)) \<noteq> None"
  proof
    assume "fmlookup (fw_files (fj_world (reopened j))) (fj_journal_path (reopened j)) = None"
    then have "length (fj_content j) = 0" using o(2) by (simp add: fj_content_def content_none)
    then show False unfolding assms(2) by (simp only: length_append length_file_header)
  qed
  obtain j1 where j1: "fj_open_call (reopened j) = (success, j1)" "file_fresh j1" "file_log j1 = ls" "fj_limit j1 = fj_limit j"
    "fj_content j1 = fj_content j"
    using open_effect [OF reopened_sane [OF assms(1)]] o lg some by auto
  define j2 where "j2 = snd (fj_begin_replay j1)"
  have b: "fj_begin_replay j1 = (success, j2)" "fj_scan_offset j2 = 12" "\<not> fj_torn j2"
    "fj_content j2 = fj_content j" "fj_limit j2 = fj_limit j"
    using j1(2,4,5) by (simp_all add: j2_def fj_begin_replay_def file_fresh_def kHeaderBytes_def fj_content_def fj_limit_def)
  have j2: "file_reading j2" "file_pending j2 = ls" using file_begin_replay [OF j1(2)] b(1) j1(3) by auto
  have tail: "scan_rest (fj_limit j2) (drop (fj_scan_offset j2) (fj_content j2)) = z"
    using sc by (simp add: b(2,4,5) assms(2))
  obtain j3 where j3: "read_all file_ops fuel j2 = (ls, j3)" "file_reading j3" "file_pending j3 = []" "fj_content j3 = fj_content j"
    "drop (fj_scan_offset j3) (fj_content j) = z" "fj_torn j3 = (z \<noteq> [])"
    using file_read_all [OF j2(1), of fuel] j2(2) assms(5) tail b(3,4) by auto
  have k: "fj_scan_offset j3 = length ?good"
  proof -
    have "fj_scan_offset j3 \<le> length (fj_content j)" using j3(2,4) by (simp add: file_reading_def)
    then show ?thesis using arg_cong [OF j3(5), of length] by (simp add: assms(2))
  qed
  have "fj_torn j3 \<or> fj_scan_offset j3 = length (fj_content j3)" using j3(4,6) k by (auto simp: assms(2))
  from end_replay_content [OF j3(2,3) this] obtain j4 where j4: "fj_end_replay j3 = (success, j4)"
    "fj_content j4 = take (fj_scan_offset j3) (fj_content j3)" "fj_torn j4 = (z \<noteq> [])" "\<not> fj_replaying j4" "fj_open j4"
    using j3(6) by auto
  moreover have "fj_content j4 = ?good" using j4(2) k by (simp add: j3(4) assms(2))
  ultimately show ?thesis using j1(1) b(1) j3(1) by blast
qed

text \<open>C18: a torn tail costs nothing else. When a crash cut the last record of a journal file anywhere, the next
  replay returns every record before it, in order, and nothing else; ending the replay cuts the file back to
  exactly those records.\<close>

theorem torn_tail_is_cut_off:
  assumes "recoverable j" "list_all (fits (fj_limit j)) (ls @ [l])" "m < length (record_bytes l)" "length ls < fuel"
    "fj_content j = file_header kJournalMagic @ concat (map record_bytes ls) @ take m (record_bytes l)"
  shows "\<exists>j1 j2 j3 j4. fj_open_call (reopened j) = (success, j1) \<and> fj_begin_replay j1 = (success, j2) \<and>
           read_all file_ops fuel j2 = (ls, j3) \<and> fj_end_replay j3 = (success, j4) \<and>
           fj_content j4 = file_header kJournalMagic @ concat (map record_bytes ls)"
proof -
  have f: "list_all (fits (fj_limit j)) ls" "fits (fj_limit j) l" using assms(2) by simp_all
  from replay_file [OF assms(1,5) f(1) parse_cut [OF f(2) assms(3)] assms(4)] show ?thesis by blast
qed

theorem torn_tail_is_cut_off_witness:
  "\<exists>j1 j2 j3 j4. fj_open_call (reopened (demo_disk (record_bytes (demo_record 1) @ take 9 (record_bytes (demo_record 2))))) = (success, j1) \<and>
     fj_begin_replay j1 = (success, j2) \<and> read_all file_ops 2 j2 = ([demo_record 1], j3) \<and> fj_end_replay j3 = (success, j4) \<and>
     fj_content j4 = file_header kJournalMagic @ record_bytes (demo_record 1)"
  using torn_tail_is_cut_off [of "demo_disk (record_bytes (demo_record 1) @ take 9 (record_bytes (demo_record 2)))"
      "[demo_record 1]" "demo_record 2" 9 2]
  by (simp add: demo_disk_facts)

text \<open>A record whose envelope was altered within four consecutive bytes fails its checksum.\<close>

lemma parse_damaged:
  assumes "encode_envelope (lr_sequence l) (lr_kind l) (lr_chain l) (lr_payload l) = us @ xs @ vs" "fits limit l"
    "length xs = length ys" "length xs \<le> 4" "xs \<noteq> ys"
  shows "parse_one limit (take kRecordOverhead (record_bytes l) @ us @ ys @ vs @ z) = None"
proof -
  define env where "env = us @ xs @ vs"
  define env' where "env' = us @ ys @ vs"
  have len: "length env' = length env" "length env < 2 ^ 32" using assms(1-3) length_envelope [of "lr_sequence l" "lr_kind l" "lr_chain l" "lr_payload l"]
    by (simp_all add: env_def env'_def fits_def kEnvelopeBytes_def)
  have st: "take 8 (record_bytes l) = bw_u32 (of_nat (length env)) @ bw_u32 (crc32c env 0)"
    by (simp add: record_bytes_def Let_def assms(1) env_def)
  have r: "read_u32 (bw_u32 v @ y) = v" for v y by (simp add: bw_u32_def)
  have "crc32c env' 0 \<noteq> crc32c env 0" using crc_burst [OF assms(3,4), of us vs 0] assms(5) by (auto simp: env_def env'_def)
  then have "parse_one limit ((bw_u32 (of_nat (length env)) @ bw_u32 (crc32c env 0)) @ env' @ z) = None"
    using len by (simp add: parse_one_def Let_def r unat_of_nat_u32 kRecordOverhead_def)
  then show ?thesis by (simp add: st kRecordOverhead_def env'_def)
qed





end
