(* ===== verification/Disk.thy ===== *)
theory Disk
  imports FileLog
begin

text \<open>
  The engine on a file journal: what is on the device when a decision is acknowledged, that a healthy device
  with room always acknowledges, and that a new process recovers the accounts from the files.
\<close>

subsection \<open>Space on the device\<close>

definition file_usable :: "FileJournal \<Rightarrow> bool" where
  "file_usable j \<longleftrightarrow> file_ready j \<and> calm (fj_world j) \<and> fj_bytes j = fj_write_offset j"

definition file_space :: "FileJournal \<Rightarrow> nat" where
  "file_space j = min (fj_limit j) (unat (fo_max_bytes (fj_options j)) - fj_bytes j)"

lemma file_bytes: "j_bytes file_ops = (\<lambda>j. of_nat (fj_bytes j))"
  by (simp add: file_ops_def)

lemma append_calm:
  assumes "file_usable j" "k \<noteq> KindUnknown" "length p + 40 \<le> file_space j"
  shows "\<exists>w. fj_append n k c p j = (success, j\<lparr>fj_world := w, fj_write_offset := fj_write_offset j + 33 + length p,
             fj_bytes := fj_write_offset j + 33 + length p, fj_records := Suc (fj_records j)\<rparr>) \<and> calm w \<and>
           (\<forall>q. q \<noteq> fj_journal_path j \<longrightarrow> fmlookup (fw_files w) q = fmlookup (fw_files (fj_world j)) q)"
proof -
  have st: "fj_open j" "\<not> fj_replaying j" "\<not> fj_torn j" "fj_stream j" "calm (fj_world j)"
    using assms(1) by (simp_all add: file_usable_def file_ready_def)
  have sz: "\<not> length p + 25 > fo_max_record_bytes (fj_options j)"
    "\<not> fj_bytes j + length p + 25 + 8 > unat (fo_max_bytes (fj_options j))"
    using assms(3) by (auto simp: file_space_def fj_limit_def)
  show ?thesis
    using st sz
    by (intro exI [of _ "fj_world (snd (fj_append n k c p j))"])
       (simp add: fj_append_def Let_def calm_calls calm_fwrite kEnvelopeBytes_def kRecordOverhead_def ac_simps)
qed

definition file_rest :: "FileJournal \<Rightarrow> bytes option \<times> string \<times> FileJournalOptions" where
  "file_rest j = (fmlookup (fw_files (fj_world j)) (fj_snapshot_path j), fj_snapshot_path j, fj_options j)"

interpretation disk_space: journal_space file_ops file_rest file_usable file_space
proof unfold_locales
  fix j k n c and p :: bytes
  assume a: "file_usable j" "k \<noteq> KindUnknown" "length p + 40 \<le> file_space j"
  have rd: "file_ready j" using a(1) by (simp add: file_usable_def)
  obtain w where w: "fj_append n k c p j = (success, j\<lparr>fj_world := w, fj_write_offset := fj_write_offset j + 33 + length p,
             fj_bytes := fj_write_offset j + 33 + length p, fj_records := Suc (fj_records j)\<rparr>)" "calm w"
    "\<And>q. q \<noteq> fj_journal_path j \<Longrightarrow> fmlookup (fw_files w) q = fmlookup (fw_files (fj_world j)) q"
    using append_calm [OF a] by blast
  define j' where "j' = j\<lparr>fj_world := w, fj_write_offset := fj_write_offset j + 33 + length p,
             fj_bytes := fj_write_offset j + 33 + length p, fj_records := Suc (fj_records j)\<rparr>"
  have ok: "file_ready j'" using file_append_ok [OF rd a(2) w(1)] by (simp add: j'_def)
  have rs: "file_rest j' = file_rest j"
    using w(3) placed_paths(1) [of j] rd by (simp add: file_rest_def j'_def file_ready_def)
  have b: "fj_bytes j' = fj_bytes j + 33 + length p" "fj_limit j' = fj_limit j" "fj_options j' = fj_options j"
    using a(1) by (simp_all add: j'_def file_usable_def fj_limit_def)
  have "unat (fo_max_bytes (fj_options j)) < 2 ^ 64" using unsigned_less [of "fo_max_bytes (fj_options j)"] by simp
  then have lt: "fj_bytes j + 33 + length p < 2 ^ 64" using a(3) unfolding file_space_def by linarith
  have u: "unat (of_nat x :: u64) = x" if "x < 2 ^ 64" for x using that by (simp add: unsigned_of_nat take_bit_nat_eq_self)
  have "unat (j_bytes file_ops j') = fj_bytes j + 33 + length p" "unat (j_bytes file_ops j) = fj_bytes j"
    unfolding file_bytes b(1) using lt by (intro u; simp)+
  moreover have "file_space j \<le> file_space j' + length p + 40" by (simp add: file_space_def b)
  moreover have "file_usable j'" using ok w(2) by (simp add: file_usable_def) (simp add: j'_def)
  ultimately show "\<exists>j'. j_append file_ops n k c p j = (success, j') \<and> file_usable j' \<and> file_space j \<le> file_space j' + length p + 40 \<and>
      unat (j_bytes file_ops j') \<le> unat (j_bytes file_ops j) + length p + 40 \<and> file_rest j' = file_rest j"
    using w(1) rs by (intro exI [of _ j']) (simp add: j'_def [symmetric], simp add: file_ops_def)
qed

subsection \<open>The engine on a file journal\<close>

text \<open>C16: on a healthy device every decision is acknowledged. When the journal file is usable, has room for an
  intent and an attempt and no snapshot is due, an admitted request whose decision is to apply comes back
  applied, and one that is decided to be refused comes back decided with that refusal; both are in the journal
  file.\<close>

theorem healthy_disk_acknowledges:
  assumes "e_journal e = Some j" "file_usable j" "10000 \<le> file_space j"
    "unat (e_journal_records e + 2) < journal_records_per_snapshot (e_limits e)"
    "fj_bytes j + 10000 < unat (max_journal_bytes (e_limits e))"
    "apply_request file_ops q e = (out, e')" "admitted e q a"
  shows "(\<forall>b. decide e q a = DecApply b \<longrightarrow> out_applied out) \<and>
         (\<forall>r i b. decide e q a = DecRefusal r i b \<longrightarrow> out_decided out \<and> out_status out = refused r i)"
proof -
  have "unat (max_journal_bytes (e_limits e)) < 2 ^ 64" using unsigned_less [of "max_journal_bytes (e_limits e)"] by simp
  then have "unat (j_bytes file_ops j) = fj_bytes j"
    using assms(5) unfolding file_bytes by (simp add: unsigned_of_nat take_bit_nat_eq_self)
  then have "disk_space.has_room e" using assms(1-5) by (auto simp: disk_space.has_room_def)
  from disk_space.room_acknowledges [OF this assms(6,7)] show ?thesis by blast
qed

text \<open>A device with an empty journal, and engines on it.\<close>

definition demo_file :: FileJournal where
  "demo_file = (reopened demo_journal)\<lparr>fj_open := True, fj_stream := True, fj_write_offset := 12, fj_bytes := 12\<rparr>"

definition demo_disk_engine :: "FileJournal engine" where
  "demo_disk_engine = (make_engine default_limits (Some demo_file) demo_operator demo_nonce)
     \<lparr>e_accounts := fmupd 2 demo_account fmempty, e_next_sequence := 1, e_recovered := True\<rparr>"

lemma demo_file_facts:
  "file_usable demo_file" "file_space demo_file = 1048576" "fj_bytes demo_file = 12" "file_log demo_file = []"
  "fmlookup (fw_files (fj_world demo_file)) (fj_snapshot_path demo_file) = None" "file_snap demo_file = None"
  "fo_truncate_torn_tail (fj_options demo_file)"
  by (simp_all add: file_usable_def file_ready_def placed_def calm_def demo_file_def reopened_def demo_journal_def demo_disk_def
      make_file_journal_def default_file_options_def fj_content_def fw_content_def fj_limit_def kHeaderBytes_def file_space_def
      file_log_def file_snap_def)

lemma demo_disk_running: "demo_running demo_disk_engine" "e_journal demo_disk_engine = Some demo_file"
  "e_journal_records demo_disk_engine = 0" "e_limits demo_disk_engine = default_limits"
  by (simp_all add: demo_running_def demo_disk_engine_def make_engine_def default_limits_clamped)

theorem healthy_disk_acknowledges_witness:
  "out_applied (fst (apply_request file_ops (demo_request Issue 2 10) demo_disk_engine))"
proof -
  let ?q = "demo_request Issue 2 10"
  obtain out e' where c: "apply_request file_ops ?q demo_disk_engine = (out, e')" by fastforce
  have adm: "admitted demo_disk_engine ?q demo_account" by (rule demo_running_admits [OF demo_disk_running(1)]) simp_all
  obtain b where "decide demo_disk_engine ?q demo_account = DecApply b" using demo_running_issues [OF demo_disk_running(1)] by blast
  with healthy_disk_acknowledges [OF demo_disk_running(2) demo_file_facts(1) _ _ _ c adm] c show ?thesis
    by (simp add: demo_file_facts demo_disk_running) (simp add: default_limits_def)
qed

text \<open>C5: no acknowledgement before the file. With a journal file, under any schedule of device faults, a call
  that returns a decision of its own leaves a journal file whose readable log is the log of before with the
  intent and the attempt record carrying that very outcome behind it, or a snapshot file of the accounts with the
  decision made, chained to that record.\<close>

theorem acknowledged_decisions_are_on_disk:
  assumes "apply_request file_ops q e = (out, e')" "out_decided out" "\<not> out_duplicate out"
    "reason (out_status out) \<noteq> AttemptConflict" "e_journal e = Some j" "file_ready j"
  shows "\<exists>j' b t. e_journal e' = Some j' \<and> file_ready j' \<and> account_digest b = out_state_digest out \<and>
           t = durable_attempt q out (Some b) (req_op q = Open) (e_stats e) \<and>
           (file_log j' = file_log j @ [intent_record e q, attempt_record e t] \<and> file_snap j' = file_snap j \<or>
            (\<exists>f :: FileJournal engine. e_accounts f = fmupd (request_key q) b (e_accounts e) \<and>
               file_snap j' = Some (e_next_sequence e + 2, lr_chain (attempt_record e t),
                 encode_durable_state_body (snapshot_state f))))"
  using disk.acknowledged_durable [OF assms] .

lemma recover_from_disk:
  assumes "e_accounts e0 = fmempty" "e_chain e0 = zero_digest" "clamp_limits (e_limits e0) = e_limits e0"
    "max_note_bytes (e_limits e0) \<le> 4096" "e_journal e0 = Some j0" "file_ready j0" "file_log j0 = []"
    "engine_run file_ops e0 calls e" "list_all clean_call calls" "\<not> e_journal_failed e" "e_journal e = Some j"
    "fmlookup (fw_files (fj_world j)) (fj_snapshot_path j) = None" "fo_truncate_torn_tail (fj_options j)"
    "e_journal n = Some (reopened j)" "e_limits n = e_limits e0" "length (file_log j) < fuel"
  shows "\<exists>n'. recover file_ops fuel n = Some (success, n') \<and> e_recovered n' \<and> e_chain n' = e_chain e \<and>
           e_accounts n' = fmmap (\<lambda>a. demote_all (a\<lparr>as_refusals := [], as_refusal_cursor := 0, as_ambiguous := []\<rparr>))
             (e_accounts e)"
proof -
  have inv: "engine_inv e0" using assms(1,3) by (simp add: engine_inv_def fcard_fempty)
  have m: "disk.journaled e0" "disk.durable_log e0 = []" using assms(5-7) by (simp_all add: disk.journaled_def disk.durable_log_def)
  have rd: "file_ready j" using disk.run_journaled [OF assms(8) inv m(1) assms(9,10)] assms(11) by (simp add: disk.journaled_def)
  have sn: "file_snap j = None" using assms(12) by (simp add: file_snap_def content_none)
  have rc: "recoverable j" using rd assms(12,13) by (simp add: recoverable_def file_ready_def snapshot_readable_def)
  have pl: "placed j" using rd by (simp add: file_ready_def)
  note o = reopened_same(4,5) [OF pl]
  have d: "disk.durable_snap e = None" "file_log (reopened j) = disk.durable_log e" "file_snap (reopened j) = None"
    "length (file_log (reopened j)) < fuel"
    using assms(11,16) sn o by (simp_all add: disk.durable_snap_def disk.durable_log_def)
  show ?thesis
    using disk.recover_run [OF assms(1-4) m assms(8-10) d(1) assms(14,15) reopened_sane [OF rc] d(2-4)] .
qed

text \<open>C6: recovery from disk rebuilds the accounts. Take a fresh engine on an empty journal file and any run of
  requests in which the journal did not fail and no snapshot was taken (and no call left unjournaled changes,
  see \<open>clean_call\<close>), under any schedule of device faults. After the process is gone, a new engine on a new
  journal object over the same files, on a device that can be read, recovers successfully, and holds exactly the
  accounts of the old one except that the refusal log is empty and every reconciled incarnation is demoted.\<close>

theorem disk_recovery_rebuilds_the_accounts:
  assumes "e_accounts e0 = fmempty" "e_chain e0 = zero_digest" "clamp_limits (e_limits e0) = e_limits e0"
    "max_note_bytes (e_limits e0) \<le> 4096" "e_journal e0 = Some j0" "file_ready j0" "file_log j0 = []"
    "engine_run file_ops e0 calls e" "list_all clean_call calls" "\<not> e_journal_failed e" "e_journal e = Some j"
    "fmlookup (fw_files (fj_world j)) (fj_snapshot_path j) = None" "fo_truncate_torn_tail (fj_options j)"
    "e_journal n = Some (reopened j)" "e_limits n = e_limits e0" "length (file_log j) < fuel"
  shows "\<exists>n'. recover file_ops fuel n = Some (success, n') \<and> e_recovered n' \<and> e_chain n' = e_chain e \<and>
           e_accounts n' = fmmap (\<lambda>a. demote_all (a\<lparr>as_refusals := [], as_refusal_cursor := 0, as_ambiguous := []\<rparr>))
             (e_accounts e)"
  by (rule recover_from_disk [OF assms])

theorem disk_recovery_rebuilds_the_accounts_witness:
  "\<exists>out e j n'. apply_request file_ops (demo_request Open 1 0) (demo_start demo_file) = (out, e) \<and>
     out_applied out \<and> e_journal e = Some j \<and> fmlookup (e_accounts e) 2 \<noteq> None \<and>
     recover file_ops (Suc (length (file_log j))) (demo_start (reopened j)) = Some (success, n') \<and>
     e_accounts n' = fmmap (\<lambda>a. demote_all (a\<lparr>as_refusals := [], as_refusal_cursor := 0, as_ambiguous := []\<rparr>)) (e_accounts e)"
proof -
  have u: "unat (j_bytes file_ops demo_file) = 12" by (simp add: file_bytes demo_file_facts)
  obtain out e j where c: "apply_request file_ops (demo_request Open 1 0) (demo_start demo_file) = (out, e)" "out_applied out"
    "\<not> e_journal_failed e" "e_journal e = Some j" "file_rest j = file_rest demo_file" "fmlookup (e_accounts e) 2 \<noteq> None"
    by (rule disk_space.demo_open_call [of demo_file]) (simp_all add: u demo_file_facts)
  have run: "engine_run file_ops (demo_start demo_file) [CallApply (demo_request Open 1 0) out] e"
    using run_step [OF run_start step_apply [OF c(1)]] by simp
  have rest: "fmlookup (fw_files (fj_world j)) (fj_snapshot_path j) = None" "fo_truncate_torn_tail (fj_options j)"
    using c(5) demo_file_facts(5,7) by (auto simp: file_rest_def)
  have rd: "file_ready demo_file" using demo_file_facts(1) by (simp add: file_usable_def)
  have "max_note_bytes default_limits \<le> 4096" by (simp add: default_limits_def)
  with disk_recovery_rebuilds_the_accounts [of "demo_start demo_file", OF _ _ _ _ _ rd demo_file_facts(4) run _ c(3,4) rest,
      of "demo_start (reopened j)" "Suc (length (file_log j))"]
  obtain n' where "recover file_ops (Suc (length (file_log j))) (demo_start (reopened j)) = Some (success, n')"
    "e_accounts n' = fmmap (\<lambda>a. demote_all (a\<lparr>as_refusals := [], as_refusal_cursor := 0, as_ambiguous := []\<rparr>)) (e_accounts e)"
    by (auto simp: default_limits_clamped)
  with c show ?thesis by blast
qed

theorem acknowledged_decisions_are_on_disk_witness:
  "\<exists>j'. e_journal (snd (apply_request file_ops (demo_request Issue 2 10) demo_disk_engine)) = Some j' \<and> file_ready j' \<and>
      (file_snap j' = None \<longrightarrow> length (file_log j') = 2)"
proof -
  let ?q = "demo_request Issue 2 10"
  obtain out e' where c: "apply_request file_ops ?q demo_disk_engine = (out, e')" by fastforce
  have room: "disk_space.has_room demo_disk_engine"
    by (simp add: disk_space.has_room_def demo_disk_running file_bytes demo_file_facts) (simp add: default_limits_def)
  have adm: "admitted demo_disk_engine ?q demo_account" by (rule demo_running_admits [OF demo_disk_running(1)]) simp_all
  obtain b where "decide demo_disk_engine ?q demo_account = DecApply b" using demo_running_issues [OF demo_disk_running(1)] by blast
  then have ap: "out_applied out" by (rule disk_space.room_acknowledges(1) [OF room c adm])
  from c have d: "out_decided out \<and> \<not> out_duplicate out \<and> out_status out = success"
  proof (cases rule: apply_cases)
  qed (use ap in simp_all)
  have rd: "file_ready demo_file" using demo_file_facts(1) by (simp add: file_usable_def)
  show ?thesis
    using acknowledged_decisions_are_on_disk [OF c _ _ _ demo_disk_running(2) rd] d c demo_file_facts(4) by auto
qed

end
