(* ===== verification/Transport.thy ===== *)
theory Transport
  imports Wire
begin

text \<open>
  The loopback transport (\<open>include/creditfabric/transport.hpp\<close>, \<open>src/transport.cpp\<close>, POSIX branches) over a
  model of the socket calls it makes. A connection holds the bytes the peer has sent and not yet been read, whether
  the peer ends the stream behind them, the bytes sent, the schedule of events that answers the calls and the
  stop flag as a function of time. Loops that may wait forever are partial functions: a wait that never ends is
  \<open>None\<close>.
\<close>

subsection \<open>The operating system's side of a connection\<close>

text \<open>One event answers each call: \<open>NetReady k\<close> is a call that completes (a transfer of at most \<open>Suc k\<close>
  bytes, or the value \<open>k\<close>), \<open>NetExpired\<close> a wait that ran out, \<open>NetAgain\<close> the error \<open>would_block\<close> accepts,
  \<open>NetFailed\<close> any other.\<close>

datatype net_event = NetReady nat | NetExpired | NetAgain | NetFailed

record net =
  nt_in :: bytes
  nt_eof :: bool
  nt_out :: bytes
  nt_shut :: bool
  nt_event :: "nat \<Rightarrow> net_event"
  nt_stop :: "nat \<Rightarrow> bool"
  nt_clock :: nat

definition net_call :: "net \<Rightarrow> net_event \<times> net" where
  "net_call w = (nt_event w (nt_clock w), w\<lparr>nt_clock := Suc (nt_clock w)\<rparr>)"

text \<open>The stop flag, as the loop finds it when it looks.\<close>

definition net_stopping :: "net \<Rightarrow> bool" where
  "net_stopping w = nt_stop w (nt_clock w)"

datatype transfer = Moved bytes | Blocked | Broken

text \<open>\<open>recv\<close> returns no bytes only at the end of the stream; \<open>send\<close> may accept none.\<close>

definition net_recv :: "nat \<Rightarrow> net \<Rightarrow> transfer \<times> net" where
  "net_recv n w =
     (case net_call w of
        (NetReady k, w1) \<Rightarrow>
          if nt_in w1 = [] then (if nt_eof w1 then Moved [] else Blocked, w1)
          else let m = min n (Suc k) in (Moved (take m (nt_in w1)), w1\<lparr>nt_in := drop m (nt_in w1)\<rparr>)
      | (NetFailed, w1) \<Rightarrow> (Broken, w1)
      | (_, w1) \<Rightarrow> (Blocked, w1))"

definition net_send :: "bytes \<Rightarrow> net \<Rightarrow> transfer \<times> net" where
  "net_send bs w =
     (case net_call w of
        (NetReady k, w1) \<Rightarrow>
          let out = take (Suc k) bs in (Moved out, w1\<lparr>nt_out := nt_out w1 @ out\<rparr>)
      | (NetExpired, w1) \<Rightarrow> (Moved [], w1)
      | (NetAgain, w1) \<Rightarrow> (Blocked, w1)
      | (NetFailed, w1) \<Rightarrow> (Broken, w1))"

subsection \<open>transport.cpp\<close>

partial_function (option) wait_ready :: "net \<Rightarrow> (int \<times> net) option" where
  "wait_ready w =
     (case net_call w of
        (e, w1) \<Rightarrow>
          (case e of
             NetReady _ \<Rightarrow> Some (1, w1)
           | NetExpired \<Rightarrow> Some (0, w1)
           | NetAgain \<Rightarrow> wait_ready w1
           | NetFailed \<Rightarrow> Some (-1, w1)))"

text \<open>One turn of the loop of \<open>read_exact\<close>: \<open>got\<close> holds the bytes read so far, \<open>offset\<close> many. It ends the
  loop with the status, the bytes read and \<open>closed\<close>, or goes round again.\<close>

definition read_turn ::
  "bool \<Rightarrow> nat \<Rightarrow> bytes \<Rightarrow> net \<Rightarrow> ((Status \<times> bytes \<times> bool \<times> net) + (bytes \<times> net)) option" where
  "read_turn polled count got w =
     (if length got \<ge> count then Some (Inl (success, got, False, w))
      else if polled \<and> net_stopping w then Some (Inl (refused ShutdownInProgress (of_nat (length got)), got, False, w))
      else Option.bind (wait_ready w) (\<lambda>(ready, w1).
        if ready = 0 then Some (Inr (got, w1))
        else if ready < 0 then Some (Inl (refused TransportError 1, got, False, w1))
        else case net_recv (count - length got) w1 of
          (received, w2) \<Rightarrow>
            (case received of
               Blocked \<Rightarrow> Some (Inr (got, w2))
             | Broken \<Rightarrow> Some (Inl (refused TransportError 1, got, False, w2))
             | Moved bs \<Rightarrow>
                 if bs = []
                 then Some (Inl (if got = [] then success else refused TruncatedInput (of_nat (length got)), got, got = [], w2))
                 else Some (Inr (got @ bs, w2)))))"

partial_function (option) read_exact ::
  "bool \<Rightarrow> nat \<Rightarrow> bytes \<Rightarrow> net \<Rightarrow> (Status \<times> bytes \<times> bool \<times> net) option" where
  "read_exact polled count got w =
     Option.bind (read_turn polled count got w) (\<lambda>turn.
       case turn of Inl result \<Rightarrow> Some result | Inr (got', w') \<Rightarrow> read_exact polled count got' w')"

definition write_turn :: "bool \<Rightarrow> bytes \<Rightarrow> nat \<Rightarrow> net \<Rightarrow> ((Status \<times> net) + (nat \<times> net)) option" where
  "write_turn polled source offset w =
     (if offset \<ge> length source then Some (Inl (success, w))
      else if polled \<and> net_stopping w then Some (Inl (refused ShutdownInProgress (of_nat offset), w))
      else Option.bind (wait_ready w) (\<lambda>(ready, w1).
        if ready = 0 then Some (Inr (offset, w1))
        else if ready < 0 then Some (Inl (refused TransportError 2, w1))
        else case net_send (drop offset source) w1 of
          (sent, w2) \<Rightarrow>
            (case sent of
               Blocked \<Rightarrow> Some (Inr (offset, w2))
             | Broken \<Rightarrow> Some (Inl (refused TransportError 2, w2))
             | Moved bs \<Rightarrow>
                 if bs = [] then Some (Inl (refused TransportError 2, w2))
                 else Some (Inr (offset + length bs, w2)))))"

partial_function (option) write_all :: "bool \<Rightarrow> bytes \<Rightarrow> nat \<Rightarrow> net \<Rightarrow> (Status \<times> net) option" where
  "write_all polled source offset w =
     Option.bind (write_turn polled source offset w) (\<lambda>turn.
       case turn of Inl result \<Rightarrow> Some result | Inr (offset', w') \<Rightarrow> write_all polled source offset' w')"

record Socket =
  sk_valid :: bool
  sk_net :: net

definition closed_socket :: "net \<Rightarrow> Socket" where
  "closed_socket w = \<lparr>sk_valid = False, sk_net = w\<rparr>"

definition socket_close :: "Socket \<Rightarrow> Status \<times> Socket" where
  "socket_close s =
     (success, if sk_valid s then s\<lparr>sk_valid := False, sk_net := (sk_net s)\<lparr>nt_shut := True\<rparr>\<rparr> else s)"

definition shutdown_send :: "Socket \<Rightarrow> Status \<times> Socket" where
  "shutdown_send s = (success, if sk_valid s then s\<lparr>sk_net := (sk_net s)\<lparr>nt_shut := True\<rparr>\<rparr> else s)"

definition send_all :: "bool \<Rightarrow> bytes \<Rightarrow> Socket \<Rightarrow> (Status \<times> Socket) option" where
  "send_all polled bs s =
     (if \<not> sk_valid s then Some (refused InvalidState 1, s)
      else Option.bind (write_all polled bs 0 (sk_net s)) (\<lambda>(st, w). Some (st, s\<lparr>sk_net := w\<rparr>)))"

definition recv_all :: "bool \<Rightarrow> nat \<Rightarrow> Socket \<Rightarrow> (Status \<times> bytes \<times> bool \<times> Socket) option" where
  "recv_all polled count s =
     (if \<not> sk_valid s then Some (refused InvalidState 2, [], False, s)
      else Option.bind (read_exact polled count [] (sk_net s)) (\<lambda>(st, got, closed, w). Some (st, got, closed, s\<lparr>sk_net := w\<rparr>)))"

definition send_frame :: "bool \<Rightarrow> MessageType \<Rightarrow> bytes \<Rightarrow> Socket \<Rightarrow> (Status \<times> Socket) option" where
  "send_frame polled type payload s =
     (case encode_frame type payload of Inl st \<Rightarrow> Some (st, s) | Inr frame \<Rightarrow> send_all polled frame s)"

text \<open>The checks on the twelve header bytes, before the rest of the frame is read.\<close>

definition check_frame_header :: "nat \<Rightarrow> bytes \<Rightarrow> Status + nat" where
  "check_frame_header max_payload frame =
     (if read_u32 frame \<noteq> kWireMagic then Inl (refused MalformedMessage 1)
      else if frame ! 4 \<noteq> ucast kFormatVersion then Inl (refused UnsupportedVersion (ucast (frame ! 4)))
      else if ((ucast (frame ! 6) OR push_bit 8 (ucast (frame ! 7))) :: u16) \<noteq> 0 then Inl (refused MalformedMessage 2)
      else
        let n = unat (read_u32 (drop 8 frame)) in
        if n > max_payload then Inl (refused OversizedFrame (of_nat n)) else Inr n)"

text \<open>The out-parameters \<open>type\<close> and \<open>payload\<close> are written only with a whole frame: \<open>None\<close> stands for the
  caller's type and an empty payload.\<close>

definition recv_frame ::
  "bool \<Rightarrow> nat \<Rightarrow> Socket \<Rightarrow> (Status \<times> (MessageType \<times> bytes) option \<times> bool \<times> Socket) option" where
  "recv_frame polled max_payload s =
     (if \<not> sk_valid s then Some (refused InvalidState 3, None, False, s)
      else Option.bind (read_exact polled kFrameHeaderBytes [] (sk_net s)) (\<lambda>(st, header, peer_closed, w1).
        let s1 = s\<lparr>sk_net := w1\<rparr> in
        if \<not> status_ok st then Some (st, None, False, s1)
        else if peer_closed then Some (success, None, True, s1)
        else case check_frame_header max_payload header of
          Inl bad \<Rightarrow> Some (bad, None, False, s1)
        | Inr n \<Rightarrow>
            Option.bind (read_exact polled (n + kFrameTrailerBytes) [] w1) (\<lambda>(st2, rest, peer_closed2, w2).
              let s2 = s\<lparr>sk_net := w2\<rparr> in
              if \<not> status_ok st2 then Some (st2, None, False, s2)
              else if peer_closed2 then Some (success, None, True, s2)
              else case decode_frame (header @ rest) max_payload of
                Inl bad \<Rightarrow> Some (bad, None, False, s2)
              | Inr view \<Rightarrow> Some (success, Some (fv_type view, fv_payload view), False, s2))))"

definition peer_description :: "Socket \<Rightarrow> string" where
  "peer_description s = (if sk_valid s then ''loopback'' else ''closed'')"


subsection \<open>Connecting and listening\<close>

definition net_ok :: "net \<Rightarrow> bool \<times> net" where
  "net_ok w = (case net_call w of (e, w1) \<Rightarrow> (case e of NetReady _ \<Rightarrow> True | _ \<Rightarrow> False, w1))"

text \<open>\<open>socket\<close>, \<open>inet_pton\<close> and \<open>connect\<close>, in this order.\<close>

definition connect_to :: "net \<Rightarrow> Status \<times> Socket" where
  "connect_to w =
     (case net_ok w of
        (made, w1) \<Rightarrow>
          if \<not> made then (refused TransportError 20, closed_socket w1)
          else case net_ok w1 of
            (parsed, w2) \<Rightarrow>
              if \<not> parsed then (refused TransportError 21, closed_socket w2)
              else case net_ok w2 of
                (joined, w3) \<Rightarrow>
                  if \<not> joined then (refused TransportError 22, closed_socket w3)
                  else (success, \<lparr>sk_valid = True, sk_net = w3\<rparr>))"

record Listener =
  ls_valid :: bool
  ls_port :: u16
  ls_net :: net

text \<open>\<open>socket\<close>, \<open>setsockopt\<close> (result ignored), \<open>inet_pton\<close>, \<open>bind\<close>, \<open>listen\<close> and \<open>getsockname\<close>, whose value is
  the bound port.\<close>

definition bind_loopback :: "Listener \<Rightarrow> Status \<times> Listener" where
  "bind_loopback l =
     (if ls_valid l then (refused InvalidState 4, l)
      else case net_ok (ls_net l) of
        (made, w1) \<Rightarrow>
          if \<not> made then (refused TransportError 10, l\<lparr>ls_net := w1\<rparr>)
          else case net_ok (snd (net_ok w1)) of
            (parsed, w2) \<Rightarrow>
              if \<not> parsed then (refused TransportError 11, l\<lparr>ls_net := w2\<rparr>)
              else case net_ok w2 of
                (bound, w3) \<Rightarrow>
                  if \<not> bound then (refused TransportError 12, l\<lparr>ls_net := w3\<rparr>)
                  else case net_ok w3 of
                    (listening, w4) \<Rightarrow>
                      if \<not> listening then (refused TransportError 13, l\<lparr>ls_net := w4\<rparr>)
                      else case net_call w4 of
                        (e, w5) \<Rightarrow>
                          (case e of
                             NetReady k \<Rightarrow> (success, l\<lparr>ls_valid := True, ls_port := of_nat k, ls_net := w5\<rparr>)
                           | _ \<Rightarrow> (refused TransportError 14, l\<lparr>ls_net := w5\<rparr>)))"

text \<open>The loop of \<open>accept\<close>; the new connection is a parameter of the model, supplied by the caller. The result
  is the status and \<open>closed\<close>; with success and not closed a connection was accepted.\<close>

partial_function (option) listener_accept :: "net \<Rightarrow> (Status \<times> bool \<times> net) option" where
  "listener_accept w =
     (if net_stopping w then Some (success, True, w)
      else case net_call w of
        (e, w1) \<Rightarrow>
          (case e of
             NetFailed \<Rightarrow> Some (refused TransportError 15, False, w1)
           | NetAgain \<Rightarrow> listener_accept w1
           | NetExpired \<Rightarrow> listener_accept w1
           | NetReady _ \<Rightarrow>
               (case net_call w1 of
                  (e2, w2) \<Rightarrow>
                    (case e2 of
                       NetReady _ \<Rightarrow> Some (success, False, w2)
                     | NetAgain \<Rightarrow> listener_accept w2
                     | _ \<Rightarrow> Some (refused TransportError 16, False, w2)))))"

definition accept_call :: "Listener \<Rightarrow> (Status \<times> bool \<times> Listener) option" where
  "accept_call l =
     (if \<not> ls_valid l then Some (refused InvalidState 5, False, l)
      else Option.bind (listener_accept (ls_net l)) (\<lambda>(st, closed, w). Some (st, closed, l\<lparr>ls_net := w\<rparr>)))"

definition stop_accepting :: "Listener \<Rightarrow> Listener" where
  "stop_accepting l = l\<lparr>ls_net := (ls_net l)\<lparr>nt_stop := \<lambda>n. nt_clock (ls_net l) \<le> n \<or> nt_stop (ls_net l) n\<rparr>\<rparr>"

definition listener_close :: "Listener \<Rightarrow> Status \<times> Listener" where
  "listener_close l = (success, l\<lparr>ls_valid := False\<rparr>)"

subsection \<open>What a connection does to the streams\<close>

text \<open>Calls move bytes from the input or to the output and advance the clock, nothing else.\<close>

definition net_after :: "net \<Rightarrow> net \<Rightarrow> bytes \<Rightarrow> bytes \<Rightarrow> bool" where
  "net_after w w' bs out \<longleftrightarrow> nt_in w = bs @ nt_in w' \<and> nt_out w' = nt_out w @ out \<and> nt_eof w' = nt_eof w \<and> nt_shut w' = nt_shut w \<and>
     nt_event w' = nt_event w \<and> nt_stop w' = nt_stop w \<and> nt_clock w \<le> nt_clock w'"

lemma net_after_refl [simp]: "net_after w w [] []"
  by (simp add: net_after_def)

lemma net_after_trans: "net_after u v a x \<Longrightarrow> net_after v w b y \<Longrightarrow> net_after u w (a @ b) (x @ y)"
  by (simp add: net_after_def)

lemma net_call_after: "net_call w = (e, w') \<Longrightarrow> net_after w w' [] [] \<and> nt_clock w < nt_clock w'"
  by (auto simp: net_call_def net_after_def)

lemma wait_ready_after:
  assumes "wait_ready w = Some y"
  shows "net_after w (snd y) [] [] \<and> nt_clock w < nt_clock (snd y)"
proof (rule wait_ready.raw_induct [OF _ assms])
  fix f w y
  assume ih: "\<And>w y. f w = Some y \<Longrightarrow> net_after w (snd y) [] [] \<and> nt_clock w < nt_clock (snd y)"
    and eq: "(case net_call w of (e, w1) \<Rightarrow> case e of NetReady _ \<Rightarrow> Some (1, w1) | NetExpired \<Rightarrow> Some (0, w1)
      | NetAgain \<Rightarrow> f w1 | NetFailed \<Rightarrow> Some (-1, w1)) = Some y"
  obtain e w1 where c: "net_call w = (e, w1)" by fastforce
  note a = net_call_after [OF c]
  show "net_after w (snd y) [] [] \<and> nt_clock w < nt_clock (snd y)"
  proof (cases e)
    case NetAgain
    then have "net_after w1 (snd y) [] [] \<and> nt_clock w1 < nt_clock (snd y)" using ih eq c by simp
    then show ?thesis using a net_after_trans [of w w1 "[]" "[]" "snd y" "[]" "[]"] by simp
  qed (use eq c a in auto)
qed

lemma net_recv_after:
  assumes "net_recv n w = (t, w')"
  shows "\<exists>bs. net_after w w' bs [] \<and> nt_clock w < nt_clock w' \<and> length bs \<le> n \<and> (t \<noteq> Moved bs \<longrightarrow> bs = [] \<and> t \<in> {Blocked, Broken}) \<and>
           (t = Moved [] \<and> 0 < n \<longrightarrow> nt_in w' = [] \<and> nt_eof w')"
proof -
  obtain e w1 where c: "net_call w = (e, w1)" by fastforce
  note a = net_call_after [OF c]
  show ?thesis
  proof (cases e)
    case (NetReady k)
    show ?thesis
    proof (cases "nt_in w1 = []")
      case True
      then show ?thesis using assms c NetReady a by (intro exI [of _ "[]"]) (auto simp: net_recv_def split: if_splits)
    next
      case False
      let ?m = "min n (Suc k)"
      have t: "t = Moved (take ?m (nt_in w1))" "w' = w1\<lparr>nt_in := drop ?m (nt_in w1)\<rparr>"
        using assms c NetReady False by (auto simp: net_recv_def Let_def)
      then show ?thesis
        using a False by (intro exI [of _ "take ?m (nt_in w1)"]) (auto simp: net_after_def)
    qed
  qed (use assms c a in \<open>auto simp: net_recv_def intro!: exI [of _ "[]"]\<close>)
qed

text \<open>How a read can end: with all the bytes, with the end of the stream before the first or a later byte,
  told to stop, or with a broken connection.\<close>

definition read_ends :: "nat \<Rightarrow> net \<Rightarrow> Status \<Rightarrow> bytes \<Rightarrow> bool \<Rightarrow> bool" where
  "read_ends count w st got closed \<longleftrightarrow>
     st = success \<and> \<not> closed \<and> length got = count \<or>
     st = success \<and> closed \<and> got = [] \<and> 0 < count \<and> nt_in w = [] \<and> nt_eof w \<or>
     st = refused TruncatedInput (of_nat (length got)) \<and> \<not> closed \<and> got \<noteq> [] \<and> length got < count \<and> nt_in w = [] \<and> nt_eof w \<or>
     st = refused ShutdownInProgress (of_nat (length got)) \<and> \<not> closed \<and> length got < count \<or>
     st = refused TransportError 1 \<and> \<not> closed \<and> length got < count"

lemma read_turn_ends:
  assumes "read_turn polled count got w = Some (Inl (st, got', closed, w'))" "length got \<le> count"
  shows "got' = got \<and> net_after w w' [] [] \<and> read_ends count w' st got closed"
proof (cases "count \<le> length got \<or> polled \<and> net_stopping w")
  case True
  then show ?thesis using assms by (auto simp: read_turn_def read_ends_def split: if_splits)
next
  case False
  then obtain ready w1 where wr: "wait_ready w = Some (ready, w1)" "ready \<noteq> 0"
    using assms(1) by (cases "wait_ready w") (auto simp: read_turn_def split: if_splits)
  note a1 = wait_ready_after [OF wr(1), simplified, THEN conjunct1]
  obtain t w2 where rc: "net_recv (count - length got) w1 = (t, w2)" by fastforce
  obtain bs where bs: "net_after w1 w2 bs []" "t \<noteq> Moved bs \<longrightarrow> bs = [] \<and> t \<in> {Blocked, Broken}"
    "t = Moved [] \<and> 0 < count - length got \<longrightarrow> nt_in w2 = [] \<and> nt_eof w2"
    using net_recv_after [OF rc] by blast
  note a2 = net_after_trans [OF a1 bs(1), simplified]
  show ?thesis
  proof (cases "ready < 0")
    case True
    then show ?thesis using assms wr False a1 by (auto simp: read_turn_def read_ends_def)
  next
    case pos: False
    have "bs = []" "t = Moved [] \<or> t = Broken"
      using assms(1) wr False pos rc bs(2) by (auto simp: read_turn_def split: transfer.splits if_splits)
    then show ?thesis
      using assms wr False pos rc a2 bs(3) by (auto simp: read_turn_def read_ends_def split: if_splits)
  qed
qed

lemma read_turn_again:
  assumes "read_turn polled count got w = Some (Inr (got', w'))"
  shows "\<exists>bs. got' = got @ bs \<and> net_after w w' bs [] \<and> nt_clock w < nt_clock w' \<and> length got' \<le> count \<and> length got < count \<and>
           \<not> (polled \<and> net_stopping w)"
proof -
  have b: "\<not> count \<le> length got" "\<not> (polled \<and> net_stopping w)" using assms by (auto simp: read_turn_def split: if_splits)
  then obtain ready w1 where wr: "wait_ready w = Some (ready, w1)" "\<not> ready < 0"
    using assms by (cases "wait_ready w") (auto simp: read_turn_def split: if_splits)
  note a1 = wait_ready_after [OF wr(1), simplified]
  obtain t w2 where rc: "net_recv (count - length got) w1 = (t, w2)" by fastforce
  obtain bs where bs: "net_after w1 w2 bs []" "length bs \<le> count - length got" "t \<noteq> Moved bs \<longrightarrow> bs = [] \<and> t \<in> {Blocked, Broken}"
    "nt_clock w1 < nt_clock w2"
    using net_recv_after [OF rc] by blast
  note a2 = net_after_trans [OF a1 [THEN conjunct1] bs(1), simplified]
  show ?thesis
  proof (cases "ready = 0")
    case True
    then show ?thesis using assms wr b a1 by (auto simp: read_turn_def)
  next
    case pos: False
    have "got' = got @ bs" "w' = w2"
      using assms wr b pos rc bs(3) by (auto simp: read_turn_def split: transfer.splits if_splits)
    then show ?thesis using a1 a2 b bs(2,4) by auto
  qed
qed

lemma read_exact_spec:
  assumes "read_exact polled count got w = Some y" "length got \<le> count"
  shows "case y of (st, got', closed, w') \<Rightarrow> \<exists>bs. got' = got @ bs \<and> net_after w w' bs [] \<and> read_ends count w' st got' closed"
proof -
  let ?P = "\<lambda>polled count got w y. length got \<le> count \<longrightarrow>
      (case y of (st, got', closed, w') \<Rightarrow> \<exists>bs. got' = got @ bs \<and> net_after w w' bs [] \<and> read_ends count w' st got' closed)"
  have "?P polled count got w y"
  proof (rule read_exact.raw_induct [where P="?P", OF _ assms(1)])
    fix f polled count got w y
    assume ih: "\<And>polled count got w y. f polled count got w = Some y \<Longrightarrow> ?P polled count got w y"
      and eq: "Option.bind (read_turn polled count got w) (\<lambda>turn.
        case turn of Inl result \<Rightarrow> Some result | Inr (got', w') \<Rightarrow> f polled count got' w') = Some y"
    obtain st got' closed w' where y: "y = (st, got', closed, w')" by (metis prod_cases4)
    from eq obtain turn where turn: "read_turn polled count got w = Some turn" by (cases "read_turn polled count got w") auto
    show "?P polled count got w y"
    proof (cases turn)
      case (Inl r)
      then show ?thesis using eq turn y read_turn_ends [of polled count got w st got' closed w'] by auto
    next
      case (Inr r)
      then obtain got1 w1 where r: "turn = Inr (got1, w1)" by (cases r) auto
      obtain bs where bs: "got1 = got @ bs" "net_after w w1 bs []" "length got1 \<le> count"
        using read_turn_again [OF turn [unfolded r]] by blast
      have "f polled count got1 w1 = Some y" using eq turn r by simp
      from ih [OF this] bs(3) y obtain ds where "got' = got1 @ ds" "net_after w1 w' ds []" "read_ends count w' st got' closed" by auto
      then show ?thesis using net_after_trans [OF bs(2), of w' ds "[]"] y bs(1) by auto
    qed
  qed
  then show ?thesis using assms(2) by blast
qed

lemma net_send_after:
  assumes "net_send bs w = (t, w')"
  shows "\<exists>out. net_after w w' [] out \<and> nt_clock w < nt_clock w' \<and> prefix out bs \<and> (t \<noteq> Moved out \<longrightarrow> out = [] \<and> t \<in> {Blocked, Broken})"
proof -
  obtain e w1 where c: "net_call w = (e, w1)" by fastforce
  note a = net_call_after [OF c]
  show ?thesis
  proof (cases e)
    case (NetReady k)
    have "net_after w (w1\<lparr>nt_out := nt_out w1 @ take (Suc k) bs\<rparr>) [] (take (Suc k) bs)" using a by (simp add: net_after_def)
    then show ?thesis
      using assms c NetReady a by (intro exI [of _ "take (Suc k) bs"]) (auto simp: net_send_def Let_def take_is_prefix)
  qed (use assms c a in \<open>auto simp: net_send_def intro!: exI [of _ "[]"]\<close>)
qed

lemma write_turn_ends:
  assumes "write_turn polled source offset w = Some (Inl (st, w'))"
  shows "net_after w w' [] [] \<and>
           (st = success \<and> length source \<le> offset \<or> reason st \<in> {ShutdownInProgress, TransportError} \<and> offset < length source)"
proof (cases "length source \<le> offset \<or> polled \<and> net_stopping w")
  case True
  then show ?thesis using assms by (auto simp: write_turn_def split: if_splits)
next
  case False
  then obtain ready w1 where wr: "wait_ready w = Some (ready, w1)" "ready \<noteq> 0"
    using assms by (cases "wait_ready w") (auto simp: write_turn_def split: if_splits)
  note a1 = wait_ready_after [OF wr(1), simplified, THEN conjunct1]
  obtain t w2 where sd: "net_send (drop offset source) w1 = (t, w2)" by fastforce
  obtain out where o: "net_after w1 w2 [] out" "t \<noteq> Moved out \<longrightarrow> out = [] \<and> t \<in> {Blocked, Broken}"
    using net_send_after [OF sd] by blast
  note a2 = net_after_trans [OF a1 o(1), simplified]
  show ?thesis
  proof (cases "ready < 0")
    case True
    then show ?thesis using assms wr False a1 by (auto simp: write_turn_def)
  next
    case pos: False
    have "t \<in> {Moved [], Broken}" using assms wr False pos sd by (auto simp: write_turn_def split: transfer.splits if_splits)
    then show ?thesis using assms wr False pos sd a2 o(2) by (auto simp: write_turn_def split: if_splits)
  qed
qed

lemma write_turn_again:
  assumes "write_turn polled source offset w = Some (Inr (offset', w'))"
  shows "\<exists>out. net_after w w' [] out \<and> nt_clock w < nt_clock w' \<and> prefix out (drop offset source) \<and> offset' = offset + length out \<and>
           \<not> (polled \<and> net_stopping w)"
proof -
  have b: "\<not> length source \<le> offset" "\<not> (polled \<and> net_stopping w)" using assms by (auto simp: write_turn_def split: if_splits)
  then obtain ready w1 where wr: "wait_ready w = Some (ready, w1)" "\<not> ready < 0"
    using assms by (cases "wait_ready w") (auto simp: write_turn_def split: if_splits)
  note a1 = wait_ready_after [OF wr(1), simplified]
  obtain t w2 where sd: "net_send (drop offset source) w1 = (t, w2)" by fastforce
  obtain out where o: "net_after w1 w2 [] out" "nt_clock w1 < nt_clock w2" "prefix out (drop offset source)"
    "t \<noteq> Moved out \<longrightarrow> out = [] \<and> t \<in> {Blocked, Broken}"
    using net_send_after [OF sd] by blast
  note a2 = net_after_trans [OF a1 [THEN conjunct1] o(1), simplified]
  show ?thesis
  proof (cases "ready = 0")
    case True
    then show ?thesis using assms wr b a1 by (intro exI [of _ "[]"]) (auto simp: write_turn_def)
  next
    case pos: False
    have "offset' = offset + length out" "w' = w2"
      using assms wr b pos sd o(4) by (auto simp: write_turn_def split: transfer.splits if_splits)
    then show ?thesis using a1 a2 b o(2,3) by auto
  qed
qed

lemma write_all_spec:
  assumes "write_all polled source offset w = Some y" "offset \<le> length source"
  shows "case y of (st, w') \<Rightarrow> \<exists>out. net_after w w' [] out \<and> prefix out (drop offset source) \<and>
           (if status_ok st then out = drop offset source \<and> st = success else reason st \<in> {ShutdownInProgress, TransportError})"
proof -
  let ?P = "\<lambda>polled source offset w y. offset \<le> length source \<longrightarrow>
      (case y of (st, w') \<Rightarrow> \<exists>out. net_after w w' [] out \<and> prefix out (drop offset source) \<and>
        (if status_ok st then out = drop offset source \<and> st = success else reason st \<in> {ShutdownInProgress, TransportError}))"
  have "?P polled source offset w y"
  proof (rule write_all.raw_induct [where P="?P", OF _ assms(1)])
    fix f polled source offset w y
    assume ih: "\<And>polled source offset w y. f polled source offset w = Some y \<Longrightarrow> ?P polled source offset w y"
      and eq: "Option.bind (write_turn polled source offset w) (\<lambda>turn.
        case turn of Inl result \<Rightarrow> Some result | Inr (offset', w') \<Rightarrow> f polled source offset' w') = Some y"
    obtain st w' where y: "y = (st, w')" by fastforce
    from eq obtain turn where turn: "write_turn polled source offset w = Some turn" by (cases "write_turn polled source offset w") auto
    show "?P polled source offset w y"
    proof (cases turn)
      case (Inl r)
      have "net_after w w' [] [] \<and> (st = success \<and> length source \<le> offset \<or> reason st \<in> {ShutdownInProgress, TransportError})"
        using write_turn_ends [of polled source offset w st w'] turn Inl eq y by auto
      then show ?thesis using y by (auto simp: status_ok_def intro!: exI [of _ "[]"])
    next
      case (Inr r)
      then obtain offset1 w1 where r: "turn = Inr (offset1, w1)" by (cases r) auto
      obtain out where o: "net_after w w1 [] out" "prefix out (drop offset source)" "offset1 = offset + length out"
        using write_turn_again [OF turn [unfolded r]] by blast
      have "f polled source offset1 w1 = Some y" using eq turn r by simp
      note rec = ih [OF this]
      have split: "drop offset source = out @ drop offset1 source"
        using o(2,3) by (auto simp: prefix_def) (metis add.commute append_eq_conv_conj drop_drop)
      show ?thesis
      proof
        assume le: "offset \<le> length source"
        have le1: "offset1 \<le> length source" using o(2,3) le prefix_length_le [OF o(2)] by simp
        from rec le1 y obtain more where m: "net_after w1 w' [] more" "prefix more (drop offset1 source)"
          "if status_ok st then more = drop offset1 source \<and> st = success else reason st \<in> {ShutdownInProgress, TransportError}" by auto
        show "case y of (st, w') \<Rightarrow> \<exists>out. net_after w w' [] out \<and> prefix out (drop offset source) \<and>
          (if status_ok st then out = drop offset source \<and> st = success else reason st \<in> {ShutdownInProgress, TransportError})"
          using net_after_trans [OF o(1) m(1)] m(2,3) split y by (auto intro!: exI [of _ "out @ more"])
      qed
    qed
  qed
  then show ?thesis using assms(2) by blast
qed

subsection \<open>The stop flag ends every wait\<close>

definition lively :: "net \<Rightarrow> bool" where
  "lively w \<longleftrightarrow> (\<forall>n. \<exists>m \<ge> n. nt_event w m \<noteq> NetAgain)"

definition stops_by :: "nat \<Rightarrow> net \<Rightarrow> bool" where
  "stops_by N w \<longleftrightarrow> (\<forall>n \<ge> N. nt_stop w n)"

lemma net_after_lively: "net_after w w' bs out \<Longrightarrow> lively w' = lively w \<and> stops_by N w' = stops_by N w"
  by (simp add: net_after_def lively_def stops_by_def)

lemma wait_ready_returns:
  assumes "lively w"
  shows "wait_ready w \<noteq> None"
proof -
  obtain m where m: "nt_clock w \<le> m" "nt_event w m \<noteq> NetAgain" using assms by (auto simp: lively_def)
  then show ?thesis
  proof (induction "m - nt_clock w" arbitrary: w)
    case 0
    then have "nt_event w (nt_clock w) \<noteq> NetAgain" by simp
    then show ?case by (subst wait_ready.simps) (auto simp: net_call_def split: net_event.splits)
  next
    case (Suc d)
    let ?w = "w\<lparr>nt_clock := Suc (nt_clock w)\<rparr>"
    have "wait_ready ?w \<noteq> None" using Suc.hyps(1) [of ?w] Suc.hyps(2) Suc.prems by simp
    then show ?case by (subst wait_ready.simps) (auto simp: net_call_def split: net_event.splits)
  qed
qed

lemma read_turn_returns: "lively w \<Longrightarrow> read_turn polled count got w \<noteq> None"
  using wait_ready_returns [of w] by (auto simp: read_turn_def split: prod.splits transfer.splits)

lemma write_turn_returns: "lively w \<Longrightarrow> write_turn polled source offset w \<noteq> None"
  using wait_ready_returns [of w] by (auto simp: write_turn_def split: prod.splits transfer.splits)

lemma read_exact_returns:
  assumes "lively w" "stops_by N w"
  shows "read_exact True count got w \<noteq> None"
  using assms
proof (induction "N - nt_clock w" arbitrary: w got rule: less_induct)
  case less
  obtain turn where t: "read_turn True count got w = Some turn" using read_turn_returns [OF less.prems(1)] by blast
  show ?case
  proof (cases turn)
    case (Inr r)
    then obtain got1 w1 where r: "turn = Inr (got1, w1)" by (cases r) auto
    obtain bs where bs: "net_after w w1 bs []" "nt_clock w < nt_clock w1" "\<not> net_stopping w"
      using read_turn_again [OF t [unfolded r]] by blast
    have "nt_clock w < N" using bs(3) less.prems(2) by (auto simp: net_stopping_def stops_by_def) (meson not_le)
    then have "read_exact True count got1 w1 \<noteq> None"
      using less.hyps [of w1 got1] bs(2) net_after_lively [OF bs(1)] less.prems by simp
    then show ?thesis by (subst read_exact.simps) (simp add: t r)
  qed (subst read_exact.simps, simp add: t)
qed

lemma write_all_returns:
  assumes "lively w" "stops_by N w"
  shows "write_all True source offset w \<noteq> None"
  using assms
proof (induction "N - nt_clock w" arbitrary: w offset rule: less_induct)
  case less
  obtain turn where t: "write_turn True source offset w = Some turn" using write_turn_returns [OF less.prems(1)] by blast
  show ?case
  proof (cases turn)
    case (Inr r)
    then obtain offset1 w1 where r: "turn = Inr (offset1, w1)" by (cases r) auto
    obtain out where o: "net_after w w1 [] out" "nt_clock w < nt_clock w1" "\<not> net_stopping w"
      using write_turn_again [OF t [unfolded r]] by blast
    have "nt_clock w < N" using o(3) less.prems(2) by (auto simp: net_stopping_def stops_by_def) (meson not_le)
    then have "write_all True source offset1 w1 \<noteq> None"
      using less.hyps [of w1 offset1] o(2) net_after_lively [OF o(1)] less.prems by simp
    then show ?thesis by (subst write_all.simps) (simp add: t r)
  qed (subst write_all.simps, simp add: t)
qed

subsection \<open>Frames on a stream\<close>

lemma read_exact_enough:
  assumes "read_exact polled count [] w = Some (st, got, closed, w')" "count \<le> length (nt_in w)"
  shows "st = success \<and> \<not> closed \<and> got = take count (nt_in w) \<and> nt_in w' = drop count (nt_in w) \<or>
         reason st \<in> {ShutdownInProgress, TransportError} \<and> \<not> closed"
proof -
  have b: "net_after w w' got []" "read_ends count w' st got closed" using read_exact_spec [OF assms(1)] by auto
  have i: "nt_in w = got @ nt_in w'" using b(1) by (simp add: net_after_def)
  show ?thesis using b(2) i assms(2) by (auto simp: read_ends_def)
qed

lemma check_frame_header_bad: "check_frame_header max_payload frame = Inl st \<Longrightarrow> reason st \<in> {MalformedMessage, UnsupportedVersion, OversizedFrame}"
  by (auto simp: check_frame_header_def Let_def split: if_splits)

lemma decode_frame_bad: "decode_frame data max_payload = Inl st \<Longrightarrow> \<not> status_ok st"
  by (auto simp: decode_frame_def Let_def status_ok_def split: if_splits option.splits)

lemma length_write_header [simp]: "length (write_header ty fl n) = 12"
  by (simp add: write_header_def)

lemma header_of_frame:
  assumes "encode_frame ty p = Inr bs" "length p \<le> max_payload"
  shows "length bs = 16 + length p" "check_frame_header max_payload (take 12 bs) = Inr (length p)"
proof -
  have e: "length p \<le> 0xFFFFFFFF" "bs = (write_header ty 0 (of_nat (length p)) @ p) @ le_encode 4 (crc32c (write_header ty 0 (of_nat (length p)) @ p) 0)"
    using assms(1) by (simp_all add: encode_frame_def Let_def split: if_splits)
  show "length bs = 16 + length p" by (simp add: e(2))
  have h: "take 12 bs = write_header ty 0 (of_nat (length p))" by (simp add: e(2))
  have u: "unat (of_nat (length p) :: u32) = length p" using e(1) by (simp add: unat_of_nat)
  have r: "read_u32 (write_header ty 0 n) = kWireMagic" "write_header ty 0 n ! 4 = ucast kFormatVersion"
    "write_header ty 0 n ! 6 = 0" "write_header ty 0 n ! 7 = 0" "read_u32 (drop 8 (write_header ty 0 n)) = n" for n
    using read_u32_encode [of n "[]"] by (simp_all add: write_header_def nth_append)
  show "check_frame_header max_payload (take 12 bs) = Inr (length p)"
    unfolding h check_frame_header_def Let_def r u using assms(2) by simp
qed

text \<open>What comes out of \<open>recv_frame\<close> is exactly what its bytes encode.\<close>

lemma recv_frame_sound:
  assumes "recv_frame polled max_payload s = Some (st, msg, closed, s')" "sk_valid s" "max_payload \<le> 0xFFFFFFFF"
  shows "\<exists>bs. net_after (sk_net s) (sk_net s') bs [] \<and> s' = s\<lparr>sk_net := sk_net s'\<rparr> \<and>
           (case msg of Some (ty, p) \<Rightarrow> st = success \<and> \<not> closed \<and> encode_frame ty p = Inr bs \<and> length p \<le> max_payload
            | None \<Rightarrow> status_ok st \<longleftrightarrow> closed)"
proof -
  obtain st1 h c1 w1 where r1: "read_exact polled 12 [] (sk_net s) = Some (st1, h, c1, w1)"
    using assms(1,2) by (cases "read_exact polled 12 [] (sk_net s)") (auto simp: recv_frame_def kFrameHeaderBytes_def)
  have b1: "net_after (sk_net s) w1 h []" "read_ends 12 w1 st1 h c1" using read_exact_spec [OF r1] by auto
  show ?thesis
  proof (cases "status_ok st1 \<and> \<not> c1")
    case False
    then have "msg = None" "closed = (status_ok st1)" "st = (if status_ok st1 then success else st1)" "s' = s\<lparr>sk_net := w1\<rparr>"
      using assms(1,2) r1 by (auto simp: recv_frame_def kFrameHeaderBytes_def Let_def split: if_splits)
    then show ?thesis using b1(1) by (intro exI [of _ h]) auto
  next
    case True
    then have h12: "length h = 12" using b1(2) by (auto simp: read_ends_def status_ok_def)
    show ?thesis
    proof (cases "check_frame_header max_payload h")
      case (Inl bad)
      then have "msg = None" "\<not> closed" "st = bad" "s' = s\<lparr>sk_net := w1\<rparr>"
        using assms(1,2) r1 True by (auto simp: recv_frame_def kFrameHeaderBytes_def Let_def)
      then show ?thesis using b1(1) check_frame_header_bad [OF Inl] by (intro exI [of _ h]) (auto simp: status_ok_def)
    next
      case (Inr n)
      obtain st2 rest c2 w2 where r2: "read_exact polled (n + 4) [] w1 = Some (st2, rest, c2, w2)"
        using assms(1,2) r1 True Inr
        by (cases "read_exact polled (n + 4) [] w1") (auto simp: recv_frame_def kFrameHeaderBytes_def kFrameTrailerBytes_def Let_def)
      have b2: "net_after w1 w2 rest []" "read_ends (n + 4) w2 st2 rest c2" using read_exact_spec [OF r2] by auto
      note both = net_after_trans [OF b1(1) b2(1), simplified]
      have run: "(st, msg, closed, s') =
          (if \<not> status_ok st2 then (st2, None, False, s\<lparr>sk_net := w2\<rparr>)
           else if c2 then (success, None, True, s\<lparr>sk_net := w2\<rparr>)
           else case decode_frame (h @ rest) max_payload of
             Inl bad \<Rightarrow> (bad, None, False, s\<lparr>sk_net := w2\<rparr>)
           | Inr view \<Rightarrow> (success, Some (fv_type view, fv_payload view), False, s\<lparr>sk_net := w2\<rparr>))"
        using assms(1,2) r1 True Inr r2
        by (auto simp: recv_frame_def kFrameHeaderBytes_def kFrameTrailerBytes_def Let_def split: sum.splits)
      show ?thesis
      proof (cases "status_ok st2 \<and> \<not> c2")
        case False
        then show ?thesis using run both by (intro exI [of _ "h @ rest"]) (auto split: if_splits)
      next
        case ok: True
        show ?thesis
        proof (cases "decode_frame (h @ rest) max_payload")
          case (Inl bad)
          then show ?thesis using run ok both decode_frame_bad [OF Inl] by (intro exI [of _ "h @ rest"]) auto
        next
          case (Inr view)
          obtain ty p bs more where v: "encode_frame ty p = Inr bs" "h @ rest = bs @ more" "length p \<le> max_payload" "view = frame_view ty p"
            using Inr decode_frame_exact [OF assms(3)] by blast
          have len: "length rest = n + 4" using b2(2) ok by (auto simp: read_ends_def status_ok_def)
          have "take 12 bs = h" using arg_cong [OF v(2), of "take 12"] h12 header_of_frame(1) [OF v(1,3)] by simp
          then have "n = length p" using header_of_frame(2) [OF v(1,3)] \<open>check_frame_header max_payload h = Inr n\<close> by simp
          then have "more = []" using arg_cong [OF v(2), of length] len h12 header_of_frame(1) [OF v(1,3)] by simp
          then show ?thesis using run ok Inr v both by (intro exI [of _ "h @ rest"]) (auto simp: frame_view_def)
        qed
      qed
    qed
  qed
qed

lemma recv_frame_delivers:
  assumes "recv_frame polled max_payload s = Some (st, msg, closed, s')" "sk_valid s" "max_payload \<le> 0xFFFFFFFF"
    "encode_frame ty p = Inr bs" "length p \<le> max_payload" "nt_in (sk_net s) = bs @ rest"
  shows "st = success \<and> msg = Some (ty, p) \<and> \<not> closed \<and> nt_in (sk_net s') = rest \<or>
         reason st \<in> {ShutdownInProgress, TransportError} \<and> msg = None \<and> \<not> closed"
proof -
  note h = header_of_frame [OF assms(4,5)]
  obtain st1 g1 c1 w1 where r1: "read_exact polled 12 [] (sk_net s) = Some (st1, g1, c1, w1)"
    using assms(1,2) by (cases "read_exact polled 12 [] (sk_net s)") (auto simp: recv_frame_def kFrameHeaderBytes_def)
  from read_exact_enough [OF r1] consider
      (bad) "reason st1 \<in> {ShutdownInProgress, TransportError}" "\<not> c1"
    | (good) "st1 = success" "\<not> c1" "g1 = take 12 bs" "nt_in w1 = drop 12 bs @ rest"
    using assms(6) h(1) by auto
  then show ?thesis
  proof cases
    case bad
    then show ?thesis using assms(1,2) r1 by (auto simp: recv_frame_def kFrameHeaderBytes_def status_ok_def Let_def)
  next
    case good
    obtain st2 g2 c2 w2 where r2: "read_exact polled (length p + 4) [] w1 = Some (st2, g2, c2, w2)"
      using assms(1,2) r1 good h(2)
      by (cases "read_exact polled (length p + 4) [] w1") (auto simp: recv_frame_def kFrameHeaderBytes_def kFrameTrailerBytes_def Let_def)
    from read_exact_enough [OF r2] consider
        (bad2) "reason st2 \<in> {ShutdownInProgress, TransportError}" "\<not> c2"
      | (good2) "st2 = success" "\<not> c2" "g2 = drop 12 bs" "nt_in w2 = rest"
      using good(4) h(1) by auto
    then show ?thesis
    proof cases
      case bad2
      then show ?thesis using assms(1,2) r1 good h(2) r2
        by (auto simp: recv_frame_def kFrameHeaderBytes_def kFrameTrailerBytes_def status_ok_def Let_def)
    next
      case good2
      have "fv_consumed (frame_view ty p) = length bs"
        using h(1) by (simp add: frame_view_def kFrameOverheadBytes_def kFrameHeaderBytes_def kFrameTrailerBytes_def)
      then have d: "decode_frame bs max_payload = Inr (frame_view ty p)"
        using decode_frame_exact [OF assms(3), of bs "frame_view ty p"] assms(4,5) by (metis append_Nil2)
      show ?thesis
        using assms(1,2) r1 good h(2) r2 good2 d
        by (auto simp: recv_frame_def kFrameHeaderBytes_def kFrameTrailerBytes_def Let_def frame_view_def)
    qed
  qed
qed

lemma send_frame_sound:
  assumes "send_frame polled ty p s = Some (st, s')" "sk_valid s"
  shows "\<exists>out. net_after (sk_net s) (sk_net s') [] out \<and> s' = s\<lparr>sk_net := sk_net s'\<rparr> \<and>
           (status_ok st \<longrightarrow> encode_frame ty p = Inr out \<and> st = success) \<and>
           (\<not> status_ok st \<longrightarrow> out = [] \<or> (\<exists>bs. encode_frame ty p = Inr bs \<and> prefix out bs))"
proof (cases "encode_frame ty p")
  case (Inl bad)
  then have "\<not> status_ok bad" by (auto simp: encode_frame_def Let_def status_ok_def split: if_splits)
  then show ?thesis using assms(1) Inl by (intro exI [of _ "[]"]) (simp add: send_frame_def)
next
  case (Inr bs)
  obtain w where w: "write_all polled bs 0 (sk_net s) = Some (st, w)" "s' = s\<lparr>sk_net := w\<rparr>"
    using assms Inr by (cases "write_all polled bs 0 (sk_net s)") (auto simp: send_frame_def send_all_def)
  then show ?thesis using write_all_spec [OF w(1)] Inr by (auto split: if_splits)
qed

text \<open>C26: a frame crosses the link whole, whatever the timing. However the bytes are cut into arrivals, with
  waits that expire and calls that are interrupted in between, \<open>recv_frame\<close> on a stream that starts with an
  encoded frame within the bound returns exactly that frame and leaves exactly the bytes behind it, or reports
  that it was told to stop or that the connection broke.\<close>

theorem frames_cross_any_link:
  assumes "recv_frame polled max_payload s = Some (st, msg, closed, s')" "sk_valid s" "max_payload \<le> 0xFFFFFFFF"
    "encode_frame ty p = Inr bs" "length p \<le> max_payload" "nt_in (sk_net s) = bs @ rest"
  shows "st = success \<and> msg = Some (ty, p) \<and> \<not> closed \<and> nt_in (sk_net s') = rest \<or>
         reason st \<in> {ShutdownInProgress, TransportError} \<and> msg = None \<and> \<not> closed"
  by (rule recv_frame_delivers [OF assms])

text \<open>A connection that delivers byte by byte, with an expired wait and an interruption now and then.\<close>

definition demo_net :: "bytes \<Rightarrow> net" where
  "demo_net bs = \<lparr>nt_in = bs, nt_eof = True, nt_out = [], nt_shut = False,
     nt_event = (\<lambda>n. if n mod 7 = 3 then NetExpired else if n mod 7 = 5 then NetAgain else NetReady (n mod 3)),
     nt_stop = (\<lambda>n. n > 10000), nt_clock = 0\<rparr>"

lemma demo_net_ends: "lively (demo_net bs)" "stops_by 10001 (demo_net bs)"
proof -
  have "\<exists>m\<ge>n. m mod 7 \<noteq> 5" for n :: nat
  proof (cases "n mod 7 = 5")
    case True
    then show ?thesis by (intro exI [of _ "Suc n"]) (simp add: mod_Suc)
  qed auto
  then show "lively (demo_net bs)" by (auto simp: lively_def demo_net_def)
  show "stops_by 10001 (demo_net bs)" by (simp add: stops_by_def demo_net_def)
qed

definition demo_socket :: "bytes \<Rightarrow> Socket" where
  "demo_socket bs = \<lparr>sk_valid = True, sk_net = demo_net bs\<rparr>"

lemma recv_frame_returns:
  assumes "lively (sk_net s)" "stops_by N (sk_net s)"
  shows "recv_frame True max_payload s \<noteq> None"
proof (cases "read_exact True 12 [] (sk_net s)")
  case None
  then show ?thesis using read_exact_returns [OF assms] by simp
next
  case (Some y)
  obtain st h c w where y: "y = (st, h, c, w)" by (metis prod_cases4)
  have "net_after (sk_net s) w h []" using read_exact_spec [OF Some] y by auto
  then have "lively w" "stops_by N w" using net_after_lively assms by blast+
  then have again: "(read_exact True n [] w = None) = False" for n using read_exact_returns by blast
  show ?thesis
    using Some y
    by (auto simp: again recv_frame_def kFrameHeaderBytes_def Let_def split: sum.splits prod.splits Option.bind_splits)
qed

lemma send_frame_returns:
  assumes "lively (sk_net s)" "stops_by N (sk_net s)"
  shows "send_frame True ty p s \<noteq> None"
proof -
  have again: "(write_all True source offset (sk_net s) = None) = False" for source offset using write_all_returns [OF assms] by blast
  show ?thesis
    by (auto simp: again send_frame_def send_all_def split: sum.splits prod.splits Option.bind_splits)
qed

theorem frames_cross_any_link_witness:
  "\<exists>bs st msg closed s'. encode_frame Bye [7, 8] = Inr bs \<and> recv_frame True 100 (demo_socket (bs @ [9])) = Some (st, msg, closed, s') \<and>
     (st = success \<and> msg = Some (Bye, [7, 8]) \<and> nt_in (sk_net s') = [9] \<or> reason st \<in> {ShutdownInProgress, TransportError})"
proof -
  obtain bs where bs: "encode_frame Bye [7, 8] = Inr bs" by (simp add: encode_frame_def Let_def)
  obtain st msg closed s' where r: "recv_frame True 100 (demo_socket (bs @ [9])) = Some (st, msg, closed, s')"
    using recv_frame_returns [of "demo_socket (bs @ [9])" 10001 100] demo_net_ends by (auto simp: demo_socket_def)
  show ?thesis
    using frames_cross_any_link [OF r _ _ bs, of "[9]"] bs r by (auto simp: demo_socket_def demo_net_def)
qed

text \<open>No message is invented. Whenever \<open>recv_frame\<close> hands a message to its caller, the bytes it took from
  the stream are exactly the encoding of that message, within the bound; in every other case it reports a
  failure or the end of the stream and hands over nothing.\<close>

lemma received_frames_were_sent:
  assumes "recv_frame polled max_payload s = Some (st, msg, closed, s')" "sk_valid s" "max_payload \<le> 0xFFFFFFFF"
  shows "\<exists>bs. nt_in (sk_net s) = bs @ nt_in (sk_net s') \<and>
           (case msg of Some (ty, p) \<Rightarrow> st = success \<and> \<not> closed \<and> encode_frame ty p = Inr bs \<and> length p \<le> max_payload
            | None \<Rightarrow> status_ok st \<longleftrightarrow> closed)"
  using recv_frame_sound [OF assms] by (auto simp: net_after_def)

text \<open>The stop flag ends every wait. Once the server's stop flag is set and stays set, and unless the
  operating system interrupts calls forever, sending or receiving a frame returns, whatever the peer does.\<close>

lemma stop_flag_ends_every_wait:
  assumes "\<forall>n. \<exists>m\<ge>n. nt_event (sk_net s) m \<noteq> NetAgain" "\<forall>n\<ge>N. nt_stop (sk_net s) n"
  shows "recv_frame True max_payload s \<noteq> None \<and> send_frame True ty p s \<noteq> None"
  using recv_frame_returns [of s N] send_frame_returns [of s N] assms by (simp add: lively_def stops_by_def)

text \<open>The same for a listener; its loop polls the flag before every wait, so it needs no assumption on interrupts.\<close>

lemma listener_accept_after:
  assumes "listener_accept w = Some y"
  shows "case y of (st, closed, w') \<Rightarrow> net_after w w' [] [] \<and> (\<not> closed \<longrightarrow> nt_clock w < nt_clock w')"
proof (rule listener_accept.raw_induct [OF _ assms])
  fix f w y
  assume ih: "\<And>w y. f w = Some y \<Longrightarrow> case y of (st, closed, w') \<Rightarrow> net_after w w' [] [] \<and> (\<not> closed \<longrightarrow> nt_clock w < nt_clock w')"
    and eq: "(if net_stopping w then Some (success, True, w)
      else case net_call w of (e, w1) \<Rightarrow> (case e of NetFailed \<Rightarrow> Some (refused TransportError 15, False, w1) | NetAgain \<Rightarrow> f w1
        | NetExpired \<Rightarrow> f w1
        | NetReady _ \<Rightarrow> (case net_call w1 of (e2, w2) \<Rightarrow> (case e2 of NetReady _ \<Rightarrow> Some (success, False, w2) | NetAgain \<Rightarrow> f w2
            | _ \<Rightarrow> Some (refused TransportError 16, False, w2))))) = Some y"
  obtain e w1 where c1: "net_call w = (e, w1)" by fastforce
  obtain e2 w2 where c2: "net_call w1 = (e2, w2)" by fastforce
  note a1 = net_call_after [OF c1] and a2 = net_call_after [OF c2]
  note a12 = net_after_trans [OF a1 [THEN conjunct1] a2 [THEN conjunct1], simplified]
  have step: "case y of (st, closed, w') \<Rightarrow> net_after w w' [] [] \<and> (\<not> closed \<longrightarrow> nt_clock w < nt_clock w')"
    if "f v = Some y" "net_after w v [] []" "nt_clock w < nt_clock v" for v
    using ih [OF that(1)] that(2,3) by (simp add: net_after_def split: prod.splits)
  show "case y of (st, closed, w') \<Rightarrow> net_after w w' [] [] \<and> (\<not> closed \<longrightarrow> nt_clock w < nt_clock w')"
    using eq c1 c2 a1 a2 a12 step [of w1] step [of w2] by (auto split: if_splits net_event.splits)
qed

lemma listener_accept_returns:
  assumes "stops_by N w"
  shows "listener_accept w \<noteq> None"
  using assms
proof (induction "N - nt_clock w" arbitrary: w rule: less_induct)
  case less
  obtain e w1 where c1: "net_call w = (e, w1)" by fastforce
  obtain e2 w2 where c2: "net_call w1 = (e2, w2)" by fastforce
  have clock: "nt_clock w < nt_clock w1" "nt_clock w1 < nt_clock w2" "net_after w w1 [] []" "net_after w1 w2 [] []"
    using net_call_after [OF c1] net_call_after [OF c2] by simp_all
  then have s: "stops_by N w1" "stops_by N w2" using net_after_lively less.prems by blast+
  show ?case
  proof (cases "net_stopping w")
    case True
    then show ?thesis by (subst listener_accept.simps) simp
  next
    case False
    then have "nt_clock w < N" using less.prems by (auto simp: net_stopping_def stops_by_def not_less [symmetric])
    then have "listener_accept w1 \<noteq> None" "listener_accept w2 \<noteq> None" using less.hyps [of w1] less.hyps [of w2] clock s by simp_all
    then show ?thesis using c1 c2 False by (subst listener_accept.simps) (auto split: net_event.splits)
  qed
qed

subsection \<open>Prompt links\<close>

text \<open>A link on which every call completes at once, as a loopback connection with room in its buffers does.\<close>

definition prompt :: "net \<Rightarrow> bool" where
  "prompt w \<longleftrightarrow> (\<forall>n. nt_event w n = NetReady 100000) \<and> (\<forall>n. \<not> nt_stop w n)"

lemma prompt_call: "prompt w \<Longrightarrow> net_call w = (NetReady 100000, w\<lparr>nt_clock := Suc (nt_clock w)\<rparr>)"
  by (simp add: prompt_def net_call_def)

lemma prompt_tick [simp]:
  "prompt (w\<lparr>nt_clock := n\<rparr>) = prompt w" "prompt (w\<lparr>nt_in := bs\<rparr>) = prompt w" "prompt (w\<lparr>nt_out := bs\<rparr>) = prompt w"
  "prompt w \<Longrightarrow> \<not> net_stopping w"
  by (simp_all add: prompt_def net_stopping_def)

lemma prompt_after: "net_after w w' bs out \<Longrightarrow> prompt w' = prompt w"
  by (simp add: net_after_def prompt_def)

lemma prompt_wait: "prompt w \<Longrightarrow> wait_ready w = Some (1, w\<lparr>nt_clock := Suc (nt_clock w)\<rparr>)"
  by (subst wait_ready.simps) (simp add: prompt_call)

lemma prompt_write:
  assumes "prompt w" "length bs \<le> 100001"
  shows "\<exists>w'. write_all polled bs 0 w = Some (success, w')"
proof (cases "bs = []")
  case True
  then show ?thesis by (subst write_all.simps) (simp add: write_turn_def)
next
  case False
  then obtain w1 where "write_turn polled bs 0 w = Some (Inr (length bs, w1))"
    using assms by (simp add: write_turn_def prompt_wait net_send_def prompt_call Let_def)
  then show ?thesis
    by (subst write_all.simps, simp, subst write_all.simps) (simp add: write_turn_def)
qed

lemma prompt_read:
  assumes "prompt w" "count \<le> length (nt_in w)" "count \<le> 100001"
  shows "\<exists>w'. read_exact polled count [] w = Some (success, take count (nt_in w), False, w')"
proof (cases "count = 0")
  case True
  then show ?thesis by (subst read_exact.simps) (simp add: read_turn_def)
next
  case False
  moreover have "nt_in w \<noteq> []" using False assms(2) by auto
  ultimately obtain w1 where "read_turn polled count [] w = Some (Inr (take count (nt_in w), w1))"
    using assms by (simp add: read_turn_def prompt_wait net_recv_def prompt_call Let_def min_def)
  then show ?thesis
    using assms(2) by (subst read_exact.simps, simp, subst read_exact.simps) (simp add: read_turn_def)
qed

lemma prompt_send:
  assumes "prompt (sk_net s)" "sk_valid s" "length p \<le> 90000"
  shows "\<exists>s'. send_frame polled ty p s = Some (success, s')"
proof -
  have small: "length p \<le> 0xFFFFFFFF" using assms(3) by simp
  then obtain bs where bs: "encode_frame ty p = Inr bs" by (simp add: encode_frame_def Let_def)
  have "length bs \<le> 100001" using header_of_frame(1) [OF bs small] assms(3) by simp
  from prompt_write [OF assms(1) this, of polled] show ?thesis using bs assms(2) by (auto simp: send_frame_def send_all_def)
qed

lemma prompt_recv:
  assumes "prompt (sk_net s)" "sk_valid s" "length p \<le> 90000" "length p \<le> max_payload" "max_payload \<le> 0xFFFFFFFF"
    "encode_frame ty p = Inr bs" "nt_in (sk_net s) = bs @ rest"
  shows "\<exists>s'. recv_frame polled max_payload s = Some (success, Some (ty, p), False, s')"
proof -
  note h = header_of_frame [OF assms(6,4)]
  obtain w1 where r1: "read_exact polled 12 [] (sk_net s) = Some (success, take 12 bs, False, w1)"
    using prompt_read [OF assms(1), of 12 polled] assms(7) h(1) by auto
  have a1: "net_after (sk_net s) w1 (take 12 bs) []" using read_exact_spec [OF r1] by auto
  have "nt_in w1 = drop 12 bs @ rest" using a1 assms(7) by (simp add: net_after_def) (metis append_assoc append_take_drop_id same_append_eq)
  moreover have "prompt w1" using prompt_after [OF a1] assms(1) by simp
  ultimately obtain w2 where r2: "read_exact polled (length p + 4) [] w1 = Some (success, drop 12 bs, False, w2)"
    using prompt_read [of w1 "length p + 4" polled] h(1) assms(3) by auto
  have run: "recv_frame polled max_payload s \<noteq> None"
    using assms(2) r1 r2 h(2) by (auto simp: recv_frame_def kFrameHeaderBytes_def kFrameTrailerBytes_def Let_def split: sum.splits)
  then obtain st msg closed s' where r: "recv_frame polled max_payload s = Some (st, msg, closed, s')" by (metis not_None_eq prod_cases4)
  have "status_ok st \<or> msg = None \<and> (\<exists>bad. decode_frame bs max_payload = Inl bad)"
    using r assms(2) r1 r2 h(2) by (auto simp: recv_frame_def kFrameHeaderBytes_def kFrameTrailerBytes_def Let_def split: sum.splits)
  moreover have "fv_consumed (frame_view ty p) = length bs"
    using h(1) by (simp add: frame_view_def kFrameOverheadBytes_def kFrameHeaderBytes_def kFrameTrailerBytes_def)
  then have "decode_frame bs max_payload = Inr (frame_view ty p)"
    using decode_frame_exact [OF assms(5), of bs "frame_view ty p"] assms(4,6) by (metis append_Nil2)
  ultimately have "status_ok st" by simp
  then show ?thesis
    using recv_frame_delivers [OF r assms(2,5,6,4,7)] r by (auto simp: status_ok_def)
qed

definition prompt_net :: "bytes \<Rightarrow> net" where
  "prompt_net bs = \<lparr>nt_in = bs, nt_eof = False, nt_out = [], nt_shut = False, nt_event = (\<lambda>_. NetReady 100000),
     nt_stop = (\<lambda>_. False), nt_clock = 0\<rparr>"

abbreviation prompt_socket :: "bytes \<Rightarrow> Socket" where
  "prompt_socket bs \<equiv> \<lparr>sk_valid = True, sk_net = prompt_net bs\<rparr>"

lemma prompt_net_simps [simp]:
  "prompt (prompt_net bs)" "nt_in (prompt_net bs) = bs" "nt_out (prompt_net bs) = []" "(prompt_net bs)\<lparr>nt_in := bs'\<rparr> = prompt_net bs'"
  by (simp_all add: prompt_def prompt_net_def)

end
