(* ===== verification/Coordinator.thy ===== *)
theory Coordinator
  imports Transport Runs
begin

text \<open>
  The coordinator server (\<open>include/creditfabric/coordinator.hpp\<close>, \<open>src/coordinator.cpp\<close>): options, start and
  stop, admission of connections, and the conversation with one connection, over the transport and the engine.
  Threads share the engine, which is atomic per call, and counters; each connection has its own socket, whose stop
  flag is the server's. The accept loop works on the connections in the order they arrive.
\<close>

subsection \<open>CoordinatorServer\<close>

definition refusal_outcome :: "Reason \<Rightarrow> u64 \<Rightarrow> CreditOutcome" where
  "refusal_outcome r d = default_outcome\<lparr>out_status := refused r d\<rparr>"

record CoordinatorOptions =
  co_host :: string
  co_port :: u16
  co_limits :: EngineLimits
  co_server_label :: string
  co_max_requests :: u64
  co_max_connections :: nat

record 'j server =
  sv_engine :: "'j engine"
  sv_options :: CoordinatorOptions
  sv_listener :: Listener
  sv_workers :: nat
  sv_running :: bool
  sv_stopping :: bool
  sv_accepted :: u64
  sv_served :: u64
  sv_malformed :: u64
  sv_next_session :: u32
  sv_port :: u16

definition clamp_options :: "CoordinatorOptions \<Rightarrow> CoordinatorOptions" where
  "clamp_options options =
     (let limits = co_limits options;
          limits1 = (if max_frame_payload_bytes limits = 0 then limits\<lparr>max_frame_payload_bytes := 1024\<rparr> else limits);
          limits2 = (if max_note_bytes limits1 = 0 then limits1\<lparr>max_note_bytes := 1\<rparr> else limits1)
      in options\<lparr>co_max_connections := (if co_max_connections options = 0 then 1 else co_max_connections options),
                 co_limits := limits2\<rparr>)"

definition make_server :: "'j engine \<Rightarrow> CoordinatorOptions \<Rightarrow> net \<Rightarrow> 'j server" where
  "make_server e options w =
     \<lparr>sv_engine = e, sv_options = clamp_options options,
      sv_listener = \<lparr>ls_valid = False, ls_port = 0, ls_net = w\<rparr>, sv_workers = 0, sv_running = False,
      sv_stopping = False, sv_accepted = 0, sv_served = 0, sv_malformed = 0, sv_next_session = 1, sv_port = 0\<rparr>"

text \<open>\<open>start\<close>, up to the creation of the accept thread.\<close>

definition server_start :: "'j server \<Rightarrow> Status \<times> 'j server" where
  "server_start sv =
     (if sv_running sv then (success, sv)
      else case bind_loopback (sv_listener sv) of
        (bound, l) \<Rightarrow>
          let sv1 = sv\<lparr>sv_listener := l\<rparr> in
          if \<not> status_ok bound then (bound, sv1)
          else (success, sv1\<lparr>sv_port := ls_port l, sv_stopping := False, sv_running := True\<rparr>))"

text \<open>\<open>stop\<close>: the joins have returned when it does, so no worker is left.\<close>

definition server_stop :: "'j server \<Rightarrow> Status \<times> 'j server" where
  "server_stop sv =
     (if \<not> sv_running sv then (success, sv\<lparr>sv_workers := 0\<rparr>)
      else
        (success,
         sv\<lparr>sv_stopping := True, sv_listener := snd (listener_close (stop_accepting (sv_listener sv))),
            sv_workers := 0, sv_running := False\<rparr>))"

text \<open>What the accept loop does with a new connection: refuse it with \<open>Bye\<close> when the list is full, or give it
  a session.\<close>

definition admit_connection :: "'j server \<Rightarrow> Socket \<Rightarrow> ((Socket + u32) \<times> 'j server) option" where
  "admit_connection sv s =
     (if sv_workers sv \<ge> co_max_connections (sv_options sv)
      then Option.bind (send_frame False Bye [] s) (\<lambda>(st, s1). Some (Inl (snd (socket_close s1)), sv))
      else Some (Inr (sv_next_session sv),
                 sv\<lparr>sv_next_session := sv_next_session sv + 1, sv_accepted := sv_accepted sv + 1,
                    sv_workers := Suc (sv_workers sv)\<rparr>))"

text \<open>One turn of \<open>accept_loop\<close>, with the connection that arrives; \<open>Inl\<close> leaves the loop, \<open>Some session\<close> is the
  start of a thread running \<open>serve_connection\<close>. \<open>stop\<close> sets the server's flag and then the listener's; the stop
  schedule of the listener stands for both.\<close>

definition accept_turn :: "Socket \<Rightarrow> 'j server \<Rightarrow> ('j server + (u32 option \<times> 'j server)) option" where
  "accept_turn arrival sv =
     (if net_stopping (ls_net (sv_listener sv)) then Some (Inl sv)
      else Option.bind (accept_call (sv_listener sv)) (\<lambda>(st, closed, l).
        let sv1 = sv\<lparr>sv_listener := l\<rparr> in
        if \<not> status_ok st \<or> closed then Some (Inl sv1)
        else Option.bind (admit_connection sv1 arrival) (\<lambda>(r, sv2).
          Some (Inr (case r of Inl _ \<Rightarrow> None | Inr session \<Rightarrow> Some session, sv2)))))"

text \<open>The loop, over the connections in the order they arrive; it returns the sessions it started.\<close>

partial_function (option) accept_loop :: "(nat \<Rightarrow> Socket) \<Rightarrow> nat \<Rightarrow> u32 list \<Rightarrow> 'j server \<Rightarrow> (u32 list \<times> 'j server) option" where
  "accept_loop arrivals n started sv =
     Option.bind (accept_turn (arrivals n) sv) (\<lambda>turn.
       case turn of
         Inl sv' \<Rightarrow> Some (started, sv')
       | Inr (session, sv') \<Rightarrow>
           accept_loop arrivals (Suc n) (case session of None \<Rightarrow> started | Some x \<Rightarrow> started @ [x]) sv')"

abbreviation server_payload :: "'j server \<Rightarrow> nat" where
  "server_payload sv \<equiv> max_frame_payload_bytes (co_limits (sv_options sv))"

definition count_malformed :: "'j server \<Rightarrow> 'j server" where
  "count_malformed sv = sv\<lparr>sv_malformed := sv_malformed sv + 1\<rparr>"

text \<open>The handshake at the start of \<open>serve_connection\<close>; \<open>False\<close> is the early return.\<close>

definition serve_hello :: "u32 \<Rightarrow> 'j server \<Rightarrow> Socket \<Rightarrow> (bool \<times> 'j server \<times> Socket) option" where
  "serve_hello session sv s =
     Option.bind (recv_frame True (server_payload sv) s) (\<lambda>(st, msg, closed, s1).
       let give_up = Some (False, count_malformed sv, snd (socket_close s1)) in
       if \<not> status_ok st \<or> closed then give_up
       else case msg of
         None \<Rightarrow> give_up
       | Some (type, payload) \<Rightarrow>
           if type \<noteq> Hello then give_up
           else case decode_hello payload of
             Inl _ \<Rightarrow> give_up
           | Inr _ \<Rightarrow>
               (case encode_hello_ack
                       \<lparr>ack_session = session, ack_challenge = e_challenge (sv_engine sv),
                        ack_server_label = co_server_label (sv_options sv),
                        ack_max_payload = of_nat (server_payload sv), ack_format_version = kFormatVersion\<rparr> of
                  Inl _ \<Rightarrow> Some (False, sv, snd (socket_close s1))
                | Inr ack \<Rightarrow>
                    Option.bind (send_frame True HelloAck ack s1) (\<lambda>(st2, s2).
                      if \<not> status_ok st2 then Some (False, sv, snd (socket_close s2))
                      else Some (True, sv, s2))))"

text \<open>The answer to a frame that is not a well-formed request; the connection ends behind it.\<close>

definition answer_refusal :: "Reason \<Rightarrow> u64 \<Rightarrow> Socket \<Rightarrow> Socket option" where
  "answer_refusal r d s =
     (case encode_response_message (refusal_outcome r d) of
        Inl _ \<Rightarrow> Some s
      | Inr response \<Rightarrow> Option.bind (send_frame True Response response s) (\<lambda>(_, s1). Some s1))"

text \<open>One turn of the request loop: \<open>Inl\<close> leaves the loop.\<close>

definition serve_turn ::
  "'j journal_ops \<Rightarrow> u64 \<Rightarrow> 'j server \<Rightarrow> Socket \<Rightarrow> (('j server \<times> Socket) + (u64 \<times> 'j server \<times> Socket)) option" where
  "serve_turn jops served_here sv s =
     (if net_stopping (sk_net s) then Some (Inl (sv, s))
      else Option.bind (recv_frame True (server_payload sv) s) (\<lambda>(st, msg, closed, s1).
        if closed then Some (Inl (sv, s1))
        else if \<not> status_ok st then Some (Inl (count_malformed sv, s1))
        else
          let (type, payload) = (case msg of None \<Rightarrow> (Bye, []) | Some m \<Rightarrow> m) in
          if type = Bye then Some (Inl (sv, s1))
          else if type \<noteq> Request
          then Option.bind (answer_refusal MalformedMessage 20 s1) (\<lambda>s2. Some (Inl (count_malformed sv, s2)))
          else case decode_request_message payload (max_note_bytes (co_limits (sv_options sv))) of
            Inl bad \<Rightarrow> Option.bind (answer_refusal (reason bad) (detail bad) s1) (\<lambda>s2. Some (Inl (count_malformed sv, s2)))
          | Inr request \<Rightarrow>
              (case apply_request jops request (sv_engine sv) of
                 (outcome, e) \<Rightarrow>
                   let sv1 = sv\<lparr>sv_engine := e, sv_served := sv_served sv + 1\<rparr>; here = served_here + 1 in
                   (case encode_response_message outcome of
                      Inl _ \<Rightarrow> Some (Inl (sv1, s1))
                    | Inr response \<Rightarrow>
                        Option.bind (send_frame True Response response s1) (\<lambda>(sent, s2).
                          if \<not> status_ok sent \<or>
                             co_max_requests (sv_options sv) \<noteq> 0 \<and> here \<ge> co_max_requests (sv_options sv)
                          then Some (Inl (sv1, s2))
                          else Some (Inr (here, sv1, s2)))))))"

partial_function (option) serve_loop ::
  "'j journal_ops \<Rightarrow> u64 \<Rightarrow> 'j server \<Rightarrow> Socket \<Rightarrow> ('j server \<times> Socket) option" where
  "serve_loop jops served_here sv s =
     Option.bind (serve_turn jops served_here sv s) (\<lambda>turn.
       case turn of Inl result \<Rightarrow> Some result | Inr (here, sv1, s1) \<Rightarrow> serve_loop jops here sv1 s1)"

definition serve_connection :: "'j journal_ops \<Rightarrow> u32 \<Rightarrow> 'j server \<Rightarrow> Socket \<Rightarrow> ('j server \<times> Socket) option" where
  "serve_connection jops session sv s =
     Option.bind (serve_hello session sv s) (\<lambda>(proceed, sv1, s1).
       if \<not> proceed then Some (sv1, s1)
       else Option.bind (serve_loop jops 0 sv1 s1) (\<lambda>(sv2, s2).
         Some (sv2, snd (socket_close (snd (shutdown_send s2))))))"

subsection \<open>A turn of the server is at most one engine call\<close>

text \<open>What a turn does to the shared state: nothing but counting, or one call of the engine for a request that
  arrived in a well-formed frame, answered on the same connection.\<close>

definition turn_idle :: "'j server \<Rightarrow> 'j server \<Rightarrow> bool" where
  "turn_idle sv sv' \<longleftrightarrow> sv' = sv \<or> sv' = count_malformed sv"

definition turn_calls ::
  "'j journal_ops \<Rightarrow> 'j server \<Rightarrow> Socket \<Rightarrow> CreditRequest \<Rightarrow> CreditOutcome \<Rightarrow> 'j server \<Rightarrow> Socket \<Rightarrow> bool" where
  "turn_calls jops sv s q out sv' s' \<longleftrightarrow>
     length (req_note q) \<le> max_note_bytes (co_limits (sv_options sv)) \<and>
     (\<exists>bs rest. encode_frame Request (encode_request_body q) = Inr bs \<and> nt_in (sk_net s) = bs @ rest \<and> nt_in (sk_net s') = rest) \<and>
     apply_request jops q (sv_engine sv) = (out, sv_engine sv') \<and>
     sv' = sv\<lparr>sv_engine := sv_engine sv', sv_served := sv_served sv + 1\<rparr>"

lemma answer_refusal_net:
  assumes "answer_refusal r d s = Some s'" "sk_valid s"
  shows "\<exists>out. net_after (sk_net s) (sk_net s') [] out \<and> sk_valid s'"
proof -
  obtain st where "send_frame True Response (encode_outcome_body (refusal_outcome r d)) s = Some (st, s')"
    using assms(1) by (auto simp: answer_refusal_def encode_response_message_def split: Option.bind_splits)
  from send_frame_sound [OF this assms(2)] show ?thesis using assms(2) by (metis Socket.select_convs(1) Socket.surjective Socket.update_convs(2))
qed

lemma serve_turn_cases:
  assumes "serve_turn jops n sv s = Some r" "sk_valid s" "server_payload sv \<le> 0xFFFFFFFF"
    "max_note_bytes (co_limits (sv_options sv)) \<le> 4096"
  obtains (idle) sv' s' where "r = Inl (sv', s')" "turn_idle sv sv'"
  | (call) q out sv' s' response bytes where "r = Inl (sv', s') \<or> r = Inr (n + 1, sv', s')" "turn_calls jops sv s q out sv' s'"
      "encode_frame Response (encode_outcome_body out) = Inr response" "nt_out (sk_net s') = nt_out (sk_net s) @ bytes"
      "prefix bytes response" "r = Inr (n + 1, sv', s') \<Longrightarrow> bytes = response" "s' = s\<lparr>sk_net := sk_net s'\<rparr>"
      "\<exists>taken. net_after (sk_net s) (sk_net s') taken bytes"
proof (cases "net_stopping (sk_net s)")
  case True
  then show thesis using assms(1) idle by (auto simp: serve_turn_def turn_idle_def)
next
  case False
  obtain st msg closed s1 where rf: "recv_frame True (server_payload sv) s = Some (st, msg, closed, s1)"
    using assms(1) False by (auto simp: serve_turn_def split: Option.bind_splits)
  obtain bs where bs: "net_after (sk_net s) (sk_net s1) bs []" "s1 = s\<lparr>sk_net := sk_net s1\<rparr>"
    "case msg of Some (ty, p) \<Rightarrow> st = success \<and> \<not> closed \<and> encode_frame ty p = Inr bs \<and> length p \<le> server_payload sv
     | None \<Rightarrow> status_ok st \<longleftrightarrow> closed"
    using recv_frame_sound [OF rf assms(2,3)] by blast
  have v1: "sk_valid s1" using bs(2) assms(2) by (metis Socket.select_convs(1) Socket.surjective Socket.update_convs(2))
  note run = assms(1) [unfolded serve_turn_def, simplified False rf]
  show thesis
  proof (cases msg)
    case None
    then show thesis using run bs(3) idle by (auto simp: turn_idle_def split: if_splits)
  next
    case (Some m)
    obtain ty p where m: "m = (ty, p)" by fastforce
    have ok: "st = success" "\<not> closed" "encode_frame ty p = Inr bs" using bs(3) Some m by auto
    show thesis
    proof (cases "ty = Request \<and> (\<exists>q. decode_request_message p (max_note_bytes (co_limits (sv_options sv))) = Inr q)")
      case False
      then show thesis
        using run ok Some m idle
        by (auto simp: turn_idle_def split: if_splits sum.splits Option.bind_splits)
    next
      case True
      then obtain q where q: "ty = Request" "decode_request_message p (max_note_bytes (co_limits (sv_options sv))) = Inr q" by blast
      have qb: "length (req_note q) \<le> max_note_bytes (co_limits (sv_options sv))" "p = encode_request_body q"
        using q(2) request_message_exact [OF assms(4)] by (auto simp: encode_request_message_def)
      obtain out e where ap: "apply_request jops q (sv_engine sv) = (out, e)" by fastforce
      define sv1 where "sv1 = sv\<lparr>sv_engine := e, sv_served := sv_served sv + 1\<rparr>"
      obtain st2 s2 where sf: "send_frame True Response (encode_outcome_body out) s1 = Some (st2, s2)"
        using run ok Some m q ap by (auto simp: encode_response_message_def Let_def split: Option.bind_splits)
      obtain bytes where sb: "net_after (sk_net s1) (sk_net s2) [] bytes" "s2 = s1\<lparr>sk_net := sk_net s2\<rparr>"
        "status_ok st2 \<longrightarrow> encode_frame Response (encode_outcome_body out) = Inr bytes \<and> st2 = success"
        "\<not> status_ok st2 \<longrightarrow> bytes = [] \<or> (\<exists>z. encode_frame Response (encode_outcome_body out) = Inr z \<and> prefix bytes z)"
        using send_frame_sound [OF sf v1] by blast
      have r: "r = (if \<not> status_ok st2 \<or> co_max_requests (sv_options sv) \<noteq> 0 \<and> n + 1 \<ge> co_max_requests (sv_options sv)
          then Inl (sv1, s2) else Inr (n + 1, sv1, s2))"
        using run ok Some m q ap sf by (auto simp: encode_response_message_def Let_def sv1_def split: if_splits)
      have small: "length (encode_outcome_body out) \<le> 200" by (rule length_outcome_body)
      obtain response where resp: "encode_frame Response (encode_outcome_body out) = Inr response"
        using small by (simp add: encode_frame_def Let_def)
      note both = net_after_trans [OF bs(1) sb(1), simplified]
      have tc: "turn_calls jops sv s q out sv1 s2"
        using qb ap ok(3) q(1) both by (auto simp: turn_calls_def sv1_def net_after_def)
      have s2: "s2 = s\<lparr>sk_net := sk_net s2\<rparr>" using bs(2) sb(2) by (metis Socket.surjective Socket.update_convs(2))
      show thesis
      proof (rule call [OF _ tc resp, of bytes])
        show "r = Inl (sv1, s2) \<or> r = Inr (n + 1, sv1, s2)" using r by simp
        show "nt_out (sk_net s2) = nt_out (sk_net s) @ bytes" using both by (simp add: net_after_def)
        show "prefix bytes response" using sb(3,4) resp by auto
        show "bytes = response" if "r = Inr (n + 1, sv1, s2)" using that r sb(3) resp by (auto split: if_splits)
        show "s2 = s\<lparr>sk_net := sk_net s2\<rparr>" by (rule s2)
        show "\<exists>taken. net_after (sk_net s) (sk_net s2) taken bytes" using both by blast
      qed
    qed
  qed
qed

subsection \<open>All connections together\<close>

text \<open>Any interleaving of turns of any connections on the shared server, with the engine calls they made in
  order. A turn touches the shared state once, in the engine call, so whole turns are the unit.\<close>

inductive served :: "'j journal_ops \<Rightarrow> 'j server \<Rightarrow> (CreditRequest \<times> CreditOutcome) list \<Rightarrow> 'j server \<Rightarrow> bool"
  for jops sv where
  served_start: "served jops sv [] sv"
| served_idle: "served jops sv calls sv1 \<Longrightarrow> serve_turn jops n sv1 s = Some (Inl (sv2, s')) \<Longrightarrow> sk_valid s \<Longrightarrow> turn_idle sv1 sv2 \<Longrightarrow>
    served jops sv calls sv2"
| served_call: "served jops sv calls sv1 \<Longrightarrow>
    serve_turn jops n sv1 s = Some r \<Longrightarrow> sk_valid s \<Longrightarrow> r = Inl (sv2, s') \<or> r = Inr (n + 1, sv2, s') \<Longrightarrow>
    turn_calls jops sv1 s q out sv2 s' \<Longrightarrow> served jops sv (calls @ [(q, out)]) sv2"

lemma turn_frame:
  "turn_idle sv sv' \<Longrightarrow> sv_engine sv' = sv_engine sv \<and> sv_options sv' = sv_options sv \<and> sv_served sv' = sv_served sv"
  by (auto simp: turn_idle_def count_malformed_def)

lemma served_run:
  assumes "served jops sv calls sv'"
  shows "engine_run jops (sv_engine sv) (map (\<lambda>(q, out). CallApply q out) calls) (sv_engine sv') \<and> sv_options sv' = sv_options sv \<and>
         sv_served sv' = sv_served sv + of_nat (length calls) \<and>
         list_all (\<lambda>(q, _). length (req_note q) \<le> max_note_bytes (co_limits (sv_options sv))) calls"
  using assms
proof (induction rule: served.induct)
  case (served_call calls sv1 n s r sv2 s' q out)
  have ap: "apply_request jops q (sv_engine sv1) = (out, sv_engine sv2)" "sv_options sv2 = sv_options sv1"
    "sv_served sv2 = sv_served sv1 + 1" "length (req_note q) \<le> max_note_bytes (co_limits (sv_options sv1))"
  proof -
    have "sv2 = sv1\<lparr>sv_engine := sv_engine sv2, sv_served := sv_served sv1 + 1\<rparr>" using served_call(5) by (simp add: turn_calls_def)
    then show "sv_options sv2 = sv_options sv1" "sv_served sv2 = sv_served sv1 + 1"
      by (metis server.ext_inject server.surjective server.update_convs(1) server.update_convs(8))+
  qed (use served_call(5) in \<open>simp_all add: turn_calls_def\<close>)
  show ?case using served_call.IH ap run_step [OF _ step_apply [OF ap(1)]] by auto
qed (auto simp: run_start dest: turn_frame)

text \<open>Every turn of every connection is one of the two kinds.\<close>

lemma turn_served:
  assumes "served jops sv calls sv1" "serve_turn jops n sv1 s = Some r" "sk_valid s" "server_payload sv \<le> 0xFFFFFFFF"
    "max_note_bytes (co_limits (sv_options sv)) \<le> 4096" "r = Inl (sv2, s') \<or> r = Inr (m, sv2, s')"
  shows "\<exists>calls'. served jops sv (calls @ calls') sv2 \<and> length calls' \<le> 1 \<and> (s' = s\<lparr>sk_net := sk_net s'\<rparr> \<or> r = Inl (sv2, s'))"
proof -
  have o: "sv_options sv1 = sv_options sv" using served_run [OF assms(1)] by simp
  have b: "server_payload sv1 \<le> 0xFFFFFFFF" "max_note_bytes (co_limits (sv_options sv1)) \<le> 4096" using assms(4,5) o by simp_all
  show ?thesis
  proof (cases rule: serve_turn_cases [OF assms(2,3) b, case_names idle call])
    case (idle sv' x)
    then show ?thesis using served_idle [OF assms(1), of n s sv2 s'] assms(2,3,6) by (intro exI [of _ "[]"]) auto
  next
    case (call q out sv' x response bytes)
    then have "sv' = sv2" "x = s'" using assms(6) by auto
    then show ?thesis
      using served_call [OF assms(1,2,3), of sv2 s' q out] call(1,2,7) by (intro exI [of _ "[(q, out)]"]) auto
  qed
qed


subsection \<open>Admission\<close>

definition numbered :: "u32 \<Rightarrow> u32 list \<Rightarrow> bool" where
  "numbered first xs \<longleftrightarrow> xs = map (\<lambda>i. first + of_nat i) [0..<length xs]"

lemma numbered_snoc: "numbered first xs \<Longrightarrow> numbered first (xs @ [first + of_nat (length xs)])"
  by (simp add: numbered_def)

text \<open>What the loop has done since it began in \<open>sv\<close>.\<close>

definition sessions_started :: "'j server \<Rightarrow> u32 list \<Rightarrow> 'j server \<Rightarrow> bool" where
  "sessions_started sv started sv' \<longleftrightarrow>
     numbered (sv_next_session sv) started \<and> sv_next_session sv' = sv_next_session sv + of_nat (length started) \<and>
     sv_accepted sv' = sv_accepted sv + of_nat (length started) \<and> sv_workers sv' = sv_workers sv + length started \<and>
     (started \<noteq> [] \<longrightarrow> sv_workers sv' \<le> co_max_connections (sv_options sv)) \<and>
     sv_options sv' = sv_options sv \<and> sv_engine sv' = sv_engine sv \<and> sv_served sv' = sv_served sv"

lemma accept_turn_admits:
  assumes "accept_turn arrival sv1 = Some turn" "sessions_started sv started sv1"
  shows "case turn of Inl sv2 \<Rightarrow> sessions_started sv started sv2
         | Inr (session, sv2) \<Rightarrow> sessions_started sv (case session of None \<Rightarrow> started | Some x \<Rightarrow> started @ [x]) sv2"
  using assms
  by (auto simp: accept_turn_def admit_connection_def sessions_started_def numbered_snoc Let_def
      split: if_splits Option.bind_splits prod.splits)

lemma accept_loop_admits:
  assumes "accept_loop arrivals n started sv1 = Some y" "sessions_started sv started sv1"
  shows "sessions_started sv (fst y) (snd y)"
proof -
  let ?P = "\<lambda>arrivals n started sv1 y. sessions_started sv started sv1 \<longrightarrow> sessions_started sv (fst y) (snd y)"
  have "?P arrivals n started sv1 y"
  proof (rule accept_loop.raw_induct [where P="?P", OF _ assms(1)])
    fix f arrivals n started sv1 y
    assume ih: "\<And>arrivals n started sv1 y. f arrivals n started sv1 = Some y \<Longrightarrow> ?P arrivals n started sv1 y"
      and eq: "Option.bind (accept_turn (arrivals n) sv1) (\<lambda>turn.
        case turn of Inl sv' \<Rightarrow> Some (started, sv')
        | Inr (session, sv') \<Rightarrow> f arrivals (Suc n) (case session of None \<Rightarrow> started | Some x \<Rightarrow> started @ [x]) sv') = Some y"
    obtain turn where t: "accept_turn (arrivals n) sv1 = Some turn" using eq by (cases "accept_turn (arrivals n) sv1") auto
    show "?P arrivals n started sv1 y"
    proof
      assume "sessions_started sv started sv1"
      note a = accept_turn_admits [OF t this]
      show "sessions_started sv (fst y) (snd y)"
      proof (cases turn)
        case (Inl x)
        then show ?thesis using a eq t by auto
      next
        case (Inr r)
        obtain session sv2 where "r = (session, sv2)" by fastforce
        then show ?thesis using a eq t Inr ih by simp
      qed
    qed
  qed
  then show ?thesis using assms(2) by blast
qed

text \<open>C27: admission is bounded. However many connections arrive, the accept loop of a started server starts at most
  \<open>max_connections\<close> sessions in all, numbered consecutively from one and each counted as accepted, and touches
  neither the engine nor the count of served requests. A connection that has ended does not make room for another.\<close>

theorem admissions_are_bounded:
  assumes "server_start (make_server e options w) = (success, sv)" "accept_loop arrivals n [] sv = Some (started, sv')"
  shows "length started \<le> co_max_connections (clamp_options options) \<and> sv_workers sv' = length started \<and>
         started = map (\<lambda>i. 1 + of_nat i) [0..<length started] \<and> sv_accepted sv' = of_nat (length started) \<and> sv_engine sv' = e \<and>
         sv_served sv' = 0"
proof -
  have sv: "sv_workers sv = 0" "sv_options sv = clamp_options options" "sv_next_session sv = 1" "sv_accepted sv = 0" "sv_engine sv = e" "sv_served sv = 0"
    using assms(1) by (auto simp: server_start_def make_server_def Let_def split: prod.splits if_splits)
  have start: "sessions_started sv [] sv" by (simp add: sessions_started_def numbered_def)
  show ?thesis
    using accept_loop_admits [OF assms(2) start] by (cases "started = []") (auto simp: sessions_started_def numbered_def sv)
qed

subsection \<open>Shutdown\<close>

lemma turn_progress:
  assumes "serve_turn jops n sv s = Some (Inr (m, sv', s'))" "sk_valid s" "server_payload sv \<le> 0xFFFFFFFF"
    "max_note_bytes (co_limits (sv_options sv)) \<le> 4096"
  shows "length (nt_in (sk_net s')) < length (nt_in (sk_net s)) \<and> sk_valid s' \<and> sv_options sv' = sv_options sv \<and>
         (\<exists>taken bytes. net_after (sk_net s) (sk_net s') taken bytes)"
proof (cases rule: serve_turn_cases [OF assms, case_names idle call])
  case (call q out sv'' x response bytes)
  then have e: "sv'' = sv'" "x = s'" by auto
  obtain bs rest where bs: "encode_frame Request (encode_request_body q) = Inr bs" "nt_in (sk_net s) = bs @ rest" "nt_in (sk_net s') = rest"
    using call(2) e by (auto simp: turn_calls_def)
  have "length bs > 0" using header_of_frame(1) [OF bs(1) order_refl] by simp
  moreover have "sk_valid s'" using call(7) e assms(2) by (metis Socket.select_convs(1) Socket.surjective Socket.update_convs(2))
  moreover have "sv' = sv\<lparr>sv_engine := sv_engine sv', sv_served := sv_served sv + 1\<rparr>" using call(2) e by (simp add: turn_calls_def)
  then have "sv_options sv' = sv_options sv"
    by (metis server.ext_inject server.surjective server.update_convs(1) server.update_convs(8))
  ultimately show ?thesis using bs(2,3) call(8) e by auto
qed simp

lemma serve_turn_returns:
  assumes "lively (sk_net s)" "stops_by N (sk_net s)" "sk_valid s" "server_payload sv \<le> 0xFFFFFFFF"
  shows "serve_turn jops n sv s \<noteq> None"
proof -
  obtain st msg closed s1 where rf: "recv_frame True (server_payload sv) s = Some (st, msg, closed, s1)"
    using recv_frame_returns [OF assms(1,2), of "server_payload sv"] by (metis not_None_eq prod_cases4)
  obtain bs where "net_after (sk_net s) (sk_net s1) bs []" using recv_frame_sound [OF rf assms(3,4)] by blast
  then have "lively (sk_net s1)" "stops_by N (sk_net s1)" using net_after_lively assms(1,2) by blast+
  then have again: "(send_frame True ty p s1 = None) = False" for ty p using send_frame_returns by blast
  show ?thesis
    by (auto simp: serve_turn_def rf again answer_refusal_def Let_def encode_response_message_def
        split: Option.bind_splits sum.splits prod.splits option.splits)
qed

lemma serve_loop_returns:
  assumes "lively (sk_net s)" "stops_by N (sk_net s)" "sk_valid s" "server_payload sv \<le> 0xFFFFFFFF"
    "max_note_bytes (co_limits (sv_options sv)) \<le> 4096"
  shows "serve_loop jops n sv s \<noteq> None"
  using assms
proof (induction "length (nt_in (sk_net s))" arbitrary: n sv s rule: less_induct)
  case less
  obtain turn where t: "serve_turn jops n sv s = Some turn" using serve_turn_returns [OF less.prems(1-4)] by blast
  show ?case
  proof (cases turn)
    case (Inr v)
    then obtain m sv1 s1 where v: "turn = Inr (m, sv1, s1)" by (cases v) auto
    note p = turn_progress [OF t [unfolded v] less.prems(3-5)]
    then have "lively (sk_net s1)" "stops_by N (sk_net s1)" using net_after_lively less.prems(1,2) by blast+
    then have "serve_loop jops m sv1 s1 \<noteq> None" using less.hyps [of s1 sv1 m] p less.prems(4,5) by simp
    then show ?thesis by (subst serve_loop.simps) (simp add: t v)
  qed (subst serve_loop.simps, simp add: t)
qed

lemma socket_same: "s' = s\<lparr>sk_net := sk_net s'\<rparr> \<Longrightarrow> sk_valid s' = sk_valid s"
  by (metis Socket.select_convs(1) Socket.surjective Socket.update_convs(2))

lemma serve_hello_net:
  assumes "serve_hello session sv s = Some (True, sv1, s1)" "sk_valid s" "server_payload sv \<le> 0xFFFFFFFF"
  shows "sv1 = sv \<and> sk_valid s1 \<and> (\<exists>taken bytes. net_after (sk_net s) (sk_net s1) taken bytes)"
proof -
  obtain st msg closed s0 where rf: "recv_frame True (server_payload sv) s = Some (st, msg, closed, s0)"
    using assms(1) by (auto simp: serve_hello_def split: Option.bind_splits)
  obtain bs where bs: "net_after (sk_net s) (sk_net s0) bs []" "s0 = s\<lparr>sk_net := sk_net s0\<rparr>"
    using recv_frame_sound [OF rf assms(2,3)] by blast
  have v0: "sk_valid s0" using socket_same [OF bs(2)] assms(2) by simp
  obtain ack st2 where sf: "send_frame True HelloAck ack s0 = Some (st2, s1)" "sv1 = sv"
    using assms(1) rf
    by (auto simp: serve_hello_def Let_def split: Option.bind_splits if_splits option.splits sum.splits prod.splits)
  obtain out where "net_after (sk_net s0) (sk_net s1) [] out" "s1 = s0\<lparr>sk_net := sk_net s1\<rparr>"
    using send_frame_sound [OF sf(1) v0] by blast
  then show ?thesis using net_after_trans [OF bs(1), of "sk_net s1" "[]" out] socket_same v0 sf(2) by blast
qed

lemma serve_hello_returns:
  assumes "lively (sk_net s)" "stops_by N (sk_net s)" "sk_valid s" "server_payload sv \<le> 0xFFFFFFFF"
  shows "serve_hello session sv s \<noteq> None"
proof -
  obtain st msg closed s1 where rf: "recv_frame True (server_payload sv) s = Some (st, msg, closed, s1)"
    using recv_frame_returns [OF assms(1,2), of "server_payload sv"] by (metis not_None_eq prod_cases4)
  obtain bs where "net_after (sk_net s) (sk_net s1) bs []" using recv_frame_sound [OF rf assms(3,4)] by blast
  then have "lively (sk_net s1)" "stops_by N (sk_net s1)" using net_after_lively assms(1,2) by blast+
  then have again: "(send_frame True ty p s1 = None) = False" for ty p using send_frame_returns by blast
  show ?thesis
    by (auto simp: serve_hello_def rf again Let_def split: Option.bind_splits sum.splits prod.splits option.splits)
qed

lemma accept_turn_listener:
  assumes "accept_turn arrival sv = Some (Inr (session, sv'))" "stops_by N (ls_net (sv_listener sv))"
  shows "stops_by N (ls_net (sv_listener sv')) \<and> nt_clock (ls_net (sv_listener sv)) < nt_clock (ls_net (sv_listener sv')) \<and>
         nt_clock (ls_net (sv_listener sv)) < N"
proof -
  have run: "\<not> net_stopping (ls_net (sv_listener sv))" using assms(1) by (auto simp: accept_turn_def)
  then obtain st w' where l: "listener_accept (ls_net (sv_listener sv)) = Some (st, False, w')" "ls_net (sv_listener sv') = w'"
    using assms(1)
    by (auto simp: accept_turn_def accept_call_def admit_connection_def Let_def split: if_splits Option.bind_splits)
  have "net_after (ls_net (sv_listener sv)) w' [] []" "nt_clock (ls_net (sv_listener sv)) < nt_clock w'"
    using listener_accept_after [OF l(1)] by simp_all
  then show ?thesis
    using net_after_lively assms(2) l(2) run by (metis net_stopping_def not_less stops_by_def)
qed

lemma accept_loop_returns:
  assumes "stops_by N (ls_net (sv_listener sv))" "\<forall>i. send_frame False Bye [] (arrivals i) \<noteq> None"
  shows "accept_loop arrivals n started sv \<noteq> None"
  using assms(1)
proof (induction "N - nt_clock (ls_net (sv_listener sv))" arbitrary: n started sv rule: less_induct)
  case less
  have bye: "(send_frame False Bye [] (arrivals i) = None) = False" for i using assms(2) by simp
  have "(listener_accept (ls_net (sv_listener sv)) = None) = False" using listener_accept_returns [OF less.prems] by simp
  then obtain turn where t: "accept_turn (arrivals n) sv = Some turn"
    by (cases "accept_turn (arrivals n) sv")
      (auto simp: accept_turn_def accept_call_def admit_connection_def bye Let_def split: if_splits Option.bind_splits)
  show ?case
  proof (cases turn)
    case (Inr r)
    obtain session sv2 where r: "r = (session, sv2)" by fastforce
    note l = accept_turn_listener [OF t [unfolded Inr r] less.prems]
    then have "N - nt_clock (ls_net (sv_listener sv2)) < N - nt_clock (ls_net (sv_listener sv))" by (simp add: diff_less_mono2)
    then have "accept_loop arrivals (Suc n) x sv2 \<noteq> None" for x using less.hyps [of sv2] l by simp
    then show ?thesis by (subst accept_loop.simps) (simp add: t Inr r)
  qed (subst accept_loop.simps, simp add: t)
qed


text \<open>The listener's flag is never cleared: a server that is stopped and started again accepts nobody.\<close>

definition net_told :: "net \<Rightarrow> bool" where
  "net_told w \<longleftrightarrow> (\<forall>n\<ge>nt_clock w. nt_stop w n)"

lemma net_told_ok: "net_told w \<Longrightarrow> net_told (snd (net_ok w))"
  by (simp add: net_told_def net_ok_def net_call_def)

lemma net_told_call: "net_told w \<Longrightarrow> net_told (snd (net_call w))"
  by (simp add: net_told_def net_call_def)

lemma bind_loopback_told:
  assumes "bind_loopback l = (st, l')" "net_told (ls_net l)"
  shows "net_told (ls_net l')"
  using assms(1) net_told_ok [OF assms(2)] net_told_ok net_told_call assms(2)
  by (auto simp: bind_loopback_def split: prod.splits if_splits net_event.splits) (metis snd_conv)+

lemma restarted_server_accepts_nobody:
  assumes "sv_running sv" "server_stop sv = (st, sv1)" "server_start sv1 = (success, sv2)"
  shows "accept_loop arrivals n [] sv2 = Some ([], sv2)"
proof -
  have "net_told (ls_net (sv_listener sv1))" "\<not> sv_running sv1"
    using assms(1,2) by (auto simp: server_stop_def listener_close_def stop_accepting_def net_told_def)
  then have "net_told (ls_net (sv_listener sv2))"
    using assms(3) bind_loopback_told [of "sv_listener sv1"] by (auto simp: server_start_def Let_def split: prod.splits if_splits)
  then have "net_stopping (ls_net (sv_listener sv2))" by (simp add: net_told_def net_stopping_def)
  then show ?thesis by (subst accept_loop.simps) (simp add: accept_turn_def)
qed


definition demo_options :: CoordinatorOptions where
  "demo_options = \<lparr>co_host = ''127.0.0.1'', co_port = 0, co_limits = default_limits, co_server_label = ''creditfabric-coordinator'',
     co_max_requests = 0, co_max_connections = 64\<rparr>"

definition demo_server :: "InMemoryJournal server" where
  "demo_server = make_server demo_engine demo_options (demo_net [])"

lemma demo_server_sel [simp]:
  "sv_engine demo_server = demo_engine" "co_limits (sv_options demo_server) = default_limits" "sv_served demo_server = 0"
  "co_max_requests (sv_options demo_server) = 0"
  by (simp_all add: demo_server_def make_server_def clamp_options_def demo_options_def default_limits_def)

text \<open>A listener that is ready at every call until it is told to stop.\<close>

definition ready_net :: net where
  "ready_net = \<lparr>nt_in = [], nt_eof = False, nt_out = [], nt_shut = False, nt_event = (\<lambda>_. NetReady 4000),
     nt_stop = (\<lambda>n. 400 < n), nt_clock = 0\<rparr>"

lemma prompt_bye: "send_frame False Bye [] (prompt_socket []) \<noteq> None"
  using prompt_send [of "prompt_socket []" "[]" False Bye] by auto

theorem admissions_are_bounded_witness:
  "\<exists>sv started sv'. server_start (make_server demo_engine demo_options ready_net) = (success, sv) \<and>
     accept_loop (\<lambda>_. prompt_socket []) 0 [] sv = Some (started, sv') \<and> length started \<le> 64 \<and> sv_engine sv' = demo_engine"
proof -
  obtain sv where sv: "server_start (make_server demo_engine demo_options ready_net) = (success, sv)" "nt_stop (ls_net (sv_listener sv)) = (\<lambda>n. 400 < n)"
    by (simp add: server_start_def make_server_def bind_loopback_def net_ok_def net_call_def ready_net_def Let_def)
  have "stops_by 401 (ls_net (sv_listener sv))" using sv(2) by (simp add: stops_by_def)
  then have "accept_loop (\<lambda>_. prompt_socket []) 0 [] sv \<noteq> None" by (rule accept_loop_returns) (use prompt_bye in simp)
  then obtain started sv' where l: "accept_loop (\<lambda>_. prompt_socket []) 0 [] sv = Some (started, sv')" by auto
  show ?thesis using admissions_are_bounded [OF sv(1) l] sv(1) l by (auto simp: clamp_options_def demo_options_def Let_def)
qed



end
