(* ===== verification/Client.thy ===== *)
theory Client
  imports Coordinator
begin

text \<open>
  The worker-side client (\<open>CoordinatorClient\<close> of \<open>include/creditfabric/coordinator.hpp\<close>, \<open>src/coordinator.cpp\<close>):
  connecting and the handshake, one exchange of a request for its response, and the operations built from it.
  The client owns no authority: it keeps a challenge, a sequence counter and the last authority vector it was
  told. Its waits do not poll a stop flag, so an operation that never gets an answer is \<open>None\<close>. The last part
  composes the client with the coordinator: the bytes one side wrote are the bytes the other reads.
\<close>

subsection \<open>Requests with defaults\<close>

definition default_request :: CreditRequest where
  "default_request =
     \<lparr>req_attempt = AttemptId zero_digest, req_op = Describe, req_sequence = 0, req_authority = unset_authority,
      req_presenter = \<lparr>inc_publisher = unset_id, inc_boot = unset_id, inc_id = unset_id\<rparr>, req_resource = unset_id,
      req_producer = unset_id, req_consumer = unset_id, req_grant = unset_id, req_target = unset_id, req_count = 0,
      req_new_capacity = 0, req_proof = zero_digest, req_expected_state = zero_digest, req_config = default_config,
      req_decision = NoDecision, req_fence_cause = UnknownState, req_note = ''''\<rparr>"

subsection \<open>The client\<close>

record ClientOptions =
  cl_host :: string
  cl_port :: u16
  cl_domain :: DomainId
  cl_publisher :: PublisherId
  cl_boot :: BootId
  cl_label :: string
  cl_max_payload :: nat

record ClientStats =
  cs_requests_sent :: u64
  cs_reconciliations :: u64
  cs_refusals :: u64
  cs_duplicates :: u64
  cs_retries :: u64
  cs_reconnects :: u64

record CoordinatorClient =
  cc_options :: ClientOptions
  cc_socket :: Socket
  cc_incarnation :: Incarnation
  cc_challenge :: Digest128
  cc_session :: u32
  cc_next_sequence :: u64
  cc_authority :: AuthorityVector
  cc_attempts :: AttemptIdGenerator
  cc_stats :: ClientStats
  cc_connected :: bool
  cc_placed :: bool

definition make_client :: "ClientOptions \<Rightarrow> AttemptIdGenerator \<Rightarrow> net \<Rightarrow> CoordinatorClient" where
  "make_client options attempts w =
     \<lparr>cc_options = options, cc_socket = closed_socket w,
      cc_incarnation = make_incarnation (cl_publisher options) (cl_boot options), cc_challenge = zero_digest,
      cc_session = 0, cc_next_sequence = 1, cc_authority = unset_authority, cc_attempts = attempts,
      cc_stats = \<lparr>cs_requests_sent = 0, cs_reconciliations = 0, cs_refusals = 0, cs_duplicates = 0, cs_retries = 0,
                  cs_reconnects = 0\<rparr>,
      cc_connected = False, cc_placed = False\<rparr>"

definition handshake :: "CoordinatorClient \<Rightarrow> (Status \<times> CoordinatorClient) option" where
  "handshake c =
     (case encode_hello \<lparr>hello_publisher = cl_publisher (cc_options c), hello_boot = cl_boot (cc_options c),
                         hello_label = take 64 (cl_label (cc_options c))\<rparr> of
        Inl st \<Rightarrow> Some (st, c)
      | Inr payload \<Rightarrow>
          Option.bind (send_frame False Hello payload (cc_socket c)) (\<lambda>(st1, s1).
            if \<not> status_ok st1 then Some (st1, c\<lparr>cc_socket := s1\<rparr>)
            else Option.bind (recv_frame False (cl_max_payload (cc_options c)) s1) (\<lambda>(st2, msg, closed, s2).
              let c2 = c\<lparr>cc_socket := s2\<rparr> in
              if \<not> status_ok st2 then Some (st2, c2)
              else case msg of
                None \<Rightarrow> Some (refused TransportError 20, c2)
              | Some (type, body) \<Rightarrow>
                  if closed \<or> type \<noteq> HelloAck then Some (refused TransportError 20, c2)
                  else case decode_hello_ack body of
                    Inl st3 \<Rightarrow> Some (st3, c2)
                  | Inr ack \<Rightarrow>
                      Some (success, c2\<lparr>cc_challenge := ack_challenge ack, cc_session := ack_session ack,
                                        cc_connected := True, cc_placed := False\<rparr>))))"

definition client_close :: "CoordinatorClient \<Rightarrow> CoordinatorClient option" where
  "client_close c =
     (if sk_valid (cc_socket c)
      then Option.bind (send_frame False Bye [] (cc_socket c)) (\<lambda>(_, s1).
        Some (c\<lparr>cc_socket := snd (socket_close s1), cc_connected := False\<rparr>))
      else Some (c\<lparr>cc_connected := False\<rparr>))"

text \<open>The connection to be made is a parameter.\<close>

definition client_connect :: "net \<Rightarrow> CoordinatorClient \<Rightarrow> (Status \<times> CoordinatorClient) option" where
  "client_connect w c =
     Option.bind (client_close c) (\<lambda>c0.
       case connect_to w of
         (opened, s) \<Rightarrow>
           if \<not> status_ok opened then Some (opened, c0)
           else Option.bind (handshake (c0\<lparr>cc_socket := s\<rparr>)) (\<lambda>(st, c1).
             if \<not> status_ok st then Option.bind (client_close c1) (\<lambda>c2. Some (st, c2))
             else Some (st, c1)))"

text \<open>\<open>decode_response_message\<close> writes each field of its out-parameter as it reads it, so a response that fails
  half way leaves the fields before the failure written. A step reads from the buffer and writes one field.\<close>

type_synonym store = "ByteReader \<Rightarrow> CreditOutcome \<Rightarrow> CreditOutcome \<times> ByteReader option"

definition store_read :: "'a reading \<Rightarrow> ('a \<Rightarrow> CreditOutcome \<Rightarrow> CreditOutcome) \<Rightarrow> store" where
  "store_read get put r x = (case get r of (None, _) \<Rightarrow> (x, None) | (Some v, r') \<Rightarrow> (put v x, Some r'))"

definition store_view :: "'a reading \<Rightarrow> ('a \<Rightarrow> CreditView \<Rightarrow> CreditView) \<Rightarrow> store" where
  "store_view get put = store_read get (\<lambda>v x. x\<lparr>out_view := put v (out_view x)\<rparr>)"

definition store_status :: store where
  "store_status r x =
     (case rd_bind rd_u16 (\<lambda>why. rd_bind rd_u64 (\<lambda>info. rd_return (why, info))) r of
        (None, _) \<Rightarrow> (x, None)
      | (Some (why, info), r') \<Rightarrow>
          if \<not> is_valid_reason why then (x\<lparr>out_status := (out_status x)\<lparr>detail := info\<rparr>\<rparr>, None)
          else (x\<lparr>out_status := \<lparr>reason = reason_of_value (unat why), detail = info\<rparr>\<rparr>, Some r'))"

definition store_op :: store where
  "store_op r x =
     (case rd_u8 r of
        (None, _) \<Rightarrow> (x, None)
      | (Some oper, r') \<Rightarrow>
          if \<not> is_valid_op oper then (x, None) else (x\<lparr>out_op := op_of_value (unat oper)\<rparr>, Some r'))"

definition store_authority :: store where
  "store_authority r x =
     (case decode_authority r of (Inl _, _) \<Rightarrow> (x, None) | (Inr a, r') \<Rightarrow> (x\<lparr>out_authority := a\<rparr>, Some r'))"

fun run_stores :: "store list \<Rightarrow> ByteReader \<Rightarrow> CreditOutcome \<Rightarrow> CreditOutcome" where
  "run_stores [] r x = x"
| "run_stores (f # fs) r x = (case f r x of (x', None) \<Rightarrow> x' | (x', Some r') \<Rightarrow> run_stores fs r' x')"

text \<open>\<open>decode_outcome_body\<close> as the writes it makes; \<open>decode_view\<close> ends by copying \<open>stale\<close> to \<open>quarantined\<close>.\<close>

definition outcome_stores :: "store list" where
  "outcome_stores =
     [store_status, store_op,
      store_read rd_u64 (\<lambda>v x. x\<lparr>out_sequence := v\<rparr>), store_read rd_boolean (\<lambda>v x. x\<lparr>out_applied := v\<rparr>),
      store_read rd_boolean (\<lambda>v x. x\<lparr>out_duplicate := v\<rparr>), store_read rd_boolean (\<lambda>v x. x\<lparr>out_decided := v\<rparr>),
      store_authority,
      store_view rd_u64 (\<lambda>v w. w\<lparr>v_capacity := v\<rparr>), store_view rd_u64 (\<lambda>v w. w\<lparr>v_issued := v\<rparr>),
      store_view rd_u64 (\<lambda>v w. w\<lparr>v_consumed := v\<rparr>), store_view rd_u64 (\<lambda>v w. w\<lparr>v_returned := v\<rparr>),
      store_view rd_u64 (\<lambda>v w. w\<lparr>v_stale := v\<rparr>), store_view rd_u64 (\<lambda>v w. w\<lparr>v_spent := v\<rparr>),
      store_view rd_u64 (\<lambda>v w. w\<lparr>v_protected := v\<rparr>), store_view rd_u64 (\<lambda>v w. w\<lparr>v_in_flight := v\<rparr>),
      store_view rd_u64 (\<lambda>v w. w\<lparr>v_outstanding := v\<rparr>), store_view rd_u64 (\<lambda>v w. w\<lparr>v_available := v\<rparr>),
      store_view rd_boolean (\<lambda>v w. w\<lparr>v_closed := v, v_quarantined := v_stale w\<rparr>),
      store_read rd_u64 (\<lambda>v x. x\<lparr>out_state_digest := Digest128 v (dg_hi (out_state_digest x))\<rparr>),
      store_read rd_u64 (\<lambda>v x. x\<lparr>out_state_digest := Digest128 (dg_lo (out_state_digest x)) v\<rparr>),
      store_read rd_u64 (\<lambda>v x. x\<lparr>out_ambiguous_pending := v\<rparr>)]"

definition written_outcome :: "bytes \<Rightarrow> CreditOutcome \<Rightarrow> CreditOutcome" where
  "written_outcome bs x = run_stores outcome_stores (make_reader bs) x"

text \<open>The writes and the decoder agree: after a successful decoding every field has been written.\<close>

lemma dec_bind_Inr: "dec_bind d f r = (Inr x, r') \<longleftrightarrow> (\<exists>a r1. d r = (Inr a, r1) \<and> f a r1 = (Inr x, r'))"
  by (auto simp: dec_bind_def split: prod.splits sum.splits)

lemma dec_read_Inr: "dec_read why m r = (Inr x, r') \<longleftrightarrow> m r = (Some x, r')"
  by (auto simp: dec_read_def split: prod.splits option.splits)

lemma rd_bind_Some: "rd_bind m f r = (Some x, r') \<longleftrightarrow> (\<exists>a r1. m r = (Some a, r1) \<and> f a r1 = (Some x, r'))"
  by (auto simp: rd_bind_def split: prod.splits option.splits)

lemma dec_require_Inr: "dec_require b st r = (Inr x, r') \<longleftrightarrow> b \<and> r' = r"
  by (auto simp: dec_require_def dec_return_def dec_fail_def)

lemma written_outcome_complete:
  assumes "decode_response_message bs = Inr x"
  shows "written_outcome bs x0 = x"
proof -
  obtain r where "decode_outcome_body (make_reader bs) = (Inr x, r)"
    using assms by (auto simp: decode_response_message_def dec_bind_def dec_done_def dec_return_def split: sum.splits prod.splits if_splits)
  then show ?thesis
    unfolding decode_outcome_body_def decode_view_def rd_digest_def
    by (clarsimp simp: dec_bind_Inr dec_read_Inr rd_bind_Some dec_require_Inr dec_return_def rd_return_def)
      (simp add: written_outcome_def outcome_stores_def store_status_def store_op_def store_read_def store_view_def
        store_authority_def rd_bind_def rd_return_def)
qed

subsection \<open>Requests\<close>

definition note_response :: "CreditRequest \<Rightarrow> CreditOutcome \<Rightarrow> CoordinatorClient \<Rightarrow> CoordinatorClient" where
  "note_response request outcome c =
     (let stats = cc_stats c;
          stats1 = (if \<not> out_ok outcome then stats\<lparr>cs_refusals := cs_refusals stats + 1\<rparr> else stats);
          stats2 = (if out_duplicate outcome then stats1\<lparr>cs_duplicates := cs_duplicates stats1 + 1\<rparr> else stats1);
          c1 = c\<lparr>cc_stats := stats2\<rparr>;
          c2 = (if out_decided outcome then c1\<lparr>cc_next_sequence := req_sequence request + 1\<rparr> else c1);
          heard = out_authority outcome; known = cc_authority c2 in
      if is_set (av_account heard)
      then c2\<lparr>cc_authority :=
               \<lparr>av_domain = av_domain heard, av_account = av_account heard,
                av_epoch = (if is_set (av_epoch heard) then av_epoch heard else av_epoch known),
                av_generation = (if is_set (av_generation heard) then av_generation heard else av_generation known),
                av_incarnation = inc_id (cc_incarnation c2)\<rparr>\<rparr>
      else c2)"

definition exchange :: "CreditRequest \<Rightarrow> CoordinatorClient \<Rightarrow> (CreditOutcome \<times> CoordinatorClient) option" where
  "exchange request c =
     (let outcome = default_outcome\<lparr>out_op := req_op request, out_sequence := req_sequence request,
                                    out_authority := req_authority request\<rparr>;
          failed = (\<lambda>st c'. Some (outcome\<lparr>out_status := st\<rparr>, c'\<lparr>cc_connected := False\<rparr>)) in
      if \<not> cc_connected c then Some (outcome\<lparr>out_status := refused TransportError 21\<rparr>, c)
      else case encode_request_message request of
        Inl st \<Rightarrow> Some (outcome\<lparr>out_status := st\<rparr>, c)
      | Inr payload \<Rightarrow>
          Option.bind (send_frame False Request payload (cc_socket c)) (\<lambda>(sent, s1).
            let c1 = c\<lparr>cc_socket := s1\<rparr> in
            if \<not> status_ok sent then failed sent c1
            else
              let c2 = c1\<lparr>cc_stats := (cc_stats c1)\<lparr>cs_requests_sent := cs_requests_sent (cc_stats c1) + 1\<rparr>\<rparr> in
              Option.bind (recv_frame False (cl_max_payload (cc_options c)) s1) (\<lambda>(st, msg, closed, s2).
                let c3 = c2\<lparr>cc_socket := s2\<rparr>;
                    (type, body) = (case msg of None \<Rightarrow> (Bye, []) | Some m \<Rightarrow> m) in
                if \<not> status_ok st \<or> closed \<or> type \<noteq> Response
                then failed (if status_ok st then refused TransportError 22 else st) c3
                else case decode_response_message body of
                  Inl bad \<Rightarrow> Some ((written_outcome body outcome)\<lparr>out_status := bad\<rparr>, c3\<lparr>cc_connected := False\<rparr>)
                | Inr heard \<Rightarrow> Some (heard, note_response request heard c3))))"

definition draw_attempt :: "CoordinatorClient \<Rightarrow> AttemptId \<times> CoordinatorClient" where
  "draw_attempt c = (case attempt_next (cc_attempts c) of (i, g) \<Rightarrow> (i, c\<lparr>cc_attempts := g\<rparr>))"

definition client_describe :: "AccountId \<Rightarrow> CoordinatorClient \<Rightarrow> (CreditOutcome \<times> CoordinatorClient) option" where
  "client_describe account c =
     (case draw_attempt c of
        (attempt, c1) \<Rightarrow>
          exchange (default_request\<lparr>req_op := Describe, req_sequence := cc_next_sequence c1, req_attempt := attempt,
             req_presenter := cc_incarnation c1,
             req_authority := unset_authority\<lparr>av_domain := cl_domain (cc_options c1), av_account := account,
                                              av_incarnation := inc_id (cc_incarnation c1)\<rparr>\<rparr>) c1)"

definition client_reconcile :: "AccountId \<Rightarrow> CoordinatorClient \<Rightarrow> (CreditOutcome \<times> CoordinatorClient) option" where
  "client_reconcile account c =
     Option.bind (client_describe account c) (\<lambda>(description, c1).
       if \<not> out_ok description then Some (description, c1)
       else
         let c2 = c1\<lparr>cc_next_sequence := out_sequence description + 1\<rparr>;
             authority = \<lparr>av_domain = cl_domain (cc_options c2), av_account = account,
                          av_epoch = av_epoch (out_authority description),
                          av_generation = av_generation (out_authority description),
                          av_incarnation = inc_id (cc_incarnation c2)\<rparr> in
         case draw_attempt c2 of
           (attempt, c3) \<Rightarrow>
             Option.bind
               (exchange (default_request\<lparr>req_op := Reconcile, req_sequence := cc_next_sequence c3, req_attempt := attempt,
                  req_presenter := cc_incarnation c3, req_authority := authority,
                  req_proof := challenge_compute (cc_challenge c3) (cc_incarnation c3) authority\<rparr>) c3)
               (\<lambda>(outcome, c4).
                 Some (outcome,
                   if out_ok outcome
                   then c4\<lparr>cc_authority := authority, cc_placed := True,
                           cc_stats := (cc_stats c4)\<lparr>cs_reconciliations := cs_reconciliations (cc_stats c4) + 1\<rparr>\<rparr>
                   else c4)))"

text \<open>\<open>submit\<close>: \<open>submit_open\<close> and \<open>submit_describe\<close> are its first two branches, \<open>place_client\<close> the description a
  freshly started client needs (\<open>Inl\<close> is the early return) and \<open>submit_revalidated\<close> the one retry.\<close>

definition submit_open :: "CreditRequest \<Rightarrow> CoordinatorClient \<Rightarrow> (CreditOutcome \<times> CoordinatorClient) option" where
  "submit_open request c =
     (let authority = \<lparr>av_domain = cfg_domain (req_config request), av_account = cfg_account (req_config request),
                       av_epoch = StrongId 1, av_generation = StrongId 1, av_incarnation = inc_id (cc_incarnation c)\<rparr> in
      exchange (request\<lparr>req_authority := authority, req_sequence := 1,
                        req_proof := challenge_compute (cc_challenge c) (cc_incarnation c) authority\<rparr>) c)"

definition submit_describe :: "CreditRequest \<Rightarrow> CoordinatorClient \<Rightarrow> (CreditOutcome \<times> CoordinatorClient) option" where
  "submit_describe request c =
     exchange (request\<lparr>req_sequence := cc_next_sequence c,
       req_authority := (req_authority request)\<lparr>av_domain := cl_domain (cc_options c),
                                                av_incarnation := inc_id (cc_incarnation c)\<rparr>\<rparr>) c"

definition place_client :: "AccountId \<Rightarrow> CoordinatorClient \<Rightarrow> ((CreditOutcome \<times> CoordinatorClient) + CoordinatorClient) option" where
  "place_client account c =
     (if \<not> cc_placed c \<or> \<not> is_set (av_account (cc_authority c)) \<or> av_account (cc_authority c) \<noteq> account
      then Option.bind (client_describe account c) (\<lambda>(description, c1).
        if \<not> out_ok description then Some (Inl (description, c1))
        else Some (Inr (c1\<lparr>cc_authority := (out_authority description)
                             \<lparr>av_domain := cl_domain (cc_options c1), av_incarnation := inc_id (cc_incarnation c1)\<rparr>,
               cc_next_sequence := (if out_sequence description + 1 > cc_next_sequence c1
                                    then out_sequence description + 1 else cc_next_sequence c1),
               cc_placed := True\<rparr>)))
      else Some (Inr c))"

definition needs_revalidation :: "CreditOutcome \<Rightarrow> bool" where
  "needs_revalidation outcome \<longleftrightarrow>
     reason (out_status outcome) \<in> {ReconciliationRequired, StaleAuthority, UnknownIncarnation}"

definition submit_revalidated :: "CreditRequest \<Rightarrow> CoordinatorClient \<Rightarrow> (CreditOutcome \<times> CoordinatorClient) option" where
  "submit_revalidated request c =
     Option.bind (client_reconcile (av_account (req_authority request)) c) (\<lambda>(revalidated, c1).
       if \<not> out_ok revalidated then Some (revalidated, c1)
       else case draw_attempt c1 of
         (attempt, c2) \<Rightarrow>
           exchange (request\<lparr>req_sequence := cc_next_sequence c2, req_authority := cc_authority c2, req_attempt := attempt\<rparr>)
             (c2\<lparr>cc_stats := (cc_stats c2)\<lparr>cs_retries := cs_retries (cc_stats c2) + 1\<rparr>\<rparr>))"

definition submit :: "CreditRequest \<Rightarrow> CoordinatorClient \<Rightarrow> (CreditOutcome \<times> CoordinatorClient) option" where
  "submit request0 c =
     (case draw_attempt c of
        (attempt, c1) \<Rightarrow>
          let request1 = request0\<lparr>req_presenter := cc_incarnation c, req_attempt := attempt\<rparr> in
          if req_op request1 = Open then submit_open request1 c1
          else if req_op request1 = Describe then submit_describe request1 c1
          else Option.bind (place_client (av_account (req_authority request1)) c1) (\<lambda>placed.
            case placed of
              Inl early \<Rightarrow> Some early
            | Inr c2 \<Rightarrow>
                let request2 = request1\<lparr>req_sequence := cc_next_sequence c2, req_authority := cc_authority c2\<rparr> in
                Option.bind (exchange request2 c2) (\<lambda>(outcome, c3).
                  if needs_revalidation outcome then submit_revalidated request2 c3 else Some (outcome, c3))))"

text \<open>The pause between attempts has no effect the model can see.\<close>

fun wait_attempts :: "nat \<Rightarrow> Status \<Rightarrow> net \<Rightarrow> Status \<times> net" where
  "wait_attempts 0 latest w = (latest, w)"
| "wait_attempts (Suc n) latest w =
     (case connect_to w of
        (st, s) \<Rightarrow> if status_ok st then (success, sk_net (snd (socket_close s))) else wait_attempts n st (sk_net s))"

definition wait_for_listener :: "nat \<Rightarrow> net \<Rightarrow> Status \<times> net" where
  "wait_for_listener max_attempts w = wait_attempts max_attempts (refused TransportError 30) w"

subsection \<open>A remote call is a call of the engine\<close>

text \<open>Every outcome of the engine survives the wire: its \<open>quarantined\<close> is the \<open>stale\<close> it is decoded from.\<close>

definition plain_view :: "CreditOutcome \<Rightarrow> bool" where
  "plain_view x \<longleftrightarrow> v_quarantined (out_view x) = v_stale (out_view x)"

lemma plain_account_view: "v_quarantined (account_view a) = v_stale (account_view a)"
  by (simp add: account_view_def compute_view_def fill_derived_def zero_view_def Let_def split: prod.splits if_splits)

lemma plain_updates [simp]:
  "plain_view (x\<lparr>out_status := s\<rparr>) = plain_view x" "plain_view (x\<lparr>out_applied := b\<rparr>) = plain_view x"
  "plain_view (x\<lparr>out_decided := b\<rparr>) = plain_view x" "plain_view (x\<lparr>out_duplicate := b\<rparr>) = plain_view x"
  "plain_view (x\<lparr>out_authority := au\<rparr>) = plain_view x" "plain_view (x\<lparr>out_state_digest := d\<rparr>) = plain_view x"
  "plain_view (x\<lparr>out_sequence := n\<rparr>) = plain_view x" "plain_view (x\<lparr>out_ambiguous_pending := n\<rparr>) = plain_view x"
  "plain_view (x\<lparr>out_view := account_view a\<rparr>)" "plain_view (initial_outcome q)"
  by (simp_all add: plain_view_def plain_account_view initial_outcome_def default_outcome_def zero_view_def)

lemma plain_helpers [simp]:
  "plain_view (refuse_outcome x r d) = plain_view x" "plain_view (decided_refusal x r d) = plain_view x"
  "plain_view (persist_failure x s) = plain_view x" "plain_view (bind_outcome a x) = plain_view x"
  "plain_view (duplicate_outcome a s x)"
  by (simp_all add: refuse_outcome_def decided_refusal_def persist_failure_def bind_outcome_def duplicate_outcome_def)

lemma commit_applied_plain: "plain_view (fst (commit_applied jops key q x backup subject a e))"
  by (simp add: commit_applied_def Let_def split: prod.splits)

lemma finish_decided_plain: "plain_view (fst (finish_decided jops key q x a e))"
  by (simp add: finish_decided_def Let_def split: prod.splits)

lemma create_account_plain: "plain_view x \<Longrightarrow> plain_view (fst (create_account_locked jops q x e))"
  by (simp add: create_account_locked_def Let_def split: prod.splits)

lemma decide_plain:
  assumes "plain_view x"
  shows "plain_view (fst (decide_data_locked jops key q x a e))" "plain_view (fst (decide_control_locked jops key q x a e))"
  using assms
  by (simp_all add: commit_applied_plain finish_decided_plain decide_data_locked_def decide_control_locked_def Let_def split: prod.splits option.splits control_step.splits)

lemma apply_plain: "plain_view (fst (apply_request jops q e))"
  by (simp add: apply_request_def apply_locked_def describe_locked_def Let_def decide_plain create_account_plain
      split: option.splits placement.splits)

text \<open>C29: whatever the engine answers can be sent. Every outcome of \<open>apply\<close>, refusals and failures included,
  has an encoding of at most 200 bytes, within the smallest payload bound in use, and the peer that decodes it
  gets exactly this outcome: no field is lost, in particular not \<open>quarantined\<close>, which the wire does not carry.\<close>

theorem outcomes_are_transmissible:
  "\<exists>bs. encode_response_message (fst (apply_request jops q e)) = Inr bs \<and> length bs \<le> 200 \<and>
     decode_response_message bs = Inr (fst (apply_request jops q e))"
  using apply_plain [of jops q e] length_outcome_body response_message_exact
  by (auto simp: plain_view_def encode_response_message_def)

lemma decode_of_frame:
  assumes "encode_frame ty p = Inr bs"
  shows "decode_frame (bs @ tail) 0xFFFFFFFF = Inr (frame_view ty p)"
proof -
  have small: "length p \<le> 0xFFFFFFFF" using assms by (auto simp: encode_frame_def Let_def split: if_splits)
  have "fv_consumed (frame_view ty p) = length bs"
    using header_of_frame(1) [OF assms small] by (simp add: frame_view_def kFrameOverheadBytes_def kFrameHeaderBytes_def kFrameTrailerBytes_def)
  then show ?thesis using decode_frame_exact [OF order_refl, of "bs @ tail" "frame_view ty p"] assms small by blast
qed

lemma frame_prefix_unique:
  assumes "encode_frame ty p = Inr bs" "encode_frame ty' p' = Inr bs'" "bs @ tail = bs' @ tail'"
  shows "ty' = ty \<and> p' = p \<and> bs' = bs \<and> tail' = tail"
proof -
  have "frame_view ty p = frame_view ty' p'"
    using decode_of_frame [OF assms(1), of tail] decode_of_frame [OF assms(2), of tail'] assms(3) by simp
  then have "ty' = ty" "p' = p" by (auto simp: frame_view_def)
  then show ?thesis using assms by simp
qed

lemma exchange_answered:
  assumes "exchange q c = Some (out, c')" "cc_connected c" "cc_connected c'" "sk_valid (cc_socket c)" "cl_max_payload (cc_options c) \<le> 0xFFFFFFFF"
  obtains asked answer rest where "encode_frame Request (encode_request_body q) = Inr asked"
    "nt_out (sk_net (cc_socket c')) = nt_out (sk_net (cc_socket c)) @ asked"
    "encode_frame Response (encode_outcome_body out) = Inr answer"
    "nt_in (sk_net (cc_socket c)) = answer @ rest" "nt_in (sk_net (cc_socket c')) = rest" "plain_view out"
proof -
  obtain sent s1 where sf: "send_frame False Request (encode_request_body q) (cc_socket c) = Some (sent, s1)"
    using assms(1,2) by (auto simp: exchange_def Let_def encode_request_message_def split: Option.bind_splits)
  obtain asked where a: "net_after (sk_net (cc_socket c)) (sk_net s1) [] asked" "s1 = (cc_socket c)\<lparr>sk_net := sk_net s1\<rparr>"
    "status_ok sent \<longrightarrow> encode_frame Request (encode_request_body q) = Inr asked \<and> sent = success"
    using send_frame_sound [OF sf assms(4)] by blast
  have ok: "status_ok sent" using assms(1,2,3) sf
    by (auto simp: exchange_def Let_def encode_request_message_def split: Option.bind_splits if_splits)
  obtain st msg closed s2 where rf: "recv_frame False (cl_max_payload (cc_options c)) s1 = Some (st, msg, closed, s2)"
    using assms(1,2) sf ok by (auto simp: exchange_def Let_def encode_request_message_def split: Option.bind_splits)
  have v1: "sk_valid s1" using socket_same [OF a(2)] assms(4) by simp
  obtain bs where b: "net_after (sk_net s1) (sk_net s2) bs []" "s2 = s1\<lparr>sk_net := sk_net s2\<rparr>"
    "case msg of Some (ty, p) \<Rightarrow> st = success \<and> \<not> closed \<and> encode_frame ty p = Inr bs \<and> length p \<le> cl_max_payload (cc_options c)
     | None \<Rightarrow> status_ok st \<longleftrightarrow> closed"
    using recv_frame_sound [OF rf v1 assms(5)] by blast
  obtain p where m: "msg = Some (Response, p)" "decode_response_message p = Inr out" "cc_socket c' = s2"
    using assms(1,2,3) sf ok rf
    by (auto simp: exchange_def Let_def encode_request_message_def note_response_def split: option.splits if_splits sum.splits prod.splits)
  have "p = encode_outcome_body out" "plain_view out"
    using m(2) response_message_exact by (auto simp: encode_response_message_def plain_view_def)
  moreover have "encode_frame Response p = Inr bs" using b(3) m(1) by simp
  ultimately show thesis
    using that [of asked bs "nt_in (sk_net s2)"] a b(1) ok m(3) by (simp add: net_after_def)
qed

text \<open>A served turn whose stream begins with the frame of a request calls the engine with that request.\<close>

lemma serve_turn_request:
  assumes "serve_turn jops n sv s = Some (Inr (m, sv', s'))" "sk_valid s" "server_payload sv \<le> 0xFFFFFFFF"
    "max_note_bytes (co_limits (sv_options sv)) \<le> 4096" "length (req_note q) \<le> max_note_bytes (co_limits (sv_options sv))"
    "encode_frame Request (encode_request_body q) = Inr asked" "nt_in (sk_net s) = asked @ tail"
  obtains out answer where "turn_calls jops sv s q out sv' s'" "apply_request jops q (sv_engine sv) = (out, sv_engine sv')" "plain_view out"
    "encode_frame Response (encode_outcome_body out) = Inr answer" "nt_out (sk_net s') = nt_out (sk_net s) @ answer"
proof (cases rule: serve_turn_cases [OF assms(1-4), case_names idle call])
  case (call q' out sv'' x response bytes)
  then have e: "sv'' = sv'" "x = s'" "bytes = response" by auto
  obtain bs rest where t: "encode_frame Request (encode_request_body q') = Inr bs" "nt_in (sk_net s) = bs @ rest"
    "apply_request jops q' (sv_engine sv) = (out, sv_engine sv')" "length (req_note q') \<le> max_note_bytes (co_limits (sv_options sv))"
    using call(2) e by (auto simp: turn_calls_def)
  have "encode_request_body q' = encode_request_body q"
    using frame_prefix_unique [OF assms(6) t(1), of tail rest] assms(7) t(2) by simp
  then have q: "q' = q"
    using request_message_exact [OF assms(4), of "encode_request_body q" q] request_message_exact [OF assms(4), of "encode_request_body q" q']
      t(4) assms(5) by (simp add: encode_request_message_def)
  have "plain_view out" using apply_plain [of jops q' "sv_engine sv"] t(3) by simp
  then show thesis using that [of out response] call(2-4) e t(3) q by simp
qed simp

lemma remote_apply:
  assumes "exchange q c = Some (out, c')" "cc_connected c" "cc_connected c'" "sk_valid (cc_socket c)" "cl_max_payload (cc_options c) \<le> 0xFFFFFFFF"
    "serve_turn jops n sv s = Some (Inr (m, sv', s'))" "sk_valid s" "server_payload sv \<le> 0xFFFFFFFF"
    "max_note_bytes (co_limits (sv_options sv)) \<le> 4096" "length (req_note q) \<le> max_note_bytes (co_limits (sv_options sv))"
    "nt_out (sk_net (cc_socket c')) = nt_out (sk_net (cc_socket c)) @ asked" "nt_in (sk_net s) = asked @ tail"
    "nt_out (sk_net s') = nt_out (sk_net s) @ answer" "nt_in (sk_net (cc_socket c)) = answer @ later"
  shows "apply_request jops q (sv_engine sv) = (out, sv_engine sv')"
proof -
  obtain bs rest where c: "encode_frame Request (encode_request_body q) = Inr asked" "plain_view out"
    "encode_frame Response (encode_outcome_body out) = Inr bs" "answer @ later = bs @ rest"
    using exchange_answered [OF assms(1-5)] assms(11,14) by (metis same_append_eq)
  obtain out' answer' where t: "apply_request jops q (sv_engine sv) = (out', sv_engine sv')" "plain_view out'"
    "encode_frame Response (encode_outcome_body out') = Inr answer'" "nt_out (sk_net s') = nt_out (sk_net s) @ answer'"
    by (rule serve_turn_request [OF assms(6-10) c(1) assms(12)])
  have "encode_outcome_body out = encode_outcome_body out'"
    using frame_prefix_unique [OF t(3) c(3), of later rest] c(4) assms(13) t(4) by simp
  then have "out = out'"
    using c(2) t(2) response_message_exact [of "encode_outcome_body out" out] response_message_exact [of "encode_outcome_body out" out']
    by (simp add: plain_view_def encode_response_message_def)
  then show ?thesis using t(1) by simp
qed

subsection \<open>On a prompt link the call completes\<close>

lemma prompt_serve:
  assumes "prompt (sk_net s)" "sk_valid s" "length (encode_request_body q) \<le> 90000" "length (encode_request_body q) \<le> server_payload sv"
    "server_payload sv \<le> 0xFFFFFFFF" "max_note_bytes (co_limits (sv_options sv)) \<le> 4096"
    "length (req_note q) \<le> max_note_bytes (co_limits (sv_options sv))" "co_max_requests (sv_options sv) = 0"
    "encode_frame Request (encode_request_body q) = Inr asked" "nt_in (sk_net s) = asked @ rest"
  shows "\<exists>sv' s'. serve_turn jops n sv s = Some (Inr (n + 1, sv', s'))"
proof -
  obtain s1 where rf: "recv_frame True (server_payload sv) s = Some (success, Some (Request, encode_request_body q), False, s1)"
    using prompt_recv [OF assms(1-5,9,10), of True] by blast
  obtain bs where bs: "net_after (sk_net s) (sk_net s1) bs []" "s1 = s\<lparr>sk_net := sk_net s1\<rparr>"
    using recv_frame_sound [OF rf assms(2,5)] by blast
  have v1: "sk_valid s1" "prompt (sk_net s1)" using socket_same [OF bs(2)] prompt_after [OF bs(1)] assms(1,2) by simp_all
  have dq: "decode_request_message (encode_request_body q) (max_note_bytes (co_limits (sv_options sv))) = Inr q"
    using request_message_exact [OF assms(6)] assms(7) by (simp add: encode_request_message_def)
  obtain out e where ap: "apply_request jops q (sv_engine sv) = (out, e)" by fastforce
  obtain s2 where "send_frame True Response (encode_outcome_body out) s1 = Some (success, s2)"
    using prompt_send [OF v1(2,1), of "encode_outcome_body out"] length_outcome_body [of out] by fastforce
  then show ?thesis
    using assms(1,8) rf dq ap by (simp add: serve_turn_def Let_def encode_response_message_def)
qed

lemma prompt_exchange:
  assumes "cc_connected c" "sk_valid (cc_socket c)" "prompt (sk_net (cc_socket c))" "length (encode_request_body q) \<le> 90000"
    "200 \<le> cl_max_payload (cc_options c)" "cl_max_payload (cc_options c) \<le> 0xFFFFFFFF" "plain_view out"
    "encode_frame Response (encode_outcome_body out) = Inr answer" "nt_in (sk_net (cc_socket c)) = answer @ later"
  shows "\<exists>c'. exchange q c = Some (out, c') \<and> cc_connected c'"
proof -
  obtain s1 where sf: "send_frame False Request (encode_request_body q) (cc_socket c) = Some (success, s1)"
    using prompt_send [OF assms(3,2,4)] by blast
  obtain bs where bs: "net_after (sk_net (cc_socket c)) (sk_net s1) [] bs" "s1 = (cc_socket c)\<lparr>sk_net := sk_net s1\<rparr>"
    using send_frame_sound [OF sf assms(2)] by blast
  have v1: "sk_valid s1" "prompt (sk_net s1)" "nt_in (sk_net s1) = answer @ later"
    using socket_same [OF bs(2)] prompt_after [OF bs(1)] assms(2,3,9) bs(1) by (simp_all add: net_after_def)
  obtain s2 where rf: "recv_frame False (cl_max_payload (cc_options c)) s1 = Some (success, Some (Response, encode_outcome_body out), False, s2)"
    using prompt_recv [OF v1(2,1) _ _ assms(6,8) v1(3), of False] length_outcome_body [of out] assms(5) by fastforce
  have "decode_response_message (encode_outcome_body out) = Inr out"
    using response_message_exact assms(7) by (simp add: encode_response_message_def plain_view_def)
  then show ?thesis
    using assms(1) sf rf by (simp add: exchange_def Let_def encode_request_message_def note_response_def)
qed

lemma remote_call:
  assumes "prompt (sk_net s)" "sk_valid s" "prompt w" "cc_connected c"
    "length (encode_request_body q) \<le> 90000" "length (encode_request_body q) \<le> server_payload sv" "server_payload sv \<le> 0xFFFFFFFF"
    "max_note_bytes (co_limits (sv_options sv)) \<le> 4096" "length (req_note q) \<le> max_note_bytes (co_limits (sv_options sv))"
    "co_max_requests (sv_options sv) = 0" "200 \<le> cl_max_payload (cc_options c)" "cl_max_payload (cc_options c) \<le> 0xFFFFFFFF"
    "encode_frame Request (encode_request_body q) = Inr asked" "nt_in (sk_net s) = asked @ rest"
    "apply_request jops q (sv_engine sv) = (out, e)"
  shows "\<exists>sv' s' answer c'. serve_turn jops n sv s = Some (Inr (n + 1, sv', s')) \<and> sv_engine sv' = e \<and>
           nt_out (sk_net s') = nt_out (sk_net s) @ answer \<and>
           exchange q (c\<lparr>cc_socket := \<lparr>sk_valid = True, sk_net = w\<lparr>nt_in := answer @ later\<rparr>\<rparr>\<rparr>) = Some (out, c') \<and> cc_connected c' \<and>
           nt_out (sk_net (cc_socket c')) = nt_out w @ asked"
proof -
  obtain sv' s' where t: "serve_turn jops n sv s = Some (Inr (n + 1, sv', s'))"
    using prompt_serve [OF assms(1,2,5-10,13,14)] by blast
  obtain out' answer where r: "apply_request jops q (sv_engine sv) = (out', sv_engine sv')" "plain_view out'"
    "encode_frame Response (encode_outcome_body out') = Inr answer" "nt_out (sk_net s') = nt_out (sk_net s) @ answer"
    by (rule serve_turn_request [OF t assms(2,7-9,13,14)])
  have out: "out' = out" "sv_engine sv' = e" using r(1) assms(15) by simp_all
  let ?c = "c\<lparr>cc_socket := \<lparr>sk_valid = True, sk_net = w\<lparr>nt_in := answer @ later\<rparr>\<rparr>\<rparr>"
  have pre: "cc_connected ?c" "sk_valid (cc_socket ?c)" "cl_max_payload (cc_options ?c) \<le> 0xFFFFFFFF" using assms(4,12) by simp_all
  obtain c' where c: "exchange q ?c = Some (out, c')" "cc_connected c'"
    using prompt_exchange [of ?c q out answer later] assms(3-5,11,12) r(2,3) out by auto
  obtain asked' where "encode_frame Request (encode_request_body q) = Inr asked'"
    "nt_out (sk_net (cc_socket c')) = nt_out (sk_net (cc_socket ?c)) @ asked'"
    by (rule exchange_answered [OF c(1) pre(1) c(2) pre(2,3)]) blast
  then have "nt_out (sk_net (cc_socket c')) = nt_out w @ asked" using assms(13) by simp
  then show ?thesis using t out c r(4) by blast
qed

subsection \<open>What a submission can cost\<close>

text \<open>Requests sent, attempt identities drawn and retries made between two states of a client; everything that
  identifies the client stays.\<close>

definition client_spent :: "CoordinatorClient \<Rightarrow> CoordinatorClient \<Rightarrow> nat \<Rightarrow> nat \<Rightarrow> nat \<Rightarrow> bool" where
  "client_spent c c' sent drawn retried \<longleftrightarrow>
     cs_requests_sent (cc_stats c') = cs_requests_sent (cc_stats c) + of_nat sent \<and>
     gen_counter (cc_attempts c') = gen_counter (cc_attempts c) + of_nat drawn \<and>
     stream_seed (cc_attempts c') = stream_seed (cc_attempts c) \<and>
     cs_retries (cc_stats c') = cs_retries (cc_stats c) + of_nat retried \<and>
     cc_incarnation c' = cc_incarnation c \<and> cc_options c' = cc_options c \<and> cc_challenge c' = cc_challenge c"

definition client_within :: "nat \<Rightarrow> nat \<Rightarrow> nat \<Rightarrow> CoordinatorClient \<Rightarrow> CoordinatorClient \<Rightarrow> bool" where
  "client_within a b d c c' \<longleftrightarrow> (\<exists>sent drawn retried. client_spent c c' sent drawn retried \<and> sent \<le> a \<and> drawn \<le> b \<and> retried \<le> d)"

lemma client_within_refl: "client_within a b d c c"
  by (auto simp: client_within_def client_spent_def intro!: exI [of _ 0])

lemma client_within_trans:
  assumes "client_within a b d c c1" "client_within a' b' d' c1 c2"
  shows "client_within (a + a') (b + b') (d + d') c c2"
proof -
  obtain x y z where xyz: "client_spent c c1 x y z" "x \<le> a" "y \<le> b" "z \<le> d" using assms(1) by (auto simp: client_within_def)
  obtain u v w where uvw: "client_spent c1 c2 u v w" "u \<le> a'" "v \<le> b'" "w \<le> d'" using assms(2) by (auto simp: client_within_def)
  have "client_spent c c2 (x + u) (y + v) (z + w)" using xyz(1) uvw(1) by (simp add: client_spent_def)
  then show ?thesis using xyz uvw unfolding client_within_def by (meson add_mono)
qed

lemma client_within_weaken:
  "client_within a b d c c' \<Longrightarrow> a \<le> a' \<Longrightarrow> b \<le> b' \<Longrightarrow> d \<le> d' \<Longrightarrow> client_within a' b' d' c c'"
  unfolding client_within_def by (meson le_trans)

text \<open>Fields outside the account of what is spent.\<close>

lemma client_within_update [simp]:
  "client_within a b d c (c'\<lparr>cc_authority := x\<rparr>) = client_within a b d c c'"
  "client_within a b d c (c'\<lparr>cc_next_sequence := n\<rparr>) = client_within a b d c c'"
  "client_within a b d c (c'\<lparr>cc_placed := p\<rparr>) = client_within a b d c c'"
  "client_within a b d c (c'\<lparr>cc_connected := p\<rparr>) = client_within a b d c c'"
  "client_within a b d c (c'\<lparr>cc_socket := s\<rparr>) = client_within a b d c c'"
  "client_within a b d c (c'\<lparr>cc_stats := (cc_stats c')\<lparr>cs_reconciliations := n\<rparr>\<rparr>) = client_within a b d c c'"
  by (simp_all add: client_within_def client_spent_def)

lemma note_response_within [simp]: "client_within a b d c (note_response q x c') = client_within a b d c c'"
  by (simp add: client_within_def client_spent_def note_response_def Let_def)

lemma sent_within: "client_within 1 0 0 c (c\<lparr>cc_stats := (cc_stats c)\<lparr>cs_requests_sent := cs_requests_sent (cc_stats c) + 1\<rparr>\<rparr>)"
  unfolding client_within_def by (rule exI [of _ 1], rule exI [of _ 0], rule exI [of _ 0]) (simp add: client_spent_def)

lemma exchange_within:
  assumes "exchange q c = Some (x, c')"
  shows "client_within 1 0 0 c c'"
  using assms sent_within [of c] client_within_refl [of 1 0 0 c]
  by (auto simp: exchange_def Let_def split: if_splits sum.splits Option.bind_splits prod.splits option.splits)

lemma draw_within: "draw_attempt c = (i, c') \<Longrightarrow> client_within 0 1 0 c c'"
  unfolding client_within_def
  by (rule exI [of _ 0], rule exI [of _ 1], rule exI [of _ 0])
    (auto simp: client_spent_def draw_attempt_def attempt_next_def Let_def split: prod.splits)

lemma describe_within:
  assumes "client_describe account c = Some (x, c')"
  shows "client_within 1 1 0 c c'"
proof -
  obtain i c1 where d: "draw_attempt c = (i, c1)" by fastforce
  obtain q where "exchange q c1 = Some (x, c')" using assms d by (simp add: client_describe_def)
  from client_within_trans [OF draw_within [OF d] exchange_within [OF this]] show ?thesis by simp
qed

lemma reconcile_within:
  assumes "client_reconcile account c = Some (x, c')"
  shows "client_within 2 2 0 c c'"
proof -
  obtain y c1 where d: "client_describe account c = Some (y, c1)"
    using assms by (auto simp: client_reconcile_def split: Option.bind_splits)
  note w1 = describe_within [OF d]
  show ?thesis
  proof (cases "out_ok y")
    case False
    then show ?thesis using assms d client_within_weaken [OF w1] by (simp add: client_reconcile_def)
  next
    case True
    let ?c2 = "c1\<lparr>cc_next_sequence := out_sequence y + 1\<rparr>"
    obtain i c3 where r: "draw_attempt ?c2 = (i, c3)" by fastforce
    obtain q c4 au where e: "exchange q c3 = Some (x, c4)" and
      "c' = (if out_ok x then c4\<lparr>cc_authority := au, cc_placed := True,
               cc_stats := (cc_stats c4)\<lparr>cs_reconciliations := cs_reconciliations (cc_stats c4) + 1\<rparr>\<rparr> else c4)"
      using assms d True r by (auto simp: client_reconcile_def Let_def split: Option.bind_splits)
    then have c': "client_within 2 2 0 c c' = client_within 2 2 0 c c4" by (simp add: client_within_def client_spent_def)
    have "client_within 1 1 0 c ?c2" using w1 by simp
    from client_within_trans [OF client_within_trans [OF this draw_within [OF r]] exchange_within [OF e]]
    show ?thesis using c' by (simp add: numeral_2_eq_2)
  qed
qed

lemma place_within:
  assumes "place_client account c = Some r"
  shows "case r of Inl (x, c') \<Rightarrow> client_within 1 1 0 c c' | Inr c' \<Rightarrow> client_within 1 1 0 c c'"
  using assms describe_within [of account c] client_within_refl [of 1 1 0 c]
  by (auto simp: place_client_def split: if_splits Option.bind_splits)

lemma revalidated_within:
  assumes "submit_revalidated q c = Some (x, c')"
  shows "client_within 3 3 1 c c'"
proof -
  obtain y c1 where d: "client_reconcile (av_account (req_authority q)) c = Some (y, c1)"
    using assms by (auto simp: submit_revalidated_def split: Option.bind_splits)
  note w1 = reconcile_within [OF d]
  show ?thesis
  proof (cases "out_ok y")
    case False
    then show ?thesis using assms d client_within_weaken [OF w1] by (simp add: submit_revalidated_def)
  next
    case True
    obtain i c2 where r: "draw_attempt c1 = (i, c2)" by fastforce
    let ?c3 = "c2\<lparr>cc_stats := (cc_stats c2)\<lparr>cs_retries := cs_retries (cc_stats c2) + 1\<rparr>\<rparr>"
    have w3: "client_within 0 0 1 c2 ?c3"
      unfolding client_within_def by (rule exI [of _ 0], rule exI [of _ 0], rule exI [of _ 1]) (simp add: client_spent_def)
    obtain q' where e: "exchange q' ?c3 = Some (x, c')" using assms d True r by (auto simp: submit_revalidated_def)
    from client_within_trans [OF client_within_trans [OF client_within_trans [OF w1 draw_within [OF r]] w3] exchange_within [OF e]]
    show ?thesis by simp
  qed
qed

lemma submit_within:
  assumes "submit q c = Some (x, c')"
  shows "client_within 5 5 1 c c'"
proof -
  obtain i c1 where d: "draw_attempt c = (i, c1)" by fastforce
  note w1 = draw_within [OF d]
  let ?q = "q\<lparr>req_presenter := cc_incarnation c, req_attempt := i\<rparr>"
  show ?thesis
  proof (cases "req_op q = Open \<or> req_op q = Describe")
    case True
    then obtain q' where "exchange q' c1 = Some (x, c')"
      using assms d by (auto simp: submit_def submit_open_def submit_describe_def Let_def split: if_splits)
    from client_within_trans [OF w1 exchange_within [OF this]] show ?thesis by (rule client_within_weaken) simp_all
  next
    case False
    obtain r where pc: "place_client (av_account (req_authority q)) c1 = Some r"
      using assms d False by (auto simp: submit_def Let_def split: Option.bind_splits)
    show ?thesis
    proof (cases r)
      case (Inl early)
      then have "client_within 1 1 0 c1 c'" using place_within [OF pc] assms d False pc by (auto simp: submit_def Let_def)
      from client_within_trans [OF w1 this] show ?thesis by (rule client_within_weaken) simp_all
    next
      case (Inr c2)
      then have w2: "client_within 1 1 0 c1 c2" using place_within [OF pc] by simp
      obtain q' y c3 where e: "exchange q' c2 = Some (y, c3)"
        and rest: "if needs_revalidation y then submit_revalidated q' c3 = Some (x, c') else c' = c3"
        using assms d False pc Inr by (auto simp: submit_def Let_def split: Option.bind_splits if_splits)
      note w3 = client_within_trans [OF client_within_trans [OF w1 w2] exchange_within [OF e]]
      have "client_within 3 3 1 c3 c'"
        using rest revalidated_within [of q' c3] client_within_refl by (auto split: if_splits)
      from client_within_trans [OF w3 this] show ?thesis by (rule client_within_weaken) simp_all
    qed
  qed
qed

text \<open>C28: a submission is bounded. Whatever the coordinator answers, \<open>submit\<close> sends at most five requests (a
  description, the attempt, a second description, a reconciliation and one retry), draws at most five attempt
  identities from its stream and retries at most once; the client's identity, options and challenge stay.\<close>

theorem submit_is_bounded:
  assumes "submit q c = Some (out, c')"
  shows "\<exists>sent drawn retried. sent \<le> 5 \<and> drawn \<le> 5 \<and> retried \<le> 1 \<and> client_spent c c' sent drawn retried"
  using submit_within [OF assms] by (auto simp: client_within_def)

subsection \<open>Concrete calls\<close>

definition demo_client :: CoordinatorClient where
  "demo_client =
     (make_client \<lparr>cl_host = ''127.0.0.1'', cl_port = 0, cl_domain = StrongId 1, cl_publisher = StrongId 2, cl_boot = StrongId 3,
        cl_label = ''creditfabric-worker'', cl_max_payload = 65536\<rparr> (make_generator 1 1) (prompt_net []))\<lparr>cc_connected := True\<rparr>"

lemma demo_client_sel [simp]:
  "cc_connected demo_client" "cl_max_payload (cc_options demo_client) = 65536"
  by (simp_all add: demo_client_def make_client_def)

text \<open>C25: on a link where every call completes, a remote call completes. The coordinator takes the request from
  its stream, applies it once to its engine and answers, and the client, reading that answer, returns the outcome
  the engine gave; the bytes the client sent are the ones the coordinator read.\<close>

theorem remote_call_completes:
  assumes "prompt (sk_net s)" "sk_valid s" "prompt w" "cc_connected c"
    "length (encode_request_body q) \<le> 90000" "length (encode_request_body q) \<le> server_payload sv" "server_payload sv \<le> 0xFFFFFFFF"
    "max_note_bytes (co_limits (sv_options sv)) \<le> 4096" "length (req_note q) \<le> max_note_bytes (co_limits (sv_options sv))"
    "co_max_requests (sv_options sv) = 0" "200 \<le> cl_max_payload (cc_options c)" "cl_max_payload (cc_options c) \<le> 0xFFFFFFFF"
    "encode_frame Request (encode_request_body q) = Inr asked" "nt_in (sk_net s) = asked @ rest"
    "apply_request jops q (sv_engine sv) = (out, e)"
  shows "\<exists>sv' s' answer c'. serve_turn jops n sv s = Some (Inr (n + 1, sv', s')) \<and> sv_engine sv' = e \<and>
           nt_out (sk_net s') = nt_out (sk_net s) @ answer \<and>
           exchange q (c\<lparr>cc_socket := \<lparr>sk_valid = True, sk_net = w\<lparr>nt_in := answer @ later\<rparr>\<rparr>\<rparr>) = Some (out, c') \<and> cc_connected c' \<and>
           nt_out (sk_net (cc_socket c')) = nt_out w @ asked"
  by (rule remote_call [OF assms])

lemma request_frame:
  obtains asked where "encode_frame Request (encode_request_body q) = Inr asked" "length (encode_request_body q) \<le> 65536"
proof -
  have "length (encode_request_body q) \<le> 65536" using length_request_body [of q] by simp
  then show thesis using that by (simp add: encode_frame_def Let_def)
qed

theorem remote_call_completes_witness:
  "\<exists>asked sv' s' answer c'. encode_frame Request (encode_request_body (demo_request Issue 2 10)) = Inr asked \<and>
     serve_turn in_memory_ops 0 demo_server (prompt_socket asked) = Some (Inr (1, sv', s')) \<and>
     nt_out (sk_net s') = answer \<and>
     exchange (demo_request Issue 2 10) (demo_client\<lparr>cc_socket := prompt_socket answer\<rparr>) =
       Some (fst (apply_request in_memory_ops (demo_request Issue 2 10) demo_engine), c')"
proof -
  let ?q = "demo_request Issue 2 10"
  obtain asked where a: "encode_frame Request (encode_request_body ?q) = Inr asked" "length (encode_request_body ?q) \<le> 65536" by (rule request_frame)
  have b: "length (encode_request_body ?q) \<le> server_payload demo_server" "server_payload demo_server \<le> 0xFFFFFFFF"
    "max_note_bytes (co_limits (sv_options demo_server)) \<le> 4096" "length (req_note ?q) = 0"
    using a(2) by (simp_all add: default_limits_def demo_request_def)
  show ?thesis
    using remote_call_completes [of "prompt_socket asked" "prompt_net []" demo_client ?q demo_server asked "[]"
        in_memory_ops "fst (apply_request in_memory_ops ?q demo_engine)" "snd (apply_request in_memory_ops ?q demo_engine)" 0 "[]"] a b
    by auto
qed

text \<open>C22: a remote call is a call of the engine. Over any two connections, however slow or broken, whose bytes are
  the ones the other side wrote: when the coordinator served the turn and the client's \<open>exchange\<close> kept its
  connection, the outcome the client returns is exactly the outcome \<open>apply\<close> gave for exactly the request the
  client was given, and the engine made that one step.\<close>

theorem exchange_is_remote_apply:
  assumes "exchange q c = Some (out, c')" "cc_connected c" "cc_connected c'" "sk_valid (cc_socket c)" "cl_max_payload (cc_options c) \<le> 0xFFFFFFFF"
    "serve_turn jops n sv s = Some (Inr (m, sv', s'))" "sk_valid s" "server_payload sv \<le> 0xFFFFFFFF"
    "max_note_bytes (co_limits (sv_options sv)) \<le> 4096" "length (req_note q) \<le> max_note_bytes (co_limits (sv_options sv))"
    "nt_out (sk_net (cc_socket c')) = nt_out (sk_net (cc_socket c)) @ asked" "nt_in (sk_net s) = asked @ tail"
    "nt_out (sk_net s') = nt_out (sk_net s) @ answer" "nt_in (sk_net (cc_socket c)) = answer @ later"
  shows "apply_request jops q (sv_engine sv) = (out, sv_engine sv')"
  by (rule remote_apply [OF assms])

theorem exchange_is_remote_apply_witness:
  "\<exists>out c' sv' asked answer. exchange (demo_request Issue 2 10) (demo_client\<lparr>cc_socket := prompt_socket answer\<rparr>) = Some (out, c') \<and>
     nt_out (sk_net (cc_socket c')) = asked \<and>
     (\<exists>s'. serve_turn in_memory_ops 0 demo_server (prompt_socket asked) = Some (Inr (1, sv', s'))) \<and>
     apply_request in_memory_ops (demo_request Issue 2 10) demo_engine = (out, sv_engine sv')"
proof -
  let ?q = "demo_request Issue 2 10"
  obtain asked where a: "encode_frame Request (encode_request_body ?q) = Inr asked" "length (encode_request_body ?q) \<le> 65536" by (rule request_frame)
  have b: "length (encode_request_body ?q) \<le> server_payload demo_server" "server_payload demo_server \<le> 0xFFFFFFFF"
    "max_note_bytes (co_limits (sv_options demo_server)) \<le> 4096" "length (req_note ?q) = 0"
    using a(2) by (simp_all add: default_limits_def demo_request_def)
  obtain out e where ap: "apply_request in_memory_ops ?q demo_engine = (out, e)" by fastforce
  obtain sv' s' answer c' where r: "serve_turn in_memory_ops 0 demo_server (prompt_socket asked) = Some (Inr (1, sv', s'))"
    "nt_out (sk_net s') = answer" "exchange ?q (demo_client\<lparr>cc_socket := prompt_socket answer\<rparr>) = Some (out, c')" "cc_connected c'"
    "nt_out (sk_net (cc_socket c')) = asked"
    using remote_call [of "prompt_socket asked" "prompt_net []" demo_client ?q demo_server asked "[]" in_memory_ops out e 0 "[]"] a b ap by auto
  have "apply_request in_memory_ops ?q (sv_engine demo_server) = (out, sv_engine sv')"
    using exchange_is_remote_apply [OF r(3) _ r(4) _ _ r(1), of asked "[]" answer "[]"] r(2,5) b by simp
  then show ?thesis using r by auto
qed

theorem submit_is_bounded_witness:
  "\<exists>answer c' sent drawn retried.
     submit (demo_request Open 1 0) (demo_client\<lparr>cc_socket := prompt_socket answer\<rparr>) =
       Some (refusal_outcome AccountExists 1, c') \<and>
     sent \<le> 5 \<and> drawn \<le> 5 \<and> retried \<le> 1 \<and> client_spent demo_client c' sent drawn retried"
proof -
  let ?out = "refusal_outcome AccountExists 1"
  have p: "plain_view ?out" by (simp add: refusal_outcome_def plain_view_def default_outcome_def zero_view_def)
  obtain answer where a: "encode_frame Response (encode_outcome_body ?out) = Inr answer"
    using length_outcome_body [of ?out] by (simp add: encode_frame_def Let_def)
  let ?c = "demo_client\<lparr>cc_socket := prompt_socket answer\<rparr>"
  obtain i c1 where d: "draw_attempt ?c = (i, c1)" by fastforce
  have c1: "cc_socket c1 = prompt_socket answer" "cc_connected c1" "cl_max_payload (cc_options c1) = 65536"
    using d by (auto simp: draw_attempt_def split: prod.splits)
  obtain q where q: "submit (demo_request Open 1 0) ?c = exchange q c1" by (simp add: submit_def d submit_open_def Let_def demo_request_def)
  have "length (encode_request_body q) \<le> 90000" using length_request_body [of q] by simp
  then obtain c' where s: "submit (demo_request Open 1 0) ?c = Some (?out, c')"
    using prompt_exchange [of c1 q ?out answer "[]"] c1 p a q by auto
  have "client_spent ?c c' = client_spent demo_client c'" by (simp add: client_spent_def fun_eq_iff)
  then show ?thesis using submit_is_bounded [OF s] s by metis
qed

end
