(* ===== verification/Session.thy ===== *)
theory Session
  imports Client Recovery
begin

text \<open>
  The in-process session of the operator tool (\<open>apps/local_session.hpp\<close>): an incarnation bound to an engine it
  calls directly. A session opens accounts, establishes its authority after every process start by \<open>reconcile\<close>,
  and issues requests by \<open>call\<close>, which follows the engine's answers (a sequence gap, a stale sequence, a lost
  reconciliation) for at most eight tries. The state is \<open>LocalSession\<close>; the engine it refers to is passed along.
  Shown here: everything a session does to the engine is a run of at most 89 calls, and a session that reconciled
  is admitted with its next request.
\<close>

subsection \<open>LocalSession\<close>

definition durable_operator :: "string \<Rightarrow> Incarnation" where
  "durable_operator deployment =
     (let d = digest_of (Digest128 0x0CF0BEEFCAFE0001 0x0CF0BEEFCAFE0002) [DText deployment]
      in make_incarnation (StrongId 0x0CF0BEEFCAFE) (StrongId (dg_lo d XOR dg_hi d)))"

record LocalSession =
  lo_me :: Incarnation
  lo_domain :: DomainId
  lo_account :: AccountId
  lo_authority :: AuthorityVector
  lo_attempts :: AttemptIdGenerator
  lo_sequence :: u64
  lo_reconciled :: bool

definition make_session :: "Incarnation \<Rightarrow> DomainId \<Rightarrow> AccountId \<Rightarrow> AttemptIdGenerator \<Rightarrow> LocalSession" where
  "make_session me domain account attempts =
     \<lparr>lo_me = me, lo_domain = domain, lo_account = account, lo_authority = unset_authority, lo_attempts = attempts,
      lo_sequence = 1, lo_reconciled = False\<rparr>"

text \<open>\<open>attempts_.next()\<close>\<close>

definition session_attempt :: "LocalSession \<Rightarrow> AttemptId \<times> LocalSession" where
  "session_attempt s = (case attempt_next (lo_attempts s) of (i, g) \<Rightarrow> (i, s\<lparr>lo_attempts := g\<rparr>))"

definition session_open ::
  "'j journal_ops \<Rightarrow> AccountConfig \<Rightarrow> LocalSession \<Rightarrow> 'j engine \<Rightarrow> CreditOutcome \<times> LocalSession \<times> 'j engine" where
  "session_open jops config s e =
     (let authority = \<lparr>av_domain = cfg_domain config, av_account = cfg_account config, av_epoch = StrongId 1,
                       av_generation = StrongId 1, av_incarnation = inc_id (lo_me s)\<rparr> in
      case session_attempt s of
        (attempt, s1) \<Rightarrow>
          let request = default_request\<lparr>req_op := Open, req_config := config, req_authority := authority,
                req_presenter := lo_me s, req_attempt := attempt, req_sequence := 1,
                req_proof := challenge_compute (e_challenge e) (lo_me s) authority\<rparr> in
          (case apply_request jops request e of
             (outcome, e1) \<Rightarrow>
               let s2 = (if out_decided outcome then s1\<lparr>lo_sequence := req_sequence request + 1\<rparr> else s1);
                   s3 = (if out_ok outcome then s2\<lparr>lo_authority := authority, lo_reconciled := True\<rparr> else s2)
               in (outcome, s3, e1)))"

text \<open>The retry loop of \<open>reconcile\<close>, with the number of tries left.\<close>

fun reconcile_tries ::
  "'j journal_ops \<Rightarrow> nat \<Rightarrow> LocalSession \<Rightarrow> 'j engine \<Rightarrow> Status \<times> LocalSession \<times> 'j engine" where
  "reconcile_tries jops 0 s e = (refused BudgetExceeded 1, s, e)"
| "reconcile_tries jops (Suc tries) s e =
     (case session_attempt s of
        (attempt, s1) \<Rightarrow>
          let request = default_request\<lparr>req_op := Reconcile, req_presenter := lo_me s1, req_attempt := attempt,
                req_sequence := lo_sequence s1, req_authority := lo_authority s1,
                req_proof := challenge_compute (e_challenge e) (lo_me s1) (lo_authority s1)\<rparr> in
          (case apply_request jops request e of
             (outcome, e1) \<Rightarrow>
               if out_ok outcome
               then (success, s1\<lparr>lo_sequence := req_sequence request + 1, lo_reconciled := True\<rparr>, e1)
               else if reason (out_status outcome) = SequenceGap
               then reconcile_tries jops tries (s1\<lparr>lo_sequence := detail (out_status outcome)\<rparr>) e1
               else if reason (out_status outcome) = StaleReplay
               then reconcile_tries jops tries (s1\<lparr>lo_sequence := detail (out_status outcome) + 1\<rparr>) e1
               else (out_status outcome, s1, e1)))"

definition session_reconcile ::
  "'j journal_ops \<Rightarrow> LocalSession \<Rightarrow> 'j engine \<Rightarrow> Status \<times> LocalSession \<times> 'j engine" where
  "session_reconcile jops s e =
     (let explanation = explain (lo_account s) e in
      if \<not> ex_found explanation then (refused AccountUnknown 1, s, e)
      else
        let authority = \<lparr>av_domain = lo_domain s, av_account = lo_account s,
                         av_epoch = av_epoch (ex_authority explanation),
                         av_generation = av_generation (ex_authority explanation),
                         av_incarnation = inc_id (lo_me s)\<rparr>;
            s1 = s\<lparr>lo_authority := authority\<rparr>;
            probe = default_request\<lparr>req_op := Describe, req_sequence := 1, req_presenter := lo_me s1,
                                    req_authority := authority\<rparr> in
        (case apply_request jops probe e of
           (described, e1) \<Rightarrow>
             if \<not> out_ok described then (out_status described, s1, e1)
             else reconcile_tries jops 8 (s1\<lparr>lo_sequence := out_sequence described + 1\<rparr>) e1))"

text \<open>What \<open>call\<close> fills in before each try.\<close>

definition session_request :: "LocalSession \<Rightarrow> CreditRequest \<Rightarrow> CreditRequest" where
  "session_request s request =
     request\<lparr>req_presenter := lo_me s, req_sequence := lo_sequence s, req_authority := lo_authority s\<rparr>"

fun call_tries ::
  "'j journal_ops \<Rightarrow> nat \<Rightarrow> CreditRequest \<Rightarrow> LocalSession \<Rightarrow> 'j engine \<Rightarrow> CreditOutcome \<times> LocalSession \<times> 'j engine" where
  "call_tries jops 0 request s e = (default_outcome\<lparr>out_status := refused BudgetExceeded 2\<rparr>, s, e)"
| "call_tries jops (Suc tries) request s e =
     (case session_attempt s of
        (attempt, s1) \<Rightarrow>
          let request1 = session_request s1 (request\<lparr>req_attempt := attempt\<rparr>) in
          (case apply_request jops request1 e of
             (outcome, e1) \<Rightarrow>
               let why = reason (out_status outcome) in
               if out_decided outcome then (outcome, s1\<lparr>lo_sequence := req_sequence request1 + 1\<rparr>, e1)
               else if why = SequenceGap
               then call_tries jops tries request1 (s1\<lparr>lo_sequence := detail (out_status outcome)\<rparr>) e1
               else if why = StaleReplay
               then call_tries jops tries request1 (s1\<lparr>lo_sequence := detail (out_status outcome) + 1\<rparr>) e1
               else if why = ReconciliationRequired \<or> why = UnknownIncarnation \<or> why = StaleAuthority
               then (case session_reconcile jops s1 e1 of
                       (status, s2, e2) \<Rightarrow>
                         if \<not> status_ok status then (outcome\<lparr>out_status := status\<rparr>, s2, e2)
                         else call_tries jops tries request1 s2 e2)
               else (outcome, s1, e1)))"

definition session_call ::
  "'j journal_ops \<Rightarrow> CreditRequest \<Rightarrow> LocalSession \<Rightarrow> 'j engine \<Rightarrow> CreditOutcome \<times> LocalSession \<times> 'j engine" where
  "session_call jops request s e =
     (if lo_reconciled s then call_tries jops 8 request s e
      else case session_reconcile jops s e of
        (status, s1, e1) \<Rightarrow>
          if \<not> status_ok status then (default_outcome\<lparr>out_status := status\<rparr>, s1, e1)
          else call_tries jops 8 request s1 e1)"

text \<open>The overload that takes the fields one by one.\<close>

definition call_request ::
  "OpKind \<Rightarrow> u64 \<Rightarrow> u64 \<Rightarrow> RevalidationDecision \<Rightarrow> IncarnationId \<Rightarrow> Reason \<Rightarrow> Digest128 \<Rightarrow> CreditRequest" where
  "call_request oper count new_capacity decision target cause expected_state =
     default_request\<lparr>req_op := oper, req_count := count, req_new_capacity := new_capacity, req_decision := decision,
       req_target := target, req_fence_cause := cause, req_expected_state := expected_state\<rparr>"

subsection \<open>A session only makes engine calls\<close>

text \<open>Whatever a session does to the engine is a run of calls.\<close>

definition runs_to :: "'j journal_ops \<Rightarrow> 'j engine \<Rightarrow> 'j engine \<Rightarrow> nat \<Rightarrow> bool" where
  "runs_to jops e e' n \<longleftrightarrow> (\<exists>calls. engine_run jops e calls e' \<and> length calls \<le> n)"

lemma runs_to_refl: "runs_to jops e e n"
  by (auto simp: runs_to_def intro!: exI [of _ "[]"] run_start)

lemma engine_run_append: "engine_run jops f calls g \<Longrightarrow> engine_run jops e before f \<Longrightarrow> engine_run jops e (before @ calls) g"
  by (induction rule: engine_run.induct) (auto simp: run_step simp flip: append_assoc)

lemma runs_to_trans: "runs_to jops e f m \<Longrightarrow> runs_to jops f g n \<Longrightarrow> runs_to jops e g (m + n)"
  unfolding runs_to_def by (metis add_mono engine_run_append length_append)

lemma runs_to_step:
  assumes "apply_request jops q e = (out, f)" "runs_to jops f g n"
  shows "runs_to jops e g (Suc n)"
proof -
  have "engine_run jops e [CallApply q out] f" using run_step [OF run_start step_apply [OF assms(1)]] by simp
  then have "runs_to jops e f 1" unfolding runs_to_def by (metis One_nat_def length_Cons list.size(3) order_refl)
  from runs_to_trans [OF this assms(2)] show ?thesis by simp
qed

lemma runs_to_weaken: "runs_to jops e f m \<Longrightarrow> m \<le> n \<Longrightarrow> runs_to jops e f n"
  unfolding runs_to_def by (meson le_trans)

lemma reconcile_tries_runs: "reconcile_tries jops n s e = (st, s', e') \<Longrightarrow> runs_to jops e e' n"
proof (induction jops n s e arbitrary: st s' e' rule: reconcile_tries.induct)
  case (2 jops tries s e)
  obtain i s1 where d: "session_attempt s = (i, s1)" by fastforce
  obtain q out f where a: "apply_request jops q e = (out, f)" "q = default_request\<lparr>req_op := Reconcile, req_presenter := lo_me s1,
      req_attempt := i, req_sequence := lo_sequence s1, req_authority := lo_authority s1,
      req_proof := challenge_compute (e_challenge e) (lo_me s1) (lo_authority s1)\<rparr>" by fastforce
  have "runs_to jops f e' tries"
    using "2.prems" "2.IH" d a by (auto simp: Let_def runs_to_refl split: if_splits)
  with a(1) show ?case by (rule runs_to_step)
qed (simp add: runs_to_refl)

lemma session_reconcile_runs:
  assumes "session_reconcile jops s e = (st, s', e')"
  shows "runs_to jops e e' 9"
proof (cases "ex_found (explain (lo_account s) e)")
  case False
  then show ?thesis using assms by (simp add: session_reconcile_def Let_def runs_to_refl)
next
  case True
  obtain q out f where a: "apply_request jops q e = (out, f)" "runs_to jops f e' 8"
    using assms True
    by (auto simp: session_reconcile_def Let_def runs_to_refl dest!: reconcile_tries_runs split: prod.splits if_splits)
  from runs_to_step [OF this] show ?thesis by simp
qed

lemma call_tries_runs: "call_tries jops n q s e = (out, s', e') \<Longrightarrow> runs_to jops e e' (10 * n)"
proof (induction n arbitrary: q s e out s' e')
  case (Suc tries)
  obtain i s1 where d: "session_attempt s = (i, s1)" by fastforce
  let ?q = "session_request s1 (q\<lparr>req_attempt := i\<rparr>)"
  obtain x f where a: "apply_request jops ?q e = (x, f)" by fastforce
  have direct: "runs_to jops f e' (9 + 10 * tries)" if "call_tries jops tries ?q s2 f = (out, s', e')" for s2
    using runs_to_weaken [OF Suc.IH [OF that]] by simp
  have repaired: "runs_to jops f e' (9 + 10 * tries)"
    if "session_reconcile jops s1 f = (st, s2, f2)" "f2 = e' \<or> call_tries jops tries ?q s2 f2 = (out, s', e')" for st s2 f2
    using session_reconcile_runs [OF that(1)] that(2) Suc.IH runs_to_trans runs_to_weaken [of jops f f2 9 "9 + 10 * tries"] by fastforce
  have "runs_to jops f e' (9 + 10 * tries)"
    using Suc.prems d a direct repaired
    by (auto simp: Let_def runs_to_refl split: if_splits prod.splits)
  from runs_to_step [OF a this] show ?case by simp
qed (simp add: runs_to_refl)

lemma session_call_runs:
  assumes "session_call jops q s e = (out, s', e')"
  shows "runs_to jops e e' 89"
proof (cases "lo_reconciled s")
  case True
  then show ?thesis using assms runs_to_weaken [OF call_tries_runs, of jops 8 q s e out s' e' 89] by (simp add: session_call_def)
next
  case False
  obtain st s1 f where r: "session_reconcile jops s e = (st, s1, f)" by (metis prod_cases3)
  have "runs_to jops f e' 80"
    using assms False r call_tries_runs [of jops 8] by (auto simp: session_call_def runs_to_refl split: if_splits)
  from runs_to_trans [OF session_reconcile_runs [OF r] this] show ?thesis by simp
qed

subsection \<open>A reconciled session is placed\<close>

text \<open>Where a request that asks for a decision stands: admitted, refused for what it carries, or known already or
  out of place.\<close>

lemma authority_refusal_reason: "authority_refusal e a q = Some st \<Longrightarrow> reason st \<notin> {Ok, SequenceGap, StaleReplay}"
  by (auto simp: authority_refusal_def Let_def split: if_splits option.splits)

lemma structural_refusal_reason: "structural_refusal limits q = Some st \<Longrightarrow> reason st \<notin> {Ok, SequenceGap, StaleReplay}"
  by (auto simp: structural_refusal_def Let_def split: if_splits)

lemma apply_standing [consumes 3, case_names admitted refused duplicate misplaced]:
  assumes "apply_request jops q e = (out, e')" "req_op q \<noteq> Describe" "req_op q \<noteq> Open"
  obtains a where "admitted e q a"
  | "reason (out_status out) \<notin> {Ok, SequenceGap, StaleReplay}"
  | a st where "fmlookup (e_accounts e) (request_key q) = Some a" "place_attempt a q = PlDuplicate st" "req_sequence q \<noteq> 0"
  | a r d where "fmlookup (e_accounts e) (request_key q) = Some a" "place_attempt a q = PlRefused r d" "req_sequence q \<noteq> 0"
proof (cases "e_recovered e \<and> \<not> e_journal_failed e")
  case False
  then show thesis using assms(1) that(2) by (auto simp: apply_request_def refuse_outcome_def split: if_splits)
next
  case up: True
  then have run: "apply_locked jops q e = (out, e')" using assms(1) by (simp add: apply_request_def)
  show thesis
  proof (cases "structural_refusal (e_limits e) q")
    case (Some st)
    then show thesis using run that(2) structural_refusal_reason [OF Some] by (auto simp: apply_locked_def Let_def refuse_outcome_def)
  next
    case sound: None
    show thesis
    proof (cases "fmlookup (e_accounts e) (request_key q)")
      case None
      then show thesis using run sound assms(2,3) that(2) by (auto simp: apply_locked_def Let_def refuse_outcome_def request_key_def)
    next
      case known: (Some a)
      show thesis
      proof (cases "authority_refusal e a q")
        case (Some st)
        then show thesis
          using run sound known assms(2,3) that(2) authority_refusal_reason [OF Some]
          by (auto simp: apply_locked_def Let_def refuse_outcome_def request_key_def)
      next
        case bound: None
        have "req_sequence q \<noteq> 0" using sound by (auto simp: structural_refusal_def Let_def split: if_splits)
        moreover have "reason (out_status out) = AttemptConflict" if "place_attempt a q = PlConflict"
          using run sound known bound assms(2,3) that by (auto simp: apply_locked_def Let_def decided_refusal_def request_key_def)
        moreover have "admitted e q a" if "place_attempt a q = PlNext"
          using up sound known bound assms(2,3) that by (simp add: admitted_def)
        ultimately show thesis using that known by (cases "place_attempt a q") auto
      qed
    qed
  qed
qed

definition watermark_of :: "AccountState \<Rightarrow> IncarnationId \<Rightarrow> u64" where
  "watermark_of a i = (case find_incarnation a i of None \<Rightarrow> 0 | Some r \<Rightarrow> ir_last_sequence r)"

lemma describe_ok:
  assumes "apply_request jops q e = (out, e')" "out_ok out" "req_op q = Describe"
  shows "e' = e \<and> e_recovered e \<and> \<not> e_journal_failed e \<and> structural_refusal (e_limits e) q = None \<and>
    (\<exists>a. fmlookup (e_accounts e) (request_key q) = Some a \<and> as_domain a = av_domain (req_authority q) \<and>
       out_sequence out = watermark_of a (av_incarnation (req_authority q)))"
  using assms structural_refusal_reason [of "e_limits e" q]
  by (auto simp: apply_request_def apply_locked_def describe_locked_def refuse_outcome_def status_ok_def watermark_of_def request_key_def
      Let_def split: if_splits option.splits)

lemma beyond_watermark:
  assumes "engine_inv e" "fmlookup (e_accounts e) k = Some a" "req_sequence q > watermark_of a (av_incarnation (req_authority q))"
  shows "window_find (as_window a) (Key (id_value (av_incarnation (req_authority q))) (req_sequence q)) = None"
proof (rule ccontr)
  let ?k = "Key (id_value (av_incarnation (req_authority q))) (req_sequence q)"
  assume "window_find (as_window a) ?k \<noteq> None"
  moreover have inv: "account_inv (e_limits e) a" using assms(1,2) by (auto simp: engine_inv_def)
  ultimately have "?k \<in> set (aw_order (as_window a))" using window_find_order [of "as_window a" ?k] by (auto simp: account_inv_def)
  then obtain r where "fmlookup (as_incarnations a) (id_value (av_incarnation (req_authority q))) = Some r" "req_sequence q \<le> ir_last_sequence r"
    using inv by (force simp: account_inv_def)
  then show False using assms(3) by (simp add: watermark_of_def find_incarnation_def)
qed

lemma u64_succ: "(w :: u64) + 1 \<noteq> 0 \<Longrightarrow> w < w + 1"
  by uint_arith

lemma next_in_sequence:
  assumes "engine_inv e" "fmlookup (e_accounts e) k = Some a"
    "req_sequence q = watermark_of a (av_incarnation (req_authority q)) + 1" "req_sequence q \<noteq> 0"
    "window_find_by_attempt (as_window a) (req_attempt q) = None"
  shows "place_attempt a q = PlNext"
proof -
  let ?w = "watermark_of a (av_incarnation (req_authority q))"
  have gt: "?w < ?w + 1" using assms(3,4) by (metis u64_succ)
  show ?thesis
    using beyond_watermark [OF assms(1,2), of q] assms(3,5) gt
    by (auto simp: place_attempt_def Let_def watermark_of_def [symmetric] add_overflow_def split: prod.splits)
qed

lemma in_sequence_not_refused:
  assumes "engine_inv e" "fmlookup (e_accounts e) k = Some a"
    "req_sequence q = watermark_of a (av_incarnation (req_authority q)) + 1" "req_sequence q \<noteq> 0"
  shows "place_attempt a q \<noteq> PlDuplicate st" "place_attempt a q \<noteq> PlRefused r d"
proof -
  let ?w = "watermark_of a (av_incarnation (req_authority q))"
  have gt: "?w < ?w + 1" using assms(3,4) u64_succ by metis
  show "place_attempt a q \<noteq> PlDuplicate st" "place_attempt a q \<noteq> PlRefused r d"
    using beyond_watermark [OF assms(1,2), of q] assms(3) gt
    by (auto simp: place_attempt_def Let_def watermark_of_def [symmetric] add_overflow_def split: prod.splits)
qed

text \<open>A reconciliation with a valid proof, next in sequence.\<close>

lemma reconcile_step:
  assumes "apply_request jops q e = (out, e')" "engine_inv e" "req_op q = Reconcile" "fmlookup (e_accounts e) (request_key q) = Some a"
    "req_sequence q = watermark_of a (av_incarnation (req_authority q)) + 1"
    "challenge_verify (e_challenge e) (req_presenter q) (req_authority q) (req_proof q)"
  obtains (reconciled) "out_ok out" "admitted e q a" "frame_kept e e'" "\<not> e_journal_failed e'"
      "e_accounts e' = fmupd (request_key q) (publish_window q out (count_committed q (reconcile_incarnation q a))) (e_accounts e)"
  | (refused) "reason (out_status out) \<notin> {Ok, SequenceGap, StaleReplay}"
  | (failed) "\<not> out_ok out" "e_journal_failed e'"
proof -
  have dec: "decide e q a = DecApply (count_committed q (reconcile_incarnation q a))"
    using assms(3,6) by (simp add: decide_def decide_data_def)
  have op: "req_op q \<noteq> Describe" "req_op q \<noteq> Open" using assms(3) by simp_all
  from assms(1) op show thesis
  proof (cases rule: apply_standing)
    case (admitted x)
    then have x: "x = a" using assms(4) by (simp add: admitted_def)
    from assms(1) show thesis
    proof (cases rule: apply_cases)
      case quiet
      then show thesis using admitted by blast
    next
      case (applied y b)
      then have "y = a" using assms(4) by (simp add: admitted_def)
      then show thesis using applied dec reconciled by (simp add: status_ok_def)
    next
      case (failed y)
      then show thesis using that(3) by blast
    qed (use assms(3,4) dec in \<open>simp_all add: admitted_def\<close>)
  next
    case refused
    then show thesis using that(2) by blast
  next
    case (duplicate x st)
    then show thesis using assms(4) in_sequence_not_refused(1) [OF assms(2,4,5)] by auto
  next
    case (misplaced x r d)
    then show thesis using assms(4) in_sequence_not_refused(2) [OF assms(2,4,5)] by auto
  qed
qed

lemma failed_reconcile:
  assumes "e_journal_failed e" "reconcile_tries jops n s e = (st, s', e')"
  shows "\<not> status_ok st"
proof (cases n)
  case 0
  then show ?thesis using assms(2) by (auto simp: status_ok_def)
next
  case (Suc m)
  then show ?thesis
    using assms by (auto simp: apply_request_def refuse_outcome_def Let_def status_ok_def split: prod.splits if_splits)
qed

lemma reconciled_lookup:
  assumes "b = count_committed q (reconcile_incarnation q a)" "i = av_incarnation (req_authority q)"
  shows "\<exists>r. find_incarnation (publish_window q out b) i = Some r \<and> ir_state r = Reconciled \<and> ir_reconciled_epoch r = as_epoch a \<and>
      ir_reconciled_generation r = as_generation a \<and> ir_last_sequence r = req_sequence q"
    and "as_epoch (publish_window q out b) = as_epoch a" "as_generation (publish_window q out b) = as_generation a"
    "as_domain (publish_window q out b) = as_domain a"
  using assms
  by (auto simp: publish_window_def count_committed_def reconcile_incarnation_def find_incarnation_def update_incarnation_def
      set_incarnation_def resolve_ambiguous_def Let_def split: option.splits)

text \<open>What a successful \<open>reconcile\<close> leaves: the account with the session's incarnation live under exactly the
  session's authority vector, its watermark right below the session's sequence.\<close>

definition session_placed :: "LocalSession \<Rightarrow> 'j engine \<Rightarrow> AccountState \<Rightarrow> bool" where
  "session_placed s e a \<longleftrightarrow>
     e_recovered e \<and> \<not> e_journal_failed e \<and> lo_reconciled s \<and>
     fmlookup (e_accounts e) (id_value (lo_account s)) = Some a \<and>
     lo_authority s = \<lparr>av_domain = as_domain a, av_account = lo_account s, av_epoch = as_epoch a, av_generation = as_generation a,
                       av_incarnation = inc_id (lo_me s)\<rparr> \<and>
     is_set (inc_id (lo_me s)) \<and> make_incarnation_id (inc_publisher (lo_me s)) (inc_boot (lo_me s)) = inc_id (lo_me s) \<and>
     is_set (as_domain a) \<and> is_set (lo_account s) \<and>
     (\<exists>r. find_incarnation a (inc_id (lo_me s)) = Some r \<and> is_live (as_epoch a) (as_generation a) r) \<and>
     lo_sequence s = watermark_of a (inc_id (lo_me s)) + 1"

lemma verify_computed: "challenge_verify nonce i au (challenge_compute nonce i au)"
  by (simp add: challenge_verify_def Let_def)

lemma reconcile_tries_placed:
  assumes "reconcile_tries jops n s e = (st, s', e')" "status_ok st" "engine_inv e"
    "fmlookup (e_accounts e) (id_value (lo_account s)) = Some a" "as_domain a = lo_domain s"
    "lo_authority s = \<lparr>av_domain = lo_domain s, av_account = lo_account s, av_epoch = as_epoch a, av_generation = as_generation a,
                       av_incarnation = inc_id (lo_me s)\<rparr>" "lo_sequence s = watermark_of a (inc_id (lo_me s)) + 1"
  shows "\<exists>a'. session_placed s' e' a' \<and> frame_kept e e' \<and> lo_me s' = lo_me s \<and> lo_account s' = lo_account s"
proof (cases n)
  case 0
  then show ?thesis using assms(1,2) by (auto simp: status_ok_def)
next
  case (Suc m)
  obtain i s1 where d: "session_attempt s = (i, s1)" by fastforce
  have s1: "lo_me s1 = lo_me s" "lo_authority s1 = lo_authority s" "lo_sequence s1 = lo_sequence s" "lo_account s1 = lo_account s"
    using d by (auto simp: session_attempt_def split: prod.splits)
  define q where "q = default_request\<lparr>req_op := Reconcile, req_presenter := lo_me s1, req_attempt := i, req_sequence := lo_sequence s1,
     req_authority := lo_authority s1, req_proof := challenge_compute (e_challenge e) (lo_me s1) (lo_authority s1)\<rparr>"
  have q: "req_op q = Reconcile" "request_key q = id_value (lo_account s)" "av_incarnation (req_authority q) = inc_id (lo_me s)"
    "req_sequence q = lo_sequence s" "req_presenter q = lo_me s" "req_authority q = lo_authority s"
    "challenge_verify (e_challenge e) (req_presenter q) (req_authority q) (req_proof q)"
    using s1 assms(6) by (simp_all add: q_def request_key_def verify_computed)
  obtain out f where ap: "apply_request jops q e = (out, f)" by fastforce
  note run = assms(1) [unfolded Suc reconcile_tries.simps d prod.case Let_def, folded q_def, unfolded ap prod.case]
  have lk: "fmlookup (e_accounts e) (request_key q) = Some a" "req_sequence q = watermark_of a (av_incarnation (req_authority q)) + 1"
    using assms(4,7) q by simp_all
  show ?thesis
  proof (cases rule: reconcile_step [OF ap assms(3) q(1) lk q(7), case_names reconciled refused failed])
    case reconciled
    define b where "b = count_committed q (reconcile_incarnation q a)"
    note r = reconciled_lookup [OF b_def refl, of out]
    have st: "structural_refusal (e_limits e) q = None" "e_recovered e" using reconciled(2) by (simp_all add: admitted_def)
    have s': "s' = s1\<lparr>lo_sequence := req_sequence q + 1, lo_reconciled := True\<rparr>" "e' = f" using run reconciled(1) by simp_all
    have "session_placed s' e' (publish_window q out b)"
      using reconciled(3-5) r st s' s1 q assms(5,6)
      by (auto simp: session_placed_def b_def [symmetric] is_live_def frame_kept_def watermark_of_def structural_refusal_def Let_def split: if_splits)
    then show ?thesis using reconciled(3) s' s1 by auto
  next
    case refused
    then show ?thesis using run assms(2) by (auto simp: status_ok_def split: if_splits)
  next
    case failed
    then show ?thesis using run assms(2) failed_reconcile [OF failed(2)] by (auto simp: status_ok_def split: if_splits)
  qed
qed

lemma session_reconcile_placed:
  assumes "session_reconcile jops s e = (st, s', e')" "status_ok st" "engine_inv e"
  shows "\<exists>a. session_placed s' e' a \<and> frame_kept e e' \<and> lo_me s' = lo_me s \<and> lo_account s' = lo_account s"
proof -
  obtain a where a: "fmlookup (e_accounts e) (id_value (lo_account s)) = Some a"
    using assms(1,2) by (cases "fmlookup (e_accounts e) (id_value (lo_account s))") (auto simp: session_reconcile_def explain_def default_explanation_def Let_def status_ok_def)
  let ?au = "\<lparr>av_domain = lo_domain s, av_account = lo_account s, av_epoch = as_epoch a, av_generation = as_generation a, av_incarnation = inc_id (lo_me s)\<rparr>"
  let ?probe = "default_request\<lparr>req_op := Describe, req_sequence := 1, req_presenter := lo_me s, req_authority := ?au\<rparr>"
  obtain out f where ap: "apply_request jops ?probe e = (out, f)" by fastforce
  have run: "(if \<not> out_ok out then (out_status out, s\<lparr>lo_authority := ?au\<rparr>, f)
     else reconcile_tries jops 8 (s\<lparr>lo_authority := ?au, lo_sequence := out_sequence out + 1\<rparr>) f) = (st, s', e')"
    using assms(1) a ap by (simp add: session_reconcile_def explain_def Let_def)
  have ok: "out_ok out" using run assms(2) by (auto split: if_splits)
  have pr: "req_op ?probe = Describe" "request_key ?probe = id_value (lo_account s)" by (simp_all add: request_key_def)
  have d: "f = e" "as_domain a = lo_domain s" "out_sequence out = watermark_of a (inc_id (lo_me s))"
    using describe_ok [OF ap ok pr(1)] a by (simp_all add: pr(2)) 
  have rt: "reconcile_tries jops 8 (s\<lparr>lo_authority := ?au, lo_sequence := out_sequence out + 1\<rparr>) e = (st, s', e')" using run ok d(1) by simp
  show ?thesis using reconcile_tries_placed [OF rt assms(2,3), of a] a d(2,3) by simp
qed

lemma placed_admits:
  assumes "session_placed s e a" "engine_inv e" "req_op q \<notin> {Describe, Open, Reconcile}"
    "classify_op (req_op q) = ControlOp \<longrightarrow> inc_id (lo_me s) = inc_id (e_operator e)"
    "op_requires_count (req_op q) \<longrightarrow> req_count q \<noteq> 0" "length (req_note q) \<le> max_note_bytes (e_limits e)" "lo_sequence s \<noteq> 0"
    "window_find_by_attempt (as_window a) (req_attempt q) = None"
  shows "admitted e (session_request s q) a"
proof -
  let ?q = "session_request s q"
  have p: "e_recovered e" "\<not> e_journal_failed e" "fmlookup (e_accounts e) (id_value (lo_account s)) = Some a"
    "lo_authority s = \<lparr>av_domain = as_domain a, av_account = lo_account s, av_epoch = as_epoch a, av_generation = as_generation a,
                       av_incarnation = inc_id (lo_me s)\<rparr>"
    "is_set (inc_id (lo_me s))" "make_incarnation_id (inc_publisher (lo_me s)) (inc_boot (lo_me s)) = inc_id (lo_me s)"
    "is_set (as_domain a)" "is_set (lo_account s)" "lo_sequence s = watermark_of a (inc_id (lo_me s)) + 1"
    using assms(1) by (simp_all add: session_placed_def)
  obtain r where r: "find_incarnation a (inc_id (lo_me s)) = Some r" "is_live (as_epoch a) (as_generation a) r"
    using assms(1) by (auto simp: session_placed_def)
  have q: "req_authority ?q = lo_authority s" "req_presenter ?q = lo_me s" "req_sequence ?q = lo_sequence s" "req_op ?q = req_op q"
    "req_count ?q = req_count q" "req_note ?q = req_note q" "req_attempt ?q = req_attempt q" "request_key ?q = id_value (lo_account s)"
    using p(4) by (simp_all add: session_request_def request_key_def)
  have "structural_refusal (e_limits e) ?q = None"
    using p(4-8) assms(5-7) by (simp add: structural_refusal_def q Let_def)
  moreover have "authority_refusal e a ?q = None"
    using p(4) r assms(3,4) by (auto simp: authority_refusal_def q Let_def is_live_def)
  moreover have "place_attempt a ?q = PlNext"
    by (rule next_in_sequence [OF assms(2) p(3)]) (use p(4,9) assms(7,8) in \<open>simp_all add: q\<close>)
  ultimately show ?thesis using p(1-3) assms(3) by (simp add: admitted_def q)
qed

lemma session_reconcile_inv:
  assumes "session_reconcile jops s e = (st, s', e')" "engine_inv e"
  shows "engine_inv e'"
  using session_reconcile_runs [OF assms(1)] assms(2) run_keeps_inv by (auto simp: runs_to_def)


text \<open>The operator of the example engine, in a new process.\<close>

definition demo_session :: LocalSession where
  "demo_session = make_session demo_operator (StrongId 1) (StrongId 2) (make_generator 1 1)"

definition demo_reconcile :: CreditRequest where
  "demo_reconcile = default_request\<lparr>req_op := Reconcile, req_presenter := demo_operator, req_attempt := fst (attempt_next (make_generator 1 1)),
     req_sequence := 2, req_authority := demo_authority, req_proof := challenge_compute demo_nonce demo_operator demo_authority\<rparr>"

lemma demo_attempt_fresh: "fst (attempt_next (make_generator 1 1)) \<noteq> AttemptId (Digest128 1 7)"
  by code_simp

lemma demo_reconcile_admitted: "demo_running e \<Longrightarrow> admitted e demo_reconcile demo_account"
  using demo_operator_set demo_operator_bound demo_attempt_fresh
  by (simp add: demo_running_def admitted_def demo_reconcile_def request_key_def structural_refusal_def authority_refusal_def
      place_attempt_def demo_window demo_caller demo_live is_fenced_def add_overflow_def default_request_def Let_def is_set_def
      word_le_nat_alt word_less_nat_alt)
    (simp add: default_limits_def)?

lemma demo_reconcile_decides:
  "demo_running e \<Longrightarrow> decide e demo_reconcile demo_account = DecApply (count_committed demo_reconcile (reconcile_incarnation demo_reconcile demo_account))"
  by (simp add: demo_running_def decide_def decide_data_def demo_reconcile_def verify_computed)

lemma demo_session_reconciles:
  assumes "demo_running e" "apply_request jops demo_reconcile e = (out, e')" "out_applied out"
  shows "\<exists>s'. session_reconcile jops demo_session e = (success, s', e') \<and> lo_sequence s' = 3"
proof -
  from assms(2) have ok: "out_ok out"
  proof (cases rule: apply_cases)
  qed (use assms(3) in \<open>simp_all add: status_ok_def\<close>)
  let ?probe = "default_request\<lparr>req_op := Describe, req_sequence := 1, req_presenter := demo_operator, req_authority := demo_authority\<rparr>"
  have "\<exists>x. apply_request jops ?probe e = (x, e) \<and> out_ok x \<and> out_sequence x = 1"
    using demo_operator_set demo_operator_bound assms(1)
    by (simp add: demo_running_def apply_request_def apply_locked_def describe_locked_def structural_refusal_def demo_caller
        default_request_def status_ok_def Let_def is_set_def)
  then obtain x where x: "apply_request jops ?probe e = (x, e)" "out_ok x" "out_sequence x = 1" by blast
  have au: "\<lparr>av_domain = StrongId 1, av_account = StrongId 2, av_epoch = StrongId 1, av_generation = StrongId 1,
      av_incarnation = inc_id demo_operator\<rparr> = demo_authority" by (simp add: demo_authority_def)
  obtain i g where g: "attempt_next (make_generator 1 1) = (i, g)" by fastforce
  have q: "default_request\<lparr>req_op := Reconcile, req_presenter := demo_operator, req_attempt := i, req_sequence := 2,
      req_authority := demo_authority, req_proof := challenge_compute demo_nonce demo_operator demo_authority\<rparr> = demo_reconcile"
    by (simp add: demo_reconcile_def g)
  have seq: "req_sequence demo_reconcile = 2" by (simp add: demo_reconcile_def)
  have ch: "e_challenge e = demo_nonce" "e_accounts e = fmupd 2 demo_account fmempty" using assms(1) by (simp_all add: demo_running_def)
  have t: "reconcile_tries jops 8 (demo_session\<lparr>lo_authority := demo_authority, lo_sequence := 2\<rparr>) e =
      (success, demo_session\<lparr>lo_authority := demo_authority, lo_sequence := 3, lo_attempts := g, lo_reconciled := True\<rparr>, e')"
    using assms(2) ok seq by (simp add: eval_nat_numeral demo_session_def make_session_def session_attempt_def g q ch Let_def)
  show ?thesis
    using x t by (simp add: session_reconcile_def explain_def demo_session_def make_session_def au ch Let_def)
qed


end
