(* ===== verification/Bench.thy ===== *)
theory Bench
  imports Complex_Main Disk Session
begin

text \<open>
  The synthetic benchmark (\<open>include/creditfabric/bench.hpp\<close>, \<open>src/bench.cpp\<close>): it opens one account on an engine
  of its own, reconciles a number of wallets, makes a pseudo-random sequence of issue, return, consume and replayed
  attempts, hands everything back and reports what it counted. The boot identities, the entropy behind the engine's
  challenge and the elapsed time are parameters; a double is a \<^typ>\<open>real\<close> and its text form a parameter of
  \<open>render_bench\<close>. Shown here: the counters of the report always balance against the wallets, and everything the
  benchmark does to its engine is a bounded run of calls.
\<close>

subsection \<open>State\<close>

record BenchConfig =
  bc_scenario :: string
  bc_operations :: u64
  bc_capacity :: u64
  bc_producers :: u64
  bc_consumers :: u64
  bc_resources :: u64
  bc_seed :: u64
  bc_durable :: bool
  bc_journal_prefix :: string

definition default_bench_config :: BenchConfig where
  "default_bench_config =
     \<lparr>bc_scenario = ''synthetic-ledger'', bc_operations = 200000, bc_capacity = 4194304, bc_producers = 8,
      bc_consumers = 8, bc_resources = 4, bc_seed = 0xC0FFEE, bc_durable = False, bc_journal_prefix = ''''\<rparr>"

record BenchResult =
  br_scenario :: string
  br_provenance :: string
  br_operations_completed :: u64
  br_operations_attempted :: u64
  br_duplicates_absorbed :: u64
  br_refusals :: u64
  br_issued :: u64
  br_consumed :: u64
  br_returned :: u64
  br_seconds :: real
  br_ops_per_second :: real
  br_closure_ok :: bool
  br_final_view :: CreditView
  br_journal :: string
  br_refusal_reasons :: "(string \<times> u64) list"

definition default_bench_result :: BenchResult where
  "default_bench_result =
     \<lparr>br_scenario = '''', br_provenance = ''SYNTHETIC'', br_operations_completed = 0, br_operations_attempted = 0,
      br_duplicates_absorbed = 0, br_refusals = 0, br_issued = 0, br_consumed = 0, br_returned = 0, br_seconds = 0,
      br_ops_per_second = 0, br_closure_ok = False, br_final_view = out_view default_outcome, br_journal = '''',
      br_refusal_reasons = []\<rparr>"

record Wallet =
  wa_incarnation :: Incarnation
  wa_sequence :: u64
  wa_credits :: u64
  wa_in_flight :: u64
  wa_last_attempt :: AttemptId
  wa_last_sequence :: u64
  wa_last_op :: OpKind
  wa_last_count :: u64

definition make_wallet :: "Incarnation \<Rightarrow> Wallet" where
  "make_wallet i =
     \<lparr>wa_incarnation = i, wa_sequence = 1, wa_credits = 0, wa_in_flight = 0, wa_last_attempt = AttemptId zero_digest,
      wa_last_sequence = 0, wa_last_op = Issue, wa_last_count = 0\<rparr>"

text \<open>What the measured part works on: the locals of \<open>run_synthetic_ledger_benchmark\<close>.\<close>

record 'j bench =
  bn_engine :: "'j engine"
  bn_wallets :: "Wallet list"
  bn_attempts :: AttemptIdGenerator
  bn_state :: u64
  bn_result :: BenchResult

subsection \<open>One attempt\<close>

definition wallet_submit ::
  "'j journal_ops \<Rightarrow> OpKind \<Rightarrow> u64 \<Rightarrow> AuthorityVector \<Rightarrow> bool \<Rightarrow> Wallet \<Rightarrow> AttemptIdGenerator \<Rightarrow> 'j engine \<Rightarrow>
   CreditOutcome \<times> Wallet \<times> AttemptIdGenerator \<times> 'j engine" where
  "wallet_submit jops oper count authority duplicate wallet attempts e =
     (let request0 = default_request\<lparr>req_presenter := wa_incarnation wallet, req_authority := authority\<rparr>;
          (request, wallet1, attempts1) =
            (if duplicate \<and> wa_last_sequence wallet \<noteq> 0
             then (request0\<lparr>req_op := wa_last_op wallet, req_count := wa_last_count wallet,
                            req_attempt := wa_last_attempt wallet, req_sequence := wa_last_sequence wallet\<rparr>, wallet, attempts)
             else case attempt_next attempts of
               (i, g) \<Rightarrow>
                 (request0\<lparr>req_op := oper, req_count := count, req_attempt := i, req_sequence := wa_sequence wallet\<rparr>,
                  wallet\<lparr>wa_last_attempt := i, wa_last_sequence := wa_sequence wallet, wa_last_op := oper,
                         wa_last_count := count\<rparr>, g));
          (outcome, e1) = apply_request jops request e in
      (outcome,
       if out_decided outcome \<and> \<not> out_duplicate outcome then wallet1\<lparr>wa_sequence := req_sequence request + 1\<rparr> else wallet1,
       attempts1, e1))"

fun tally :: "string \<Rightarrow> (string \<times> u64) list \<Rightarrow> (string \<times> u64) list option" where
  "tally name [] = None"
| "tally name (entry # rest) =
     (if fst entry = name then Some ((fst entry, snd entry + 1) # rest)
      else case tally name rest of None \<Rightarrow> None | Some rest' \<Rightarrow> Some (entry # rest'))"

definition tally_refusal :: "BenchResult \<Rightarrow> Reason \<Rightarrow> BenchResult" where
  "tally_refusal result why =
     (let name = reason_to_string why in
      case tally name (br_refusal_reasons result) of
        Some reasons \<Rightarrow> result\<lparr>br_refusal_reasons := reasons\<rparr>
      | None \<Rightarrow>
          if length (br_refusal_reasons result) \<ge> 16 then result
          else result\<lparr>br_refusal_reasons := br_refusal_reasons result @ [(name, 1)]\<rparr>)"

definition next_random :: "u64 \<Rightarrow> u64" where
  "next_random s =
     (let s1 = s XOR push_bit 13 s; s2 = s1 XOR drop_bit 7 s1 in s2 XOR push_bit 17 s2)"

definition bench_authority :: "IncarnationId \<Rightarrow> AuthorityVector" where
  "bench_authority i =
     \<lparr>av_domain = StrongId 0x1D0A1D, av_account = StrongId 0xACC, av_epoch = StrongId 1, av_generation = StrongId 1,
      av_incarnation = i\<rparr>"

text \<open>A refused attempt, and an attempt that counts.\<close>

definition count_refusal :: "Reason option \<Rightarrow> BenchResult \<Rightarrow> BenchResult" where
  "count_refusal why result =
     (let result1 = result\<lparr>br_refusals := br_refusals result + 1\<rparr> in
      case why of None \<Rightarrow> result1 | Some r \<Rightarrow> tally_refusal result1 r)"

definition count_attempt :: "BenchResult \<Rightarrow> BenchResult" where
  "count_attempt result = result\<lparr>br_operations_attempted := br_operations_attempted result + 1\<rparr>"

definition count_completed :: "BenchResult \<Rightarrow> BenchResult" where
  "count_completed result = result\<lparr>br_operations_completed := br_operations_completed result + 1\<rparr>"

text \<open>What each branch of the loop does with the wallet it picked and with the report, once the engine answered.\<close>

definition after_replay :: "CreditOutcome \<Rightarrow> BenchResult \<Rightarrow> BenchResult" where
  "after_replay outcome result =
     (if out_duplicate outcome \<and> status_ok (out_status outcome)
      then count_completed (result\<lparr>br_duplicates_absorbed := br_duplicates_absorbed result + 1\<rparr>)
      else if status_ok (out_status outcome) then count_completed result
      else count_refusal (Some (reason (out_status outcome))) result)"

definition after_issue :: "u64 \<Rightarrow> CreditOutcome \<Rightarrow> Wallet \<Rightarrow> BenchResult \<Rightarrow> Wallet \<times> BenchResult" where
  "after_issue count outcome wallet result =
     (if \<not> out_ok outcome then (wallet, count_refusal (Some (reason (out_status outcome))) result)
      else (wallet\<lparr>wa_credits := wa_credits wallet + count, wa_in_flight := wa_in_flight wallet + count\<rparr>,
            count_completed (result\<lparr>br_issued := br_issued result + count\<rparr>)))"

definition after_return :: "u64 \<Rightarrow> CreditOutcome \<Rightarrow> Wallet \<Rightarrow> BenchResult \<Rightarrow> Wallet \<times> BenchResult" where
  "after_return amount outcome wallet result =
     (if \<not> out_ok outcome then (wallet, count_refusal (Some (reason (out_status outcome))) result)
      else (wallet\<lparr>wa_credits := wa_credits wallet - amount, wa_in_flight := wa_in_flight wallet - amount\<rparr>,
            count_completed (result\<lparr>br_returned := br_returned result + amount\<rparr>)))"

definition after_consume :: "CreditOutcome \<Rightarrow> Wallet \<Rightarrow> BenchResult \<Rightarrow> Wallet \<times> BenchResult" where
  "after_consume outcome wallet result =
     (if \<not> out_ok outcome then (wallet, count_refusal None result)
      else (wallet\<lparr>wa_credits := wa_credits wallet - 1\<rparr>, count_completed (result\<lparr>br_consumed := br_consumed result + 1\<rparr>)))"

subsection \<open>The measured loop\<close>

definition bench_operation :: "'j journal_ops \<Rightarrow> u64 \<Rightarrow> 'j bench \<Rightarrow> 'j bench" where
  "bench_operation jops grant b =
     (let r1 = next_random (bn_state b);
          k = unat (r1 mod of_nat (length (bn_wallets b)));
          wallet = bn_wallets b ! k;
          authority = bench_authority (inc_id (wa_incarnation wallet));
          draw = next_random r1;
          result = count_attempt (bn_result b) in
      if wa_last_sequence wallet \<noteq> 0 \<and> draw mod 97 = 0
      then case wallet_submit jops (wa_last_op wallet) (wa_last_count wallet) authority True wallet (bn_attempts b) (bn_engine b) of
             (replay, wallet1, attempts1, e1) \<Rightarrow>
               \<lparr>bn_engine = e1, bn_wallets = (bn_wallets b)[k := wallet1], bn_attempts = attempts1, bn_state = draw,
                bn_result = after_replay replay result\<rparr>
      else if wa_credits wallet = 0
      then let r3 = next_random draw; count = 1 + r3 mod grant in
           case wallet_submit jops Issue count authority False wallet (bn_attempts b) (bn_engine b) of
             (outcome, wallet1, attempts1, e1) \<Rightarrow>
               (case after_issue count outcome wallet1 result of
                  (wallet2, result1) \<Rightarrow>
                    \<lparr>bn_engine = e1, bn_wallets = (bn_wallets b)[k := wallet2], bn_attempts = attempts1, bn_state = r3,
                     bn_result = result1\<rparr>)
      else if draw mod 3 = 0
      then let r3 = next_random draw; amount = 1 + r3 mod wa_credits wallet in
           case wallet_submit jops Return amount authority False wallet (bn_attempts b) (bn_engine b) of
             (outcome, wallet1, attempts1, e1) \<Rightarrow>
               (case after_return amount outcome wallet1 result of
                  (wallet2, result1) \<Rightarrow>
                    \<lparr>bn_engine = e1, bn_wallets = (bn_wallets b)[k := wallet2], bn_attempts = attempts1, bn_state = r3,
                     bn_result = result1\<rparr>)
      else case wallet_submit jops Consume 1 authority False wallet (bn_attempts b) (bn_engine b) of
             (outcome, wallet1, attempts1, e1) \<Rightarrow>
               (case after_consume outcome wallet1 result of
                  (wallet2, result1) \<Rightarrow>
                    \<lparr>bn_engine = e1, bn_wallets = (bn_wallets b)[k := wallet2], bn_attempts = attempts1, bn_state = draw,
                     bn_result = result1\<rparr>))"

primrec bench_operations :: "'j journal_ops \<Rightarrow> u64 \<Rightarrow> nat \<Rightarrow> 'j bench \<Rightarrow> 'j bench" where
  "bench_operations jops grant 0 b = b"
| "bench_operations jops grant (Suc n) b = bench_operations jops grant n (bench_operation jops grant b)"

definition drain_wallet :: "'j journal_ops \<Rightarrow> nat \<Rightarrow> 'j bench \<Rightarrow> 'j bench" where
  "drain_wallet jops k b =
     (let wallet = bn_wallets b ! k; credits = wa_in_flight wallet in
      if credits = 0 then b
      else case wallet_submit jops Return credits (bench_authority (inc_id (wa_incarnation wallet))) False wallet
                  (bn_attempts b) (bn_engine b) of
             (outcome, wallet1, attempts1, e1) \<Rightarrow>
               let b1 = b\<lparr>bn_engine := e1, bn_wallets := (bn_wallets b)[k := wallet1], bn_attempts := attempts1\<rparr> in
               if out_ok outcome \<and> \<not> out_duplicate outcome
               then b1\<lparr>bn_result := (bn_result b1)\<lparr>br_returned := br_returned (bn_result b1) + credits\<rparr>,
                       bn_wallets := (bn_wallets b)[k := wallet1\<lparr>wa_in_flight := 0, wa_credits := 0\<rparr>]\<rparr>
               else b1)"

definition drain :: "'j journal_ops \<Rightarrow> 'j bench \<Rightarrow> 'j bench" where
  "drain jops b = fold (drain_wallet jops) [0..<length (bn_wallets b)] b"

subsection \<open>Setting up\<close>

definition bench_config_account :: "u64 \<Rightarrow> u64 \<Rightarrow> AccountConfig" where
  "bench_config_account capacity grant =
     default_config\<lparr>cfg_domain := StrongId 0x1D0A1D, cfg_account := StrongId 0xACC, cfg_resource := StrongId 0x2E50,
       cfg_policy := StrongId 1, cfg_capacity := capacity, cfg_max_capacity := capacity, cfg_profile := Synthetic,
       cfg_rules := default_policy\<lparr>min_issue := 1, max_issue_per_attempt := grant\<rparr>\<rparr>"

definition bench_open :: "'j journal_ops \<Rightarrow> u64 \<Rightarrow> u64 \<Rightarrow> Incarnation \<Rightarrow> 'j engine \<Rightarrow> CreditOutcome \<times> 'j engine" where
  "bench_open jops capacity grant operator_incarnation e =
     (let authority = bench_authority (inc_id operator_incarnation) in
      apply_request jops (default_request\<lparr>req_op := Open, req_attempt := fst (attempt_next (make_generator 0 0x0F1CE)),
        req_sequence := 1, req_presenter := operator_incarnation, req_authority := authority,
        req_config := bench_config_account capacity grant,
        req_proof := challenge_compute (e_challenge e) operator_incarnation authority\<rparr>) e)"

text \<open>The wallets from number \<open>i\<close> on; \<open>Inl\<close> is the refusal that ends the benchmark. \<open>boots\<close> are the values of
  \<open>make_boot_id()\<close>.\<close>

fun enrol :: "'j journal_ops \<Rightarrow> (nat \<Rightarrow> u64) \<Rightarrow> nat \<Rightarrow> nat \<Rightarrow> AttemptIdGenerator \<Rightarrow> 'j engine \<Rightarrow>
   (Reason + Wallet list \<times> AttemptIdGenerator) \<times> 'j engine" where
  "enrol jops boots i 0 attempts e = (Inr ([], attempts), e)"
| "enrol jops boots i (Suc n) attempts e =
     (let me = make_incarnation (StrongId (0x1000 + of_nat i)) (StrongId (boots i));
          authority = bench_authority (inc_id me) in
      case attempt_next attempts of
        (attempt, attempts1) \<Rightarrow>
          (case apply_request jops (default_request\<lparr>req_op := Reconcile, req_attempt := attempt, req_sequence := 1,
                  req_presenter := me, req_authority := authority,
                  req_proof := challenge_compute (e_challenge e) me authority\<rparr>) e of
             (outcome, e1) \<Rightarrow>
               if \<not> out_ok outcome then (Inl (reason (out_status outcome)), e1)
               else case enrol jops boots (Suc i) n attempts1 e1 of
                 (Inl why, e2) \<Rightarrow> (Inl why, e2)
               | (Inr (wallets, attempts2), e2) \<Rightarrow> (Inr ((make_wallet me)\<lparr>wa_sequence := 2\<rparr> # wallets, attempts2), e2)))"

definition bench_note :: "BenchResult \<Rightarrow> string \<Rightarrow> Reason \<Rightarrow> BenchResult" where
  "bench_note result stage why =
     result\<lparr>br_scenario := br_scenario result @ '' ('' @ stage @ '': '' @ reason_to_string why @ '')''\<rparr>"

subsection \<open>The report\<close>

definition bench_evidence :: "EngineStats \<Rightarrow> string" where
  "bench_evidence s =
     ''journal_records='' @ to_string_u64 (st_journal_records s) @ '' applied='' @ to_string_u64 (st_attempts_applied s) @
     '' refused='' @ to_string_u64 (st_attempts_refused s) @ '' duplicates='' @ to_string_u64 (st_duplicates_absorbed s) @
     '' snapshots='' @ to_string_u64 (st_snapshots s)"

text \<open>The tally has at most sixteen entries, for which \<open>std::sort\<close> is an insertion sort and keeps the order of
  equal counts.\<close>

definition bench_report :: "'j journal_ops \<Rightarrow> real \<Rightarrow> 'j engine \<Rightarrow> BenchResult \<Rightarrow> BenchResult" where
  "bench_report jops elapsed e result =
     (let view = ex_view (explain (StrongId 0xACC) e) in
      result\<lparr>br_seconds := elapsed,
        br_ops_per_second := (if elapsed > 0 then real (unat (br_operations_completed result)) / elapsed else 0),
        br_final_view := view,
        br_closure_ok := (v_closed view \<and> v_outstanding view = 0 \<and> v_available view = v_capacity view \<and>
                          v_protected view = 0 \<and> v_stale view = 0),
        br_journal := bench_evidence (stats jops e),
        br_refusal_reasons := rev (sort_key snd (rev (br_refusal_reasons result)))\<rparr>)"

definition bench_workers :: "BenchConfig \<Rightarrow> u64" where
  "bench_workers config = max 1 (bc_producers config + bc_consumers config)"

definition bench_grant :: "BenchConfig \<Rightarrow> u64" where
  "bench_grant config = max 1 (bc_capacity config div (bench_workers config * 4))"

text \<open>\<open>run_synthetic_ledger_benchmark\<close> on an engine over the chosen journal. \<open>None\<close> is a recovery for which the
  fuel was too small, or the division by zero of a number of workers whose fourfold is zero at 64 bits.\<close>

definition run_benchmark ::
  "'j journal_ops \<Rightarrow> nat \<Rightarrow> (nat \<Rightarrow> u64) \<Rightarrow> real \<Rightarrow> BenchConfig \<Rightarrow> Incarnation \<Rightarrow> 'j engine \<Rightarrow> (BenchResult \<times> 'j engine) option" where
  "run_benchmark jops fuel boots elapsed config operator_incarnation e =
     (let result = default_bench_result\<lparr>br_scenario := bc_scenario config\<rparr> in
      Option.bind (recover jops fuel e) (\<lambda>(recovered, e1).
        if \<not> status_ok recovered then Some (bench_note result ''recovery failed'' (reason recovered), e1)
        else if bench_workers config * 4 = 0 then None
        else let grant = bench_grant config in
          (case bench_open jops (bc_capacity config) grant operator_incarnation e1 of
             (outcome, e2) \<Rightarrow>
               if \<not> out_ok outcome then Some (bench_note result ''open refused'' (reason (out_status outcome)), e2)
               else case enrol jops boots 0 (unat (bench_workers config)) (make_generator 0 0xBEEFCAFE) e2 of
                 (Inl why, e3) \<Rightarrow> Some (bench_note result ''reconcile refused'' why, e3)
               | (Inr (wallets, attempts), e3) \<Rightarrow>
                   let b = drain jops (bench_operations jops grant (unat (bc_operations config))
                             \<lparr>bn_engine = e3, bn_wallets = wallets, bn_attempts = attempts, bn_state = bc_seed config OR 1,
                              bn_result = result\<rparr>)
                   in Some (bench_report jops elapsed (bn_engine b) (bn_result b), bn_engine b))))"

text \<open>The engines the function builds for its two kinds of journal.\<close>

definition bench_limits :: EngineLimits where
  "bench_limits = default_limits\<lparr>max_attempt_window := 4096\<rparr>"

definition bench_operator :: "u64 \<Rightarrow> Incarnation" where
  "bench_operator boot = make_incarnation (StrongId 0xB00B) (StrongId boot)"

definition bench_memory_engine :: "u64 \<Rightarrow> Digest128 \<Rightarrow> InMemoryJournal engine" where
  "bench_memory_engine boot nonce = make_engine bench_limits (Some (make_in_memory 0x100000000)) (bench_operator boot) nonce"

definition bench_file_options :: "BenchConfig \<Rightarrow> FileJournalOptions" where
  "bench_file_options config =
     default_file_options\<lparr>fo_prefix := (if bc_journal_prefix config = '''' then ''creditfabric-bench'' else bc_journal_prefix config),
       fo_max_bytes := 0x100000000, fo_records_per_snapshot := 1048576\<rparr>"

definition bench_file_engine :: "BenchConfig \<Rightarrow> u64 \<Rightarrow> Digest128 \<Rightarrow> file_world \<Rightarrow> FileJournal engine" where
  "bench_file_engine config boot nonce w =
     make_engine bench_limits (Some (make_file_journal (bench_file_options config) w)) (bench_operator boot) nonce"

definition run_synthetic_ledger_benchmark ::
  "nat \<Rightarrow> u64 \<Rightarrow> (nat \<Rightarrow> u64) \<Rightarrow> Digest128 \<Rightarrow> real \<Rightarrow> file_world \<Rightarrow> BenchConfig \<Rightarrow> BenchResult option" where
  "run_synthetic_ledger_benchmark fuel boot boots nonce elapsed w config =
     (if bc_durable config
      then map_option fst (run_benchmark file_ops fuel boots elapsed config (bench_operator boot) (bench_file_engine config boot nonce w))
      else map_option fst (run_benchmark in_memory_ops fuel boots elapsed config (bench_operator boot) (bench_memory_engine boot nonce)))"

fun render_reasons :: "(string \<times> u64) list \<Rightarrow> string" where
  "render_reasons [] = ''none''"
| "render_reasons [entry] = fst entry @ '':'' @ to_string_u64 (snd entry)"
| "render_reasons (entry # rest) = fst entry @ '':'' @ to_string_u64 (snd entry) @ '','' @ render_reasons rest"

text \<open>\<open>show_double\<close> is \<open>std::to_string(double)\<close>.\<close>

definition render_bench :: "(real \<Rightarrow> string) \<Rightarrow> BenchResult \<Rightarrow> string" where
  "render_bench show_double result =
     ''scenario='' @ br_scenario result @ '' provenance='' @ br_provenance result @ [CHR 0x0A] @
     ''  operations_completed='' @ to_string_u64 (br_operations_completed result) @
     '' attempted='' @ to_string_u64 (br_operations_attempted result) @
     '' refusals='' @ to_string_u64 (br_refusals result) @
     '' duplicates='' @ to_string_u64 (br_duplicates_absorbed result) @ [CHR 0x0A] @
     ''  issued='' @ to_string_u64 (br_issued result) @ '' consumed='' @ to_string_u64 (br_consumed result) @
     '' returned='' @ to_string_u64 (br_returned result) @ [CHR 0x0A] @
     ''  seconds='' @ show_double (br_seconds result) @
     '' completed_ops_per_second='' @ show_double (br_ops_per_second result) @ [CHR 0x0A] @
     ''  final: '' @ view_to_string (br_final_view result) @
     '' closure='' @ (if br_closure_ok result then ''closed'' else ''OPEN'') @ [CHR 0x0A] @
     ''  refusal_reasons='' @ render_reasons (br_refusal_reasons result) @ [CHR 0x0A] @
     ''  evidence='' @ br_journal result @ [CHR 0x0A]"

subsection \<open>The books balance\<close>

lemma sum_list_replace:
  fixes f :: "'a \<Rightarrow> 'b :: ab_group_add"
  shows "k < length xs \<Longrightarrow> sum_list (map f (xs[k := y])) = sum_list (map f xs) + (f y - f (xs ! k))"
  by (induction xs arbitrary: k) (auto simp: algebra_simps split: nat.splits)

definition total_in_flight :: "Wallet list \<Rightarrow> u64" where
  "total_in_flight ws = sum_list (map wa_in_flight ws)"

definition total_spent :: "Wallet list \<Rightarrow> u64" where
  "total_spent ws = sum_list (map (\<lambda>w. wa_in_flight w - wa_credits w) ws)"

lemma total_replace:
  assumes "k < length ws"
  shows "total_in_flight (ws[k := w]) = total_in_flight ws + (wa_in_flight w - wa_in_flight (ws ! k))"
    "total_spent (ws[k := w]) = total_spent ws + (wa_in_flight w - wa_credits w - (wa_in_flight (ws ! k) - wa_credits (ws ! k)))"
  using assms by (simp_all add: total_in_flight_def total_spent_def sum_list_replace)

text \<open>What the report says of the credit and of the attempts, and the bound on the tally.\<close>

definition credit_books :: "'j bench \<Rightarrow> bool" where
  "credit_books b \<longleftrightarrow> br_issued (bn_result b) = br_returned (bn_result b) + total_in_flight (bn_wallets b)"

definition attempt_books :: "BenchResult \<Rightarrow> bool" where
  "attempt_books r \<longleftrightarrow> br_operations_attempted r = br_operations_completed r + br_refusals r \<and>
     length (br_refusal_reasons r) \<le> 16 \<and> distinct (map fst (br_refusal_reasons r))"

definition bench_books :: "'j bench \<Rightarrow> bool" where
  "bench_books b \<longleftrightarrow> credit_books b \<and> br_consumed (bn_result b) = total_spent (bn_wallets b) \<and> attempt_books (bn_result b)"

lemma tally_Some: "tally name rs = Some rs' \<Longrightarrow> map fst rs' = map fst rs"
  by (induction rs arbitrary: rs') (auto split: if_splits option.splits)

lemma tally_None: "tally name rs = None \<longleftrightarrow> name \<notin> fst ` set rs"
  by (induction rs) (auto split: option.splits)

lemma tally_refusal_rest:
  "br_issued (tally_refusal r why) = br_issued r" "br_returned (tally_refusal r why) = br_returned r"
  "br_consumed (tally_refusal r why) = br_consumed r" "br_refusals (tally_refusal r why) = br_refusals r"
  "br_operations_attempted (tally_refusal r why) = br_operations_attempted r"
  "br_operations_completed (tally_refusal r why) = br_operations_completed r"
  by (simp_all add: tally_refusal_def Let_def split: option.splits)

lemma tally_refusal_bounded:
  assumes "length (br_refusal_reasons r) \<le> 16" "distinct (map fst (br_refusal_reasons r))"
  shows "length (br_refusal_reasons (tally_refusal r why)) \<le> 16 \<and> distinct (map fst (br_refusal_reasons (tally_refusal r why)))"
proof (cases "tally (reason_to_string why) (br_refusal_reasons r)")
  case None
  moreover from None have "reason_to_string why \<notin> fst ` set (br_refusal_reasons r)" by (simp add: tally_None)
  ultimately show ?thesis using assms by (auto simp: tally_refusal_def Let_def)
next
  case (Some rs)
  from tally_Some [OF this] have "length rs = length (br_refusal_reasons r)" "map fst rs = map fst (br_refusal_reasons r)"
    by (metis length_map)+
  then show ?thesis using assms Some by (simp add: tally_refusal_def Let_def)
qed

lemma count_rest:
  "br_issued (count_refusal why r) = br_issued r" "br_returned (count_refusal why r) = br_returned r"
  "br_consumed (count_refusal why r) = br_consumed r"
  "br_operations_attempted (count_refusal why r) = br_operations_attempted r"
  "br_operations_completed (count_refusal why r) = br_operations_completed r" "br_refusals (count_refusal why r) = br_refusals r + 1"
  by (simp_all add: count_refusal_def Let_def tally_refusal_rest split: option.splits)

lemma count_refusal_bounded:
  assumes "length (br_refusal_reasons r) \<le> 16" "distinct (map fst (br_refusal_reasons r))"
  shows "length (br_refusal_reasons (count_refusal why r)) \<le> 16" "distinct (map fst (br_refusal_reasons (count_refusal why r)))"
  using assms tally_refusal_bounded [of "r\<lparr>br_refusals := br_refusals r + 1\<rparr>"]
  by (auto simp: count_refusal_def Let_def split: option.splits)

lemmas after_defs = after_replay_def after_issue_def after_return_def after_consume_def count_completed_def count_attempt_def

lemma wallet_submit_wallet:
  assumes "wallet_submit jops oper c au d w g e = (out, w', g', e')"
  shows "wa_credits w' = wa_credits w" "wa_in_flight w' = wa_in_flight w" "\<exists>q. apply_request jops q e = (out, e')"
  using assms by (auto simp: wallet_submit_def Let_def split: if_splits prod.splits)

text \<open>Each branch of the loop is one attempt that replaces one wallet.\<close>

lemma bench_operation_cases [consumes 2, case_names replay issue return consume]:
  assumes "0 < length (bn_wallets b)" "length (bn_wallets b) < 2 ^ 64"
  obtains k w q out e s g where "k < length (bn_wallets b)" "apply_request jops q (bn_engine b) = (out, e)"
    "wa_credits w = wa_credits (bn_wallets b ! k)" "wa_in_flight w = wa_in_flight (bn_wallets b ! k)"
    "bench_operation jops grant b = \<lparr>bn_engine = e, bn_wallets = (bn_wallets b)[k := w], bn_attempts = g, bn_state = s,
       bn_result = after_replay out (count_attempt (bn_result b))\<rparr>"
  | k w c q out e s g where "k < length (bn_wallets b)" "apply_request jops q (bn_engine b) = (out, e)"
    "wa_credits w = wa_credits (bn_wallets b ! k)" "wa_in_flight w = wa_in_flight (bn_wallets b ! k)"
    "bench_operation jops grant b = \<lparr>bn_engine = e, bn_wallets = (bn_wallets b)[k := fst (after_issue c out w (count_attempt (bn_result b)))],
       bn_attempts = g, bn_state = s, bn_result = snd (after_issue c out w (count_attempt (bn_result b)))\<rparr>"
  | k w c q out e s g where "k < length (bn_wallets b)" "apply_request jops q (bn_engine b) = (out, e)"
    "wa_credits w = wa_credits (bn_wallets b ! k)" "wa_in_flight w = wa_in_flight (bn_wallets b ! k)"
    "bench_operation jops grant b = \<lparr>bn_engine = e, bn_wallets = (bn_wallets b)[k := fst (after_return c out w (count_attempt (bn_result b)))],
       bn_attempts = g, bn_state = s, bn_result = snd (after_return c out w (count_attempt (bn_result b)))\<rparr>"
  | k w q out e s g where "k < length (bn_wallets b)" "apply_request jops q (bn_engine b) = (out, e)"
    "wa_credits w = wa_credits (bn_wallets b ! k)" "wa_in_flight w = wa_in_flight (bn_wallets b ! k)"
    "bench_operation jops grant b = \<lparr>bn_engine = e, bn_wallets = (bn_wallets b)[k := fst (after_consume out w (count_attempt (bn_result b)))],
       bn_attempts = g, bn_state = s, bn_result = snd (after_consume out w (count_attempt (bn_result b)))\<rparr>"
proof -
  define r1 where "r1 = next_random (bn_state b)"
  define k where "k = unat (r1 mod of_nat (length (bn_wallets b)))"
  define w where "w = bn_wallets b ! k"
  define au where "au = bench_authority (inc_id (wa_incarnation w))"
  define d where "d = next_random r1"
  define c where "c = 1 + next_random d mod grant"
  define a where "a = 1 + next_random d mod wa_credits w"
  have k: "k < length (bn_wallets b)"
    using assms by (simp add: k_def unat_mod unat_of_nat take_bit_nat_eq_self)
  note unf = bench_operation_def Let_def r1_def [symmetric] k_def [symmetric] w_def [symmetric] d_def [symmetric]
    au_def [symmetric] c_def [symmetric] a_def [symmetric]
  consider "wa_last_sequence w \<noteq> 0 \<and> d mod 97 = 0" | "\<not> (wa_last_sequence w \<noteq> 0 \<and> d mod 97 = 0)" "wa_credits w = 0"
    | "\<not> (wa_last_sequence w \<noteq> 0 \<and> d mod 97 = 0)" "wa_credits w \<noteq> 0" "d mod 3 = 0"
    | "\<not> (wa_last_sequence w \<noteq> 0 \<and> d mod 97 = 0)" "wa_credits w \<noteq> 0" "d mod 3 \<noteq> 0" by blast
  then show thesis
  proof cases
    case 1
    obtain out w' g e where s: "wallet_submit jops (wa_last_op w) (wa_last_count w) au True w (bn_attempts b) (bn_engine b) = (out, w', g, e)"
      by (metis prod_cases4)
    obtain q where "apply_request jops q (bn_engine b) = (out, e)" using wallet_submit_wallet(3) [OF s] by blast
    from that(1) [OF k this, of w'] show thesis using 1 s wallet_submit_wallet(1,2) [OF s] by (simp add: unf)
  next
    case 2
    obtain out w' g e where s: "wallet_submit jops Issue c au False w (bn_attempts b) (bn_engine b) = (out, w', g, e)"
      by (metis prod_cases4)
    obtain q where "apply_request jops q (bn_engine b) = (out, e)" using wallet_submit_wallet(3) [OF s] by blast
    from that(2) [OF k this, of w' c] show thesis using 2 s wallet_submit_wallet(1,2) [OF s] by (simp add: unf split_def)
  next
    case 3
    obtain out w' g e where s: "wallet_submit jops Return a au False w (bn_attempts b) (bn_engine b) = (out, w', g, e)"
      by (metis prod_cases4)
    obtain q where "apply_request jops q (bn_engine b) = (out, e)" using wallet_submit_wallet(3) [OF s] by blast
    from that(3) [OF k this, of w' a] show thesis using 3 s wallet_submit_wallet(1,2) [OF s] by (simp add: unf split_def)
  next
    case 4
    obtain out w' g e where s: "wallet_submit jops Consume 1 au False w (bn_attempts b) (bn_engine b) = (out, w', g, e)"
      by (metis prod_cases4)
    obtain q where "apply_request jops q (bn_engine b) = (out, e)" using wallet_submit_wallet(3) [OF s] by blast
    from that(4) [OF k this, of w'] show thesis using 4 s wallet_submit_wallet(1,2) [OF s] by (simp add: unf split_def)
  qed
qed

lemmas book_defs = bench_books_def credit_books_def attempt_books_def

text \<open>An attempt that changes nothing but the counters.\<close>

lemma replace_same:
  assumes "k < length ws" "wa_credits w = wa_credits (ws ! k)" "wa_in_flight w = wa_in_flight (ws ! k)"
  shows "total_in_flight (ws[k := w]) = total_in_flight ws" "total_spent (ws[k := w]) = total_spent ws"
  using assms by (simp_all add: total_replace)

lemma bench_operation_books:
  assumes "0 < length (bn_wallets b)" "length (bn_wallets b) < 2 ^ 64" "bench_books b"
  shows "bench_books (bench_operation jops grant b)" "length (bn_wallets (bench_operation jops grant b)) = length (bn_wallets b)"
    "br_operations_attempted (bn_result (bench_operation jops grant b)) = br_operations_attempted (bn_result b) + 1"
    "runs_to jops (bn_engine b) (bn_engine (bench_operation jops grant b)) 1"
proof -
  have step: "runs_to jops (bn_engine b) e 1" if "apply_request jops q (bn_engine b) = (out, e)" for q out e
    using runs_to_step [OF that runs_to_refl, of 0] by simp
  let ?b = "bench_operation jops grant b"
  have "bench_books ?b \<and> length (bn_wallets ?b) = length (bn_wallets b) \<and>
      br_operations_attempted (bn_result ?b) = br_operations_attempted (bn_result b) + 1 \<and> runs_to jops (bn_engine b) (bn_engine ?b) 1"
    using assms(1,2)
  proof (cases rule: bench_operation_cases [of b jops grant])
    case (replay k w q out e s g)
    then show ?thesis using assms(3) step [OF replay(2)]
      by (auto simp: book_defs replace_same after_defs count_rest count_refusal_bounded)
  next
    case (issue k w c q out e s g)
    then show ?thesis using assms(3) step [OF issue(2)]
      by (auto simp: book_defs replace_same total_replace after_defs count_rest count_refusal_bounded)
  next
    case (return k w c q out e s g)
    then show ?thesis using assms(3) step [OF return(2)]
      by (auto simp: book_defs replace_same total_replace after_defs count_rest count_refusal_bounded)
  next
    case (consume k w q out e s g)
    then show ?thesis using assms(3) step [OF consume(2)]
      by (auto simp: book_defs replace_same total_replace after_defs count_rest count_refusal_bounded)
  qed
  then show "bench_books ?b" "length (bn_wallets ?b) = length (bn_wallets b)"
    "br_operations_attempted (bn_result ?b) = br_operations_attempted (bn_result b) + 1" "runs_to jops (bn_engine b) (bn_engine ?b) 1"
    by blast+
qed

lemma bench_operations_books:
  assumes "0 < length (bn_wallets b)" "length (bn_wallets b) < 2 ^ 64" "bench_books b"
  shows "bench_books (bench_operations jops grant n b) \<and>
    length (bn_wallets (bench_operations jops grant n b)) = length (bn_wallets b) \<and>
    br_operations_attempted (bn_result (bench_operations jops grant n b)) = br_operations_attempted (bn_result b) + of_nat n \<and>
    runs_to jops (bn_engine b) (bn_engine (bench_operations jops grant n b)) n"
  using assms
proof (induction n arbitrary: b)
  case (Suc n)
  note one = bench_operation_books [OF Suc.prems, of jops grant]
  have "0 < length (bn_wallets (bench_operation jops grant b))" "length (bn_wallets (bench_operation jops grant b)) < 2 ^ 64"
    using Suc.prems(1,2) one(2) by simp_all
  note rest = Suc.IH [OF this one(1)]
  show ?case using rest one runs_to_trans [OF one(4)] by (simp add: algebra_simps)
qed (simp add: runs_to_refl)

lemma drain_wallet_books:
  assumes "k < length (bn_wallets b)" "credit_books b"
  shows "credit_books (drain_wallet jops k b) \<and> length (bn_wallets (drain_wallet jops k b)) = length (bn_wallets b) \<and>
    runs_to jops (bn_engine b) (bn_engine (drain_wallet jops k b)) 1 \<and>
    (attempt_books (bn_result b) \<longrightarrow> attempt_books (bn_result (drain_wallet jops k b))) \<and>
    br_issued (bn_result (drain_wallet jops k b)) = br_issued (bn_result b) \<and>
    br_operations_attempted (bn_result (drain_wallet jops k b)) = br_operations_attempted (bn_result b)"
proof (cases "wa_in_flight (bn_wallets b ! k) = 0")
  case True
  then show ?thesis using assms by (simp add: drain_wallet_def runs_to_refl)
next
  case False
  let ?w = "bn_wallets b ! k"
  obtain out w g e where s: "wallet_submit jops Return (wa_in_flight ?w) (bench_authority (inc_id (wa_incarnation ?w))) False ?w
      (bn_attempts b) (bn_engine b) = (out, w, g, e)" by (metis prod_cases4)
  obtain q where q: "apply_request jops q (bn_engine b) = (out, e)" using wallet_submit_wallet(3) [OF s] by blast
  have "runs_to jops (bn_engine b) e 1" using runs_to_step [OF q runs_to_refl, of 0] by simp
  then show ?thesis
    using assms False s wallet_submit_wallet(1,2) [OF s]
    by (auto simp: drain_wallet_def Let_def credit_books_def attempt_books_def total_replace)
qed

lemma drain_books:
  assumes "\<forall>k\<in>set ks. k < length (bn_wallets b)" "credit_books b"
  shows "credit_books (fold (drain_wallet jops) ks b) \<and> length (bn_wallets (fold (drain_wallet jops) ks b)) = length (bn_wallets b) \<and>
    runs_to jops (bn_engine b) (bn_engine (fold (drain_wallet jops) ks b)) (length ks) \<and>
    (attempt_books (bn_result b) \<longrightarrow> attempt_books (bn_result (fold (drain_wallet jops) ks b))) \<and>
    br_issued (bn_result (fold (drain_wallet jops) ks b)) = br_issued (bn_result b) \<and>
    br_operations_attempted (bn_result (fold (drain_wallet jops) ks b)) = br_operations_attempted (bn_result b)"
  using assms
proof (induction ks arbitrary: b)
  case (Cons k ks)
  have one: "credit_books (drain_wallet jops k b) \<and> length (bn_wallets (drain_wallet jops k b)) = length (bn_wallets b) \<and>
    runs_to jops (bn_engine b) (bn_engine (drain_wallet jops k b)) 1 \<and>
    (attempt_books (bn_result b) \<longrightarrow> attempt_books (bn_result (drain_wallet jops k b))) \<and>
    br_issued (bn_result (drain_wallet jops k b)) = br_issued (bn_result b) \<and>
    br_operations_attempted (bn_result (drain_wallet jops k b)) = br_operations_attempted (bn_result b)"
    by (rule drain_wallet_books) (use Cons.prems in simp_all)
  have "\<forall>x\<in>set ks. x < length (bn_wallets (drain_wallet jops k b))" using one Cons.prems(1) by simp
  from Cons.IH [OF this] one show ?case
    using runs_to_trans [of jops "bn_engine b" "bn_engine (drain_wallet jops k b)" 1] by auto
qed (simp add: runs_to_refl)

text \<open>The wallets start empty.\<close>

definition wallet_fresh :: "Wallet \<Rightarrow> bool" where
  "wallet_fresh w \<longleftrightarrow> wa_credits w = 0 \<and> wa_in_flight w = 0"

lemma enrol_fresh:
  "enrol jops boots i n g e = (r, e') \<Longrightarrow>
     runs_to jops e e' n \<and> (\<forall>ws g'. r = Inr (ws, g') \<longrightarrow> length ws = n \<and> list_all wallet_fresh ws)"
proof (induction n arbitrary: i g e r e')
  case (Suc n)
  let ?me = "make_incarnation (StrongId (0x1000 + of_nat i)) (StrongId (boots i)) :: Incarnation"
  obtain a g1 where a: "attempt_next g = (a, g1)" by fastforce
  let ?q = "default_request\<lparr>req_op := Reconcile, req_attempt := a, req_sequence := 1, req_presenter := ?me,
      req_authority := bench_authority (inc_id ?me),
      req_proof := challenge_compute (e_challenge e) ?me (bench_authority (inc_id ?me))\<rparr>"
  obtain out e1 where o: "apply_request jops ?q e = (out, e1)" by fastforce
  show ?case
  proof (cases "out_ok out")
    case False
    then have "r = Inl (reason (out_status out))" "e' = e1" using Suc.prems a o by (simp_all add: Let_def)
    then show ?thesis using runs_to_step [OF o runs_to_refl] by simp
  next
    case True
    obtain r2 e2 where r: "enrol jops boots (Suc i) n g1 e1 = (r2, e2)" by fastforce
    from Suc.IH [OF r] have rest: "runs_to jops e1 e2 n" "\<And>ws g'. r2 = Inr (ws, g') \<Longrightarrow> length ws = n \<and> list_all wallet_fresh ws"
      by auto
    have "e' = e2" using Suc.prems a o True r by (auto simp: Let_def split: sum.splits prod.splits)
    moreover have "length ws = Suc n \<and> list_all wallet_fresh ws" if "r = Inr (ws, g')" for ws g'
      using Suc.prems a o True r rest(2) that
      by (auto simp: Let_def wallet_fresh_def make_wallet_def split: sum.splits prod.splits)
    ultimately show ?thesis using runs_to_step [OF o rest(1)] by blast
  qed
qed (simp add: runs_to_refl)

lemma fresh_books:
  assumes "list_all wallet_fresh ws"
  shows "total_in_flight ws = 0" "total_spent ws = 0"
  using assms by (induction ws) (simp_all add: total_in_flight_def total_spent_def wallet_fresh_def)

text \<open>C39: the books of the benchmark balance. From wallets without credit and an empty report, after any number of
  operations, whatever the engine answers, the credit reported as issued is the credit reported as returned plus what
  the wallets hold in flight, the credit reported as consumed is what they hold beyond their spendable credit, and the
  attempts reported are exactly the operations made, each completed or refused. The final drain keeps the first
  balance, so when every wallet could hand its credit back, issued and returned agree. The tally of reasons never has
  more than sixteen entries, and the engine was changed by at most one call for each operation and each wallet.\<close>

theorem benchmark_books_balance:
  assumes "list_all wallet_fresh (bn_wallets b)" "bn_result b = default_bench_result\<lparr>br_scenario := s\<rparr>"
    "0 < length (bn_wallets b)" "length (bn_wallets b) < 2 ^ 64"
    "m = bench_operations jops grant n b" "d = drain jops m"
  shows "br_issued (bn_result m) = br_returned (bn_result m) + total_in_flight (bn_wallets m) \<and>
    br_consumed (bn_result m) = total_spent (bn_wallets m) \<and>
    br_issued (bn_result d) = br_returned (bn_result d) + total_in_flight (bn_wallets d) \<and>
    br_operations_attempted (bn_result d) = of_nat n \<and>
    br_operations_attempted (bn_result d) = br_operations_completed (bn_result d) + br_refusals (bn_result d) \<and>
    length (br_refusal_reasons (bn_result d)) \<le> 16 \<and>
    distinct (map fst (br_refusal_reasons (bn_result d))) \<and>
    runs_to jops (bn_engine b) (bn_engine d) (n + length (bn_wallets b))"
proof -
  have "bench_books b" using assms(1,2) by (simp add: book_defs fresh_books default_bench_result_def)
  from bench_operations_books [OF assms(3,4) this, of jops grant n]
  have m: "bench_books m" "length (bn_wallets m) = length (bn_wallets b)" "br_operations_attempted (bn_result m) = of_nat n"
    "runs_to jops (bn_engine b) (bn_engine m) n"
    using assms(2,5) by (simp_all add: default_bench_result_def)
  then have cb: "credit_books m" "attempt_books (bn_result m)" by (simp_all add: bench_books_def)
  have d: "credit_books d \<and> length (bn_wallets d) = length (bn_wallets m) \<and>
      runs_to jops (bn_engine m) (bn_engine d) (length [0..<length (bn_wallets m)]) \<and> (attempt_books (bn_result m) \<longrightarrow> attempt_books (bn_result d)) \<and>
      br_issued (bn_result d) = br_issued (bn_result m) \<and> br_operations_attempted (bn_result d) = br_operations_attempted (bn_result m)"
    unfolding assms(6) drain_def by (rule drain_books [OF _ cb(1)]) simp
  have "runs_to jops (bn_engine b) (bn_engine d) (n + length (bn_wallets b))"
    using runs_to_trans [OF m(4)] d m(2) by simp
  moreover have "br_consumed (bn_result m) = total_spent (bn_wallets m)" using m(1) by (simp add: bench_books_def)
  moreover have "br_operations_attempted (bn_result d) = of_nat n" using d m(3) by simp
  moreover have "br_issued (bn_result m) = br_returned (bn_result m) + total_in_flight (bn_wallets m)"
    "br_issued (bn_result d) = br_returned (bn_result d) + total_in_flight (bn_wallets d)"
    "br_operations_attempted (bn_result d) = br_operations_completed (bn_result d) + br_refusals (bn_result d)"
    "length (br_refusal_reasons (bn_result d)) \<le> 16" "distinct (map fst (br_refusal_reasons (bn_result d)))"
    using cb d by (simp_all add: credit_books_def attempt_books_def)
  ultimately show ?thesis by blast
qed

definition demo_bench :: "InMemoryJournal bench" where
  "demo_bench = \<lparr>bn_engine = demo_engine, bn_wallets = [(make_wallet demo_operator)\<lparr>wa_sequence := 2\<rparr>],
     bn_attempts = make_generator 0 0xBEEFCAFE, bn_state = 0xC0FFEF, bn_result = default_bench_result\<rparr>"

theorem benchmark_books_balance_witness:
  "br_issued (bn_result (drain in_memory_ops (bench_operations in_memory_ops 64 40 demo_bench))) =
     br_returned (bn_result (drain in_memory_ops (bench_operations in_memory_ops 64 40 demo_bench))) +
     total_in_flight (bn_wallets (drain in_memory_ops (bench_operations in_memory_ops 64 40 demo_bench))) \<and>
   br_operations_attempted (bn_result (drain in_memory_ops (bench_operations in_memory_ops 64 40 demo_bench))) = 40"
proof -
  have "list_all wallet_fresh (bn_wallets demo_bench)" "bn_result demo_bench = default_bench_result\<lparr>br_scenario := []\<rparr>"
    "0 < length (bn_wallets demo_bench)" "length (bn_wallets demo_bench) < 2 ^ 64"
    by (simp_all add: demo_bench_def wallet_fresh_def make_wallet_def default_bench_result_def)
  from benchmark_books_balance [OF this refl refl, of in_memory_ops 64 40] show ?thesis by simp
qed

text \<open>A run of the benchmark makes those stages on the engine it recovered, with at most one call for opening, two for
  each wallet and one for each operation.\<close>

lemma run_benchmark_runs:
  assumes "run_benchmark jops fuel boots elapsed config me e = Some (r, e')" "recover jops fuel e = Some (st, e1)"
  shows "runs_to jops e1 e' (1 + 2 * unat (bench_workers config) + unat (bc_operations config))"
proof (cases "status_ok st")
  case False
  then show ?thesis using assms by (simp add: run_benchmark_def runs_to_refl)
next
  case True
  define w where "w = unat (bench_workers config)"
  have wb: "0 < w" "w < 2 ^ 64"
    using u64_bound [of "bench_workers config"] by (auto simp: w_def bench_workers_def max_def unat_gt_0)
  have nz: "bench_workers config * 4 \<noteq> 0" using assms True by (auto simp: run_benchmark_def Let_def)
  obtain out e2 where o: "bench_open jops (bc_capacity config) (bench_grant config) me e1 = (out, e2)" by fastforce
  have first: "runs_to jops e1 e2 1" using runs_to_step [OF o [unfolded bench_open_def Let_def] runs_to_refl, of 0] by simp
  show ?thesis
  proof (cases "out_ok out")
    case False
    then have "e' = e2" using assms True nz o by (simp add: run_benchmark_def Let_def)
    then show ?thesis using runs_to_weaken [OF first] by simp
  next
    case ok: True
    obtain x e3 where x: "enrol jops boots 0 w (make_generator 0 0xBEEFCAFE) e2 = (x, e3)" by fastforce
    have second: "runs_to jops e1 e3 (1 + w)" using runs_to_trans [OF first] enrol_fresh [OF x] by simp
    show ?thesis
    proof (cases x)
      case (Inl why)
      then have "e' = e3" using assms True nz o ok x by (simp add: run_benchmark_def Let_def w_def)
      then show ?thesis using runs_to_weaken [OF second] by (simp add: w_def)
    next
      case (Inr y)
      obtain ws g where y: "y = (ws, g)" by fastforce
      define b where "b = \<lparr>bn_engine = e3, bn_wallets = ws, bn_attempts = g, bn_state = bc_seed config OR 1,
        bn_result = default_bench_result\<lparr>br_scenario := bc_scenario config\<rparr>\<rparr>"
      define m where "m = bench_operations jops (bench_grant config) (unat (bc_operations config)) b"
      have e': "e' = bn_engine (drain jops m)"
        using assms True nz o ok x Inr y by (simp add: run_benchmark_def Let_def w_def m_def b_def)
      have ws: "length ws = w" "list_all wallet_fresh ws" using enrol_fresh [OF x] Inr y by auto
      then have bb: "0 < length (bn_wallets b)" "length (bn_wallets b) < 2 ^ 64" "bench_books b"
        using wb by (simp_all add: b_def book_defs fresh_books default_bench_result_def)
      from bench_operations_books [OF bb, of jops "bench_grant config" "unat (bc_operations config)"]
      have mm: "credit_books m" "length (bn_wallets m) = w" "runs_to jops e3 (bn_engine m) (unat (bc_operations config))"
        using ws by (simp_all add: m_def bench_books_def) (simp_all add: b_def)
      have "runs_to jops (bn_engine m) e' w"
        using drain_books [OF _ mm(1), of "[0..<w]" jops] mm(2) by (simp add: e' drain_def)
      from runs_to_trans [OF second runs_to_trans [OF mm(3) this]] show ?thesis by (simp add: w_def mult_2 ac_simps)
    qed
  qed
qed

end
