(* ===== verification/Tools.thy ===== *)
theory Tools
  imports Bench
begin

text \<open>
  The command line tools (\<open>apps/\<close>): the argument reader shared by them (\<open>args.hpp\<close>), the operator tool \<open>cfctl\<close> in its
  offline and remote modes, the worker, the coordinator process and the benchmark driver. A tool's run ends with an
  exit code and what it printed; \<open>None\<close> is a run that does not end. What a process reads from the operating system
  (entropy, boot identities, elapsed time, the state of the files and of the network) is a parameter. Shown here: an
  operator command that exits with zero has its decision on disk, which arguments are accepted, that identities are
  read back as printed, and that the coordinator process ends once it has served what it was asked to.
\<close>

subsection \<open>Arguments\<close>

type_synonym args = "string list"

definition args_has :: "args \<Rightarrow> string \<Rightarrow> bool" where
  "args_has values flag = list_ex (\<lambda>v. v = flag) values"

fun args_get :: "args \<Rightarrow> string \<Rightarrow> string \<Rightarrow> string" where
  "args_get (v # w # rest) flag fallback = (if v = flag then w else args_get (w # rest) flag fallback)"
| "args_get values flag fallback = fallback"

text \<open>\<open>number\<close>, with the caller's \<open>ok\<close> passed through.\<close>

definition args_number :: "args \<Rightarrow> string \<Rightarrow> u64 \<Rightarrow> bool \<Rightarrow> u64 \<times> bool" where
  "args_number values flag fallback ok =
     (let text = args_get values flag '''' in
      if text = [] then (fallback, ok)
      else case parse_u64 text of None \<Rightarrow> (fallback, False) | Some v \<Rightarrow> (v, True))"

text \<open>\<open>None\<close> is the exception of \<open>substr\<close> on a name shorter than two characters.\<close>

definition args_flag :: "args \<Rightarrow> string \<Rightarrow> bool \<Rightarrow> bool option" where
  "args_flag values name fallback =
     (if args_has values name then Some True
      else if length name < 2 then None
      else if args_has values (''--no-'' @ drop 2 name) then Some False
      else Some fallback)"

text \<open>The exit code, the standard output and the standard error of a run.\<close>

record tool_exit =
  te_code :: nat
  te_out :: string
  te_err :: string

text \<open>What a process gets from the operating system: the generator seeded with entropy, the boot identity it draws, the
  nonce of its engine, the files and the connection it opens; for the benchmark the boot identities of the wallets,
  the nonce of its engine, the elapsed time and the text form of a double. \<open>os_fuel\<close> bounds the records recovery reads.\<close>

record os_process =
  os_attempts :: AttemptIdGenerator
  os_boot :: u64
  os_nonce :: Digest128
  os_files :: file_world
  os_net :: net
  os_fuel :: nat
  os_bench_boots :: "nat \<Rightarrow> u64"
  os_bench_nonce :: Digest128
  os_elapsed :: real
  os_show :: "real \<Rightarrow> string"

definition os_benchmark :: "os_process \<Rightarrow> BenchConfig \<Rightarrow> BenchResult option" where
  "os_benchmark os config =
     run_synthetic_ledger_benchmark (os_fuel os) (os_boot os) (os_bench_boots os) (os_bench_nonce os) (os_elapsed os) (os_files os) config"

definition exits :: "nat \<Rightarrow> string \<Rightarrow> string \<Rightarrow> tool_exit" where
  "exits code printed complained = \<lparr>te_code = code, te_out = printed, te_err = complained\<rparr>"

definition newline :: string where
  "newline = [CHR 0x0A]"

definition fail :: "string \<Rightarrow> tool_exit" where
  "fail message = exits 2 '''' (''error: '' @ message @ newline)"

subsection \<open>Options of the operator tool\<close>

fun parse_hex_loop :: "string \<Rightarrow> u64 \<Rightarrow> u64 option" where
  "parse_hex_loop [] v = Some v"
| "parse_hex_loop (c # cs) v =
     (let digit = hex_value c in if digit < 0 then None else parse_hex_loop cs (v * 16 + word_of_int digit))"

definition parse_hex_id :: "string \<Rightarrow> u64 option" where
  "parse_hex_id text = (if text = [] \<or> length text > 16 then None else parse_hex_loop text 0)"

definition parse_profile :: "string \<Rightarrow> ProfileKind" where
  "parse_profile name =
     (if name = ''SYNTHETIC'' then Synthetic
      else if name = ''PHYSICAL-UNVALIDATED'' then PhysicalUnvalidated
      else Abstract)"

definition parse_reason :: "string \<Rightarrow> Reason" where
  "parse_reason name =
     (case find (\<lambda>r. name = reason_to_string r) (map reason_of_value [0..<kReasonCount]) of
        None \<Rightarrow> PolicyRefused | Some r \<Rightarrow> r)"

record Options =
  op_journal :: string
  op_command :: string
  op_domain :: u64
  op_account :: u64
  op_resource :: u64
  op_capacity :: u64
  op_max_capacity :: u64
  op_max_issue :: u64
  op_count :: u64
  op_value :: u64
  op_window :: u64
  op_port :: u64
  op_producer :: u64
  op_target :: u64
  op_allow_growth :: bool
  op_profile :: ProfileKind
  op_reason :: Reason
  op_decision :: RevalidationDecision
  op_host :: string

definition default_options :: Options where
  "default_options =
     \<lparr>op_journal = '''', op_command = '''', op_domain = 0xD0A1, op_account = 0xACC, op_resource = 0x2E50,
      op_capacity = 1024, op_max_capacity = 0, op_max_issue = 0, op_count = 0, op_value = 0, op_window = 4096,
      op_port = 0, op_producer = 0, op_target = 0, op_allow_growth = False, op_profile = Abstract,
      op_reason = PolicyRefused, op_decision = NoDecision, op_host = ''127.0.0.1''\<rparr>"

fun find_command :: "args \<Rightarrow> string" where
  "find_command [] = ''''"
| "find_command (v # rest) =
     (if take 2 v = ''--'' then (case rest of [] \<Rightarrow> '''' | w # rest' \<Rightarrow> find_command rest') else v)"

text \<open>The numeric options are read first, in this order.\<close>

definition parse_numbers :: "args \<Rightarrow> Options \<Rightarrow> Options \<times> bool" where
  "parse_numbers values out =
     (let (domain, ok1) = args_number values ''--domain'' (op_domain out) True;
          (account, ok2) = args_number values ''--account'' (op_account out) ok1;
          (resource, ok3) = args_number values ''--resource'' (op_resource out) ok2;
          (capacity, ok4) = args_number values ''--capacity'' (op_capacity out) ok3;
          (max_capacity, ok5) = args_number values ''--max-capacity'' capacity ok4;
          (max_issue, ok6) = args_number values ''--max-issue'' capacity ok5;
          (count, ok7) = args_number values ''--count'' 0 ok6;
          (count', ok8) = (if args_has values ''--to'' then args_number values ''--to'' count ok7 else (count, ok7));
          (new_value, ok9) = args_number values ''--value'' 0 ok8;
          (window, ok10) = args_number values ''--limit-window'' 4096 ok9;
          (port, ok11) = args_number values ''--port'' 0 ok10;
          (producer, ok12) = args_number values ''--producer'' 0 ok11 in
      (out\<lparr>op_domain := domain, op_account := account, op_resource := resource, op_capacity := capacity,
           op_max_capacity := max_capacity, op_max_issue := max_issue, op_count := count', op_value := new_value,
           op_window := window, op_port := port, op_producer := producer\<rparr>, ok12))"

definition parse_decision :: "args \<Rightarrow> RevalidationDecision" where
  "parse_decision values =
     (let decision = (if args_get values ''--as'' ''returned'' = ''consumed'' then ToConsumed else NoDecision) in
      if args_has values ''--as''
      then (if args_get values ''--as'' ''returned'' = ''consumed'' then ToConsumed else ToReturned)
      else decision)"

definition parse_options :: "args \<Rightarrow> Options option" where
  "parse_options values =
     (case parse_numbers values (default_options\<lparr>op_journal := args_get values ''--journal'' '''',
                                                 op_host := args_get values ''--host'' ''127.0.0.1''\<rparr>) of
        (out, ok) \<Rightarrow>
          if \<not> ok then None
          else
            let out1 = out\<lparr>op_allow_growth := args_has values ''--allow-growth'',
                           op_profile := parse_profile (args_get values ''--profile'' ''ABSTRACT''),
                           op_reason := parse_reason (args_get values ''--reason'' ''PolicyRefused''),
                           op_decision := parse_decision values\<rparr>;
                target_text = args_get values ''--target'' '''' in
            if target_text = [] then Some (out1\<lparr>op_command := find_command values\<rparr>)
            else case parse_hex_id target_text of
              None \<Rightarrow> None
            | Some target \<Rightarrow> Some (out1\<lparr>op_target := target, op_command := find_command values\<rparr>))"

text \<open>The operation of a command; \<open>None\<close> for those that are not single attempts.\<close>

definition command_op :: "Options \<Rightarrow> OpKind option" where
  "command_op options =
     (let c = op_command options in
      if c = ''issue'' then Some Issue
      else if c = ''consume'' then Some Consume
      else if c = ''return'' then Some Return
      else if c = ''protect'' then Some Protect
      else if c = ''unprotect'' then Some Unprotect
      else if c = ''capacity'' then Some SetCapacity
      else if c = ''epoch'' then Some (if op_count options \<noteq> 0 then Rotate else AdvanceEpoch)
      else if c = ''fence'' then Some Fence
      else if c = ''retire'' then Some Retire
      else if c = ''revalidate'' then Some Revalidate
      else if c = ''exhaust'' then Some Exhaust
      else if c = ''clear-exhaustion'' then Some ClearExhaustion
      else if c = ''reconcile'' then Some Reconcile
      else if c = ''describe'' \<or> c = ''explain'' then Some Describe
      else None)"

definition build_request :: "Options \<Rightarrow> CreditRequest option" where
  "build_request options =
     (let request = default_request\<lparr>req_count := op_count options, req_new_capacity := op_value options,
            req_resource := StrongId (op_resource options), req_producer := StrongId (op_producer options),
            req_fence_cause := op_reason options, req_decision := op_decision options,
            req_target := StrongId (op_target options)\<rparr> in
      map_option (\<lambda>oper. request\<lparr>req_op := oper\<rparr>) (command_op options))"

definition options_config :: "Options \<Rightarrow> AccountConfig" where
  "options_config options =
     default_config\<lparr>cfg_domain := StrongId (op_domain options), cfg_account := StrongId (op_account options),
       cfg_resource := StrongId (op_resource options), cfg_policy := StrongId 1, cfg_capacity := op_capacity options,
       cfg_max_capacity := op_max_capacity options, cfg_profile := op_profile options,
       cfg_rules := default_policy\<lparr>max_issue_per_attempt := op_max_issue options,
                                    allow_capacity_growth := op_allow_growth options\<rparr>\<rparr>"

definition print_outcome :: "CreditOutcome \<Rightarrow> string" where
  "print_outcome outcome = outcome_describe outcome @ newline @ ''  view: '' @ view_to_string (out_view outcome) @ newline"

definition usage_text :: string where
  "usage_text =
     ''usage: cfctl --journal PREFIX [--port P] [--domain D] [--account A] <command> [options]'' @ newline @
     ''  open        --resource R --capacity C [--max-capacity M] [--profile NAME] [--max-issue N] [--allow-growth]'' @ newline @
     ''  explain | describe'' @ newline @
     ''  issue       --count N [--producer P]'' @ newline @
     ''  consume     --count N'' @ newline @
     ''  return      --count N'' @ newline @
     ''  protect     --count N'' @ newline @
     ''  unprotect   --count N'' @ newline @
     ''  reconcile'' @ newline @
     ''  capacity    --value C'' @ newline @
     ''  epoch       [--to N]'' @ newline @
     ''  fence       --target HEX'' @ newline @
     ''  retire      --count N'' @ newline @
     ''  revalidate  --count N --as returned|consumed'' @ newline @
     ''  exhaust     --reason NAME'' @ newline @
     ''  clear-exhaustion'' @ newline @
     ''  snapshot'' @ newline @
     ''  bench       [--operations N] [--capacity C]'' @ newline"

definition usage :: tool_exit where
  "usage = exits 2 '''' usage_text"

definition reconciled_line :: "Incarnation \<Rightarrow> u64 \<Rightarrow> string" where
  "reconciled_line me sequence =
     ''reconciled incarnation '' @ to_hex (id_value (inc_id me)) @ '' at sequence '' @ to_string_u64 sequence @ newline"

subsection \<open>The operator tool offline\<close>

text \<open>What \<open>run_offline\<close> does once the engine has recovered. The benchmark runs on an engine of its own.\<close>

definition offline_command ::
  "'j journal_ops \<Rightarrow> os_process \<Rightarrow> Options \<Rightarrow> LocalSession \<Rightarrow> 'j engine \<Rightarrow> (tool_exit \<times> 'j engine) option" where
  "offline_command jops os options session e =
     (let me = lo_me session; account = lo_account session; command = op_command options in
      if command = ''bench''
      then Option.bind (os_benchmark os (default_bench_config\<lparr>bc_operations := (if op_count options = 0 then 20000 else op_count options),
                                                        bc_capacity := op_capacity options\<rparr>))
             (\<lambda>result. Some (exits (if br_closure_ok result then 0 else 4) (render_bench (os_show os) result) '''', e))
      else if command = ''open''
      then case session_open jops (options_config options) session e of
             (outcome, session1, e1) \<Rightarrow> Some (exits (if out_ok outcome then 0 else 1) (print_outcome outcome) '''', e1)
      else if command = ''snapshot''
      then case snapshot jops e of
             (status, e1) \<Rightarrow>
               if \<not> status_ok status then Some (exits 1 '''' (''snapshot failed: '' @ status_describe status @ newline), e1)
               else Some (exits 0 (''snapshot durable'' @ newline @ render (explain account e1)) '''', e1)
      else if command = ''explain'' \<or> command = ''describe''
      then let explanation = explain account e in
           Some (exits (if ex_found explanation then 0 else 1) (render explanation) '''', e)
      else if command = ''reconcile''
      then case session_reconcile jops session e of
             (status, session1, e1) \<Rightarrow>
               if \<not> status_ok status then Some (exits 1 '''' (''reconcile refused: '' @ status_describe status @ newline), e1)
               else Some (exits 0 (reconciled_line me (lo_sequence session1) @ render (explain account e1)) '''', e1)
      else case build_request options of
             None \<Rightarrow> Some (usage, e)
           | Some request \<Rightarrow>
               (case session_call jops request session e of
                  (outcome, session1, e1) \<Rightarrow>
                    Some (exits (if out_ok outcome then 0 else 1) (print_outcome outcome @ render (explain account e1)) '''', e1)))"

definition offline_engine :: "Options \<Rightarrow> Incarnation \<Rightarrow> Digest128 \<Rightarrow> file_world \<Rightarrow> FileJournal engine" where
  "offline_engine options me nonce w =
     make_engine (default_limits\<lparr>max_attempt_window := unat (op_window options)\<rparr>)
       (Some (make_file_journal (default_file_options\<lparr>fo_prefix := op_journal options\<rparr>) w)) me nonce"

definition run_offline :: "os_process \<Rightarrow> Options \<Rightarrow> Incarnation \<Rightarrow> (tool_exit \<times> FileJournal engine) option" where
  "run_offline os options me =
     Option.bind (recover file_ops (os_fuel os) (offline_engine options me (os_nonce os) (os_files os))) (\<lambda>(recovered, e).
       if \<not> status_ok recovered then Some (exits 3 '''' (''recovery failed: '' @ status_describe recovered @ newline), e)
       else offline_command file_ops os options
              (make_session me (StrongId (op_domain options)) (StrongId (op_account options)) (os_attempts os)) e)"

subsection \<open>The operator tool against a coordinator\<close>

definition default_client_options :: ClientOptions where
  "default_client_options =
     \<lparr>cl_host = ''127.0.0.1'', cl_port = 0, cl_domain = unset_id, cl_publisher = unset_id, cl_boot = unset_id,
      cl_label = ''creditfabric-worker'', cl_max_payload = 65536\<rparr>"

text \<open>A client operation, the lines printed for its outcome, and \<open>close\<close>.\<close>

definition remote_outcome ::
  "(CreditOutcome \<times> CoordinatorClient) option \<Rightarrow> (CreditOutcome \<Rightarrow> CoordinatorClient \<Rightarrow> string) \<Rightarrow> tool_exit option" where
  "remote_outcome result lines =
     Option.bind result (\<lambda>(outcome, c).
       Option.bind (client_close c) (\<lambda>_. Some (exits (if out_ok outcome then 0 else 1) (print_outcome outcome @ lines outcome c) '''')))"

definition run_remote :: "os_process \<Rightarrow> Options \<Rightarrow> Incarnation \<Rightarrow> tool_exit option" where
  "run_remote os options me =
     (let account = StrongId (op_account options); command = op_command options;
          c = make_client (default_client_options\<lparr>cl_host := op_host options, cl_port := ucast (op_port options),
                cl_domain := StrongId (op_domain options), cl_publisher := inc_publisher me, cl_boot := inc_boot me,
                cl_label := ''cfctl''\<rparr>) (os_attempts os) (os_net os) in
      Option.bind (client_connect (os_net os) c) (\<lambda>(connected, c1).
        if \<not> status_ok connected then Some (exits 3 '''' (''connect failed: '' @ status_describe connected @ newline))
        else if command = ''bench'' then Some (exits 2 '''' (''bench runs against a local engine only'' @ newline))
        else if command = ''snapshot'' then Some (exits 2 '''' (''snapshot is an operator action on the owning process'' @ newline))
        else if command = ''explain'' \<or> command = ''describe''
        then remote_outcome (client_describe account c1) (\<lambda>described _.
               ''authority: epoch='' @ to_string_u64 (id_value (av_epoch (out_authority described))) @
               '' generation='' @ to_string_u64 (id_value (av_generation (out_authority described))) @ newline)
        else if command = ''open''
        then remote_outcome (submit (default_request\<lparr>req_op := Open, req_config := options_config options\<rparr>) c1) (\<lambda>_ _. '''')
        else if command = ''reconcile''
        then remote_outcome (client_reconcile account c1) (\<lambda>_ c2. reconciled_line me (cc_next_sequence c2))
        else case build_request options of
               None \<Rightarrow> Some (usage)
             | Some request \<Rightarrow>
                 remote_outcome (submit (request\<lparr>req_authority := (req_authority request)\<lparr>av_account := account\<rparr>\<rparr>) c1) (\<lambda>_ _. '''')))"

definition cfctl_main :: "os_process \<Rightarrow> args \<Rightarrow> tool_exit option" where
  "cfctl_main os values =
     (case parse_options values of
        None \<Rightarrow> Some (exits 2 '''' (''error: an option was not a valid value'' @ newline))
      | Some options \<Rightarrow>
          if op_journal options = '''' \<or> op_command options = '''' then Some usage
          else let me = durable_operator (op_journal options) in
            if op_port options \<noteq> 0 then run_remote os options me
            else map_option fst (run_offline os options me))"

subsection \<open>The worker\<close>

definition worker_refuse :: "string \<Rightarrow> string \<Rightarrow> Status \<Rightarrow> tool_exit" where
  "worker_refuse printed stage status = exits 5 printed (''REFUSED '' @ stage @ '': '' @ status_describe status @ newline)"

definition worker_request :: "AccountId \<Rightarrow> OpKind \<Rightarrow> u64 \<Rightarrow> CreditRequest" where
  "worker_request account oper count =
     default_request\<lparr>req_authority := unset_authority\<lparr>av_account := account\<rparr>, req_op := oper, req_count := count\<rparr>"

text \<open>The rounds from number \<open>turn\<close> on; \<open>Inl\<close> is the refusal that ends the process.\<close>

fun worker_rounds :: "AccountId \<Rightarrow> u64 \<Rightarrow> nat \<Rightarrow> u64 \<Rightarrow> string \<Rightarrow> CoordinatorClient \<Rightarrow> (tool_exit + string \<times> CoordinatorClient) option" where
  "worker_rounds account issue 0 turn printed c = Some (Inr (printed, c))"
| "worker_rounds account issue (Suc n) turn printed c =
     Option.bind (submit (worker_request account Issue issue) c) (\<lambda>(granted, c1).
       if \<not> out_ok granted then Some (Inl (worker_refuse printed ''issue'' (out_status granted)))
       else Option.bind (submit (worker_request account Consume issue) c1) (\<lambda>(spent, c2).
         if \<not> out_ok spent then Some (Inl (worker_refuse printed ''consume'' (out_status spent)))
         else Option.bind (submit (worker_request account Return issue) c2) (\<lambda>(returned, c3).
           if \<not> out_ok returned then Some (Inl (worker_refuse printed ''return'' (out_status returned)))
           else worker_rounds account issue n (turn + 1)
                  (printed @ ''ROUND '' @ to_string_u64 (turn + 1) @ '' issued='' @ to_string_u64 (v_issued (out_view granted)) @
                   '' consumed='' @ to_string_u64 (v_consumed (out_view returned)) @
                   '' returned='' @ to_string_u64 (v_returned (out_view returned)) @ newline) c3)))"

definition final_line :: "CreditView \<Rightarrow> string" where
  "final_line v =
     ''FINAL capacity='' @ to_string_u64 (v_capacity v) @ '' available='' @ to_string_u64 (v_available v) @
     '' issued='' @ to_string_u64 (v_issued v) @ '' consumed='' @ to_string_u64 (v_consumed v) @
     '' returned='' @ to_string_u64 (v_returned v) @ '' in_flight='' @ to_string_u64 (v_in_flight v) @
     '' closed='' @ (if v_closed v then ''yes'' else ''no'') @ newline"

definition done_line :: "ClientStats \<Rightarrow> string" where
  "done_line s =
     ''DONE refusals='' @ to_string_u64 (cs_refusals s) @ '' duplicates='' @ to_string_u64 (cs_duplicates s) @
     '' reconstructions='' @ to_string_u64 (cs_retries s) @ newline"

text \<open>A connected worker. With \<open>--hold\<close> the process sleeps until it is killed.\<close>

definition worker_session :: "AccountId \<Rightarrow> u64 \<Rightarrow> u64 \<Rightarrow> bool \<Rightarrow> CoordinatorClient \<Rightarrow> tool_exit option" where
  "worker_session account issue rounds hold c =
     Option.bind (client_reconcile account c) (\<lambda>(revalidated, c1).
       if \<not> out_ok revalidated then Some (worker_refuse '''' ''reconcile'' (out_status revalidated))
       else
         let printed = ''RECONCILED incarnation='' @ to_hex (id_value (inc_id (cc_incarnation c1))) @
                       '' sequence='' @ to_string_u64 (cc_next_sequence c1) @ newline in
         if hold then None
         else Option.bind (worker_rounds account issue (unat rounds) 0 printed c1) (\<lambda>result.
           case result of
             Inl ended \<Rightarrow> Some ended
           | Inr (printed1, c2) \<Rightarrow>
               Option.bind (client_describe account c2) (\<lambda>(final_view, c3).
                 if \<not> out_ok final_view then Some (worker_refuse printed1 ''describe'' (out_status final_view))
                 else Option.bind (client_close c3) (\<lambda>_.
                   Some (exits 0 (printed1 @ final_line (out_view final_view) @ done_line (cc_stats c3)) '''')))))"

definition worker_main :: "os_process \<Rightarrow> args \<Rightarrow> tool_exit option" where
  "worker_main os values =
     (let (port, ok1) = args_number values ''--port'' 0 True;
          (domain_value, ok2) = args_number values ''--domain'' 0xD0A1 ok1;
          (account_value, ok3) = args_number values ''--account'' 0xACC ok2;
          (publisher, ok4) = args_number values ''--publisher'' 0x1001 ok3;
          (boot, ok5) = args_number values ''--boot'' 0 ok4;
          (issue, ok6) = args_number values ''--issue'' 8 ok5;
          (rounds, ok) = args_number values ''--rounds'' 4 ok6 in
      if \<not> ok then Some (fail ''a numeric option was not a valid unsigned integer'')
      else if port = 0 then Some (fail ''--port is required'')
      else if issue = 0 then Some (fail ''--issue must be greater than zero'')
      else
        let options = default_client_options\<lparr>cl_host := args_get values ''--host'' ''127.0.0.1'', cl_port := ucast port,
              cl_domain := StrongId domain_value, cl_publisher := StrongId publisher,
              cl_boot := StrongId (if boot = 0 then os_boot os else boot),
              cl_label := args_get values ''--label'' ''creditfabric-worker''\<rparr> in
        Option.bind (client_connect (os_net os) (make_client options (os_attempts os) (os_net os))) (\<lambda>(connected, c).
          if \<not> status_ok connected then Some (exits 3 '''' (''connect failed: '' @ status_describe connected @ newline))
          else worker_session (StrongId account_value) issue rounds (args_has values ''--hold'') c))"

subsection \<open>The coordinator process\<close>

definition default_coordinator_options :: CoordinatorOptions where
  "default_coordinator_options =
     \<lparr>co_host = ''127.0.0.1'', co_port = 0, co_limits = default_limits, co_server_label = ''creditfabric-coordinator'',
      co_max_requests = 0, co_max_connections = 64\<rparr>"

definition coordinator_config :: "u64 \<Rightarrow> u64 \<Rightarrow> u64 \<Rightarrow> u64 \<Rightarrow> u64 \<Rightarrow> AccountConfig" where
  "coordinator_config domain account resource capacity max_capacity =
     default_config\<lparr>cfg_domain := StrongId domain, cfg_account := StrongId account, cfg_resource := StrongId resource,
       cfg_policy := StrongId 1, cfg_capacity := capacity, cfg_max_capacity := max_capacity, cfg_profile := Synthetic,
       cfg_rules := default_policy\<lparr>max_issue_per_attempt := capacity, allow_protect := True, allow_return := True\<rparr>\<rparr>"

text \<open>From the arguments to a started server: \<open>Inl\<close> is an early end, \<open>Inr\<close> the server, the lines printed and the
  number of requests to wait for.\<close>

definition coordinator_boot :: "os_process \<Rightarrow> args \<Rightarrow> (tool_exit + FileJournal server \<times> string \<times> u64) option" where
  "coordinator_boot os values =
     (let journal = args_get values ''--journal'' '''' in
      if journal = '''' then Some (Inl (fail ''--journal PREFIX is required''))
      else
        let (port, ok1) = args_number values ''--port'' 0 True;
            (domain_value, ok2) = args_number values ''--domain'' 0xD0A1 ok1;
            (account_value, ok3) = args_number values ''--account'' 0xACC ok2;
            (resource_value, ok4) = args_number values ''--resource'' 0x2E50 ok3;
            (capacity, ok5) = args_number values ''--capacity'' 4096 ok4;
            (max_capacity, ok6) = args_number values ''--max-capacity'' capacity ok5;
            (max_requests, ok7) = args_number values ''--max-requests'' 0 ok6;
            (window, ok) = args_number values ''--limit-window'' 4096 ok7 in
        if \<not> ok then Some (Inl (fail ''a numeric option was not a valid unsigned integer''))
        else
          let me = durable_operator journal;
              limits = default_limits\<lparr>max_attempt_window := unat window\<rparr>;
              engine = make_engine limits (Some (make_file_journal (default_file_options\<lparr>fo_prefix := journal\<rparr>) (os_files os))) me (os_nonce os) in
          Option.bind (recover file_ops (os_fuel os) engine) (\<lambda>(recovered, e).
            if \<not> status_ok recovered
            then Some (Inl (exits 3 '''' (''recovery failed: '' @ status_describe recovered @ newline)))
            else
              let opened = (if args_has values ''--open''
                    then (case session_open file_ops (coordinator_config domain_value account_value resource_value capacity max_capacity)
                                (make_session me (StrongId domain_value) (StrongId account_value) (os_attempts os)) e of
                            (outcome, s, e1) \<Rightarrow>
                              if \<not> out_ok outcome
                              then Inl (exits 4 '''' (''open refused: '' @ status_describe (out_status outcome) @ newline))
                              else Inr (''OPENED account='' @ to_string_u64 account_value @ '' capacity='' @ to_string_u64 capacity @ newline, e1))
                    else Inr ('''', e)) in
              (case opened of
                 Inl ended \<Rightarrow> Some (Inl ended)
               | Inr (printed, e1) \<Rightarrow>
                   let server = make_server e1 (default_coordinator_options\<lparr>co_port := ucast port, co_limits := limits,
                         co_server_label := args_get values ''--label'' ''creditfabric-coordinator'', co_max_requests := 0\<rparr>) (os_net os) in
                   (case server_start server of
                      (started, server1) \<Rightarrow>
                        if \<not> status_ok started
                        then Some (Inl (exits 5 printed (''listen failed: '' @ status_describe started @ newline)))
                        else Some (Inr (server1, printed @ ''LISTENING '' @ to_string_u64 (ucast (sv_port server1)) @ newline,
                                        max_requests))))))"

text \<open>The main thread then only sleeps and looks; \<open>seen k\<close> is the server as the accept and connection threads have
  made it at its \<open>k\<close>-th look. Without \<open>--max-requests\<close> it never stops.\<close>

partial_function (option) coordinator_wait :: "(nat \<Rightarrow> 'j server) \<Rightarrow> u64 \<Rightarrow> nat \<Rightarrow> nat option" where
  "coordinator_wait seen max_requests k =
     (if max_requests = 0 then coordinator_wait seen max_requests (Suc k)
      else if \<not> sv_served (seen k) < max_requests then Some k
      else if \<not> sv_running (seen (Suc k)) then Some (Suc k)
      else coordinator_wait seen max_requests (Suc (Suc k)))"

definition coordinator_end :: "string \<Rightarrow> 'j server \<Rightarrow> tool_exit \<times> 'j server" where
  "coordinator_end printed server =
     (case server_stop server of
        (stopped, server1) \<Rightarrow> (exits 0 (printed @ ''STOPPED served='' @ to_string_u64 (sv_served server1) @ newline) '''', server1))"

subsection \<open>The benchmark driver\<close>

definition bench_main :: "os_process \<Rightarrow> args \<Rightarrow> tool_exit option" where
  "bench_main os values =
     (let (operations, ok1) = args_number values ''--operations'' 200000 True;
          (capacity, ok2) = args_number values ''--capacity'' 4194304 ok1;
          (producers, ok3) = args_number values ''--producers'' 8 ok2;
          (consumers, ok4) = args_number values ''--consumers'' 8 ok3;
          (seed, ok) = args_number values ''--seed'' 0xC0FFEE ok4 in
      if \<not> ok then Some (fail ''a numeric option was not a valid unsigned integer'')
      else Option.bind (os_benchmark os (default_bench_config\<lparr>bc_scenario := args_get values ''--scenario'' ''synthetic-ledger'',
             bc_operations := operations, bc_capacity := capacity, bc_producers := producers, bc_consumers := consumers,
             bc_seed := seed, bc_durable := args_has values ''--durable'',
             bc_journal_prefix := args_get values ''--journal'' ''creditfabric-bench''\<rparr>))
             (\<lambda>result. Some (exits (if br_closure_ok result then 0 else 1) (render_bench (os_show os) result) '''')))"

subsection \<open>A success is a decision\<close>

lemma quarantine_reason: "plan_quarantine_in_flight p = (False, p') \<Longrightarrow> reason (p_status p') \<noteq> Ok"
  by (auto simp: plan_quarantine_in_flight_def plan_refuse_def plan_commit_def Let_def status_ok_def split: if_splits prod.splits)

lemma declined_reason:
  assumes "decide e q a = DecRefuse r i b"
  shows "r \<noteq> Ok"
proof (cases "classify_op (req_op q) = ControlOp")
  case True
  have plan: "ctl_plan x f \<noteq> CtlRefused r' i' b'" for x f r' i' b'
    by (auto simp: ctl_plan_def split: prod.splits bool.splits)
  have adv: "control_advance q a = CtlRefused r' i' b' \<Longrightarrow> r' \<noteq> Ok" for r' i' b'
    by (auto simp: control_advance_def Let_def dest: quarantine_reason split: prod.splits bool.splits if_splits)
  have fence: "control_fence l q a = CtlRefused r' i' b' \<Longrightarrow> r' \<noteq> Ok" for l r' i' b'
    by (auto simp: control_fence_def Let_def split: if_splits)
  have ret: "control_retire_incarnation q a = CtlRefused r' i' b' \<Longrightarrow> r' \<noteq> Ok" for r' i' b'
    by (auto simp: control_retire_incarnation_def split: if_splits option.splits)
  have "r \<noteq> Ok" if "control_transition (e_limits e) q a = CtlRefused r i b'" for b'
    using that plan adv fence ret by (cases "req_op q") (auto simp: control_transition_def Let_def split: if_splits)
  then show ?thesis
    using assms(1) True by (auto simp: decide_def decide_control_def split: if_splits control_step.splits)
next
  case False
  then show ?thesis
    using assms(1) by (auto simp: decide_def decide_data_def decide_ledger_def Let_def split: if_splits option.splits prod.splits)
qed

lemma open_refusal_reason: "open_refusal e q = Some (r, i) \<Longrightarrow> r \<noteq> Ok"
  by (auto simp: open_refusal_def Let_def split: if_splits)

lemma ok_is_decided:
  assumes "apply_request jops q e = (out, e')" "out_ok out" "req_op q \<noteq> Describe"
  shows "out_decided out \<and> \<not> e_journal_failed e"
proof -
  have up: "e_recovered e" "\<not> e_journal_failed e" using assms(1,2) by (auto simp: apply_request_def refuse_outcome_def status_ok_def split: if_splits)
  then have run: "apply_locked jops q e = (out, e')" using assms(1) by (simp add: apply_request_def)
  have "out_decided out"
  proof (cases "req_op q = Open")
    case True
    have st: "structural_refusal (e_limits e) q = None"
    proof (cases "structural_refusal (e_limits e) q")
      case (Some st)
      then show ?thesis using run structural_refusal_reason [OF Some] assms(2) by (auto simp: apply_locked_def Let_def refuse_outcome_def status_ok_def)
    qed simp
    have c: "create_account_locked jops q (initial_outcome q) e = (out, e')" using run True st by (simp add: apply_locked_def Let_def)
    then show ?thesis
      using assms(2) open_refusal_reason [of e q]
      by (cases "open_refusal e q")
        (auto simp: create_account_locked_alt open_commit_def open_outcome_def persist_failure_def refuse_outcome_def Let_def status_ok_def
          split: prod.splits if_splits)
  next
    case False
    from assms(1,3) False show ?thesis
    proof (cases rule: apply_standing)
      case (admitted a)
      from assms(1) show ?thesis
      proof (cases rule: apply_request_cases)
        case (decided b)
        have d: "\<not> e_journal_failed e'" using enact_outcome(4) [OF decided(2) up(2) bound_outcome_flags(1,2)] assms(2) by blast
        show ?thesis
        proof (cases "decide e q b")
          case (DecRefuse r i c)
          then show ?thesis using enact_outcome(1) [OF decided(2) up(2) bound_outcome_flags(1,2)] declined_reason [OF DecRefuse] assms(2) by auto
        next
          case (DecRefusal r i c)
          then show ?thesis using enact_outcome(2) [OF decided(2) up(2) bound_outcome_flags(1,2) DecRefusal d] by blast
        next
          case (DecApply c)
          then show ?thesis using enact_outcome(3) [OF decided(2) up(2) bound_outcome_flags(1,2) DecApply d] by blast
        qed
      qed (use admitted False in auto)
    next
      case (duplicate a st)
      then show ?thesis using run assms(2,3) False
        by (auto simp: apply_locked_def Let_def request_key_def duplicate_outcome_def bind_outcome_def refuse_outcome_def status_ok_def
            dest: structural_refusal_reason authority_refusal_reason split: option.splits)
    next
      case (misplaced a r d)
      then have "r \<noteq> Ok" by (auto simp: place_attempt_def Let_def split: option.splits if_splits prod.splits)
      then show ?thesis using misplaced run assms(2,3) False
        by (auto simp: apply_locked_def Let_def request_key_def refuse_outcome_def status_ok_def
            dest: structural_refusal_reason authority_refusal_reason split: option.splits)
    qed (use assms(2) in \<open>simp_all add: status_ok_def\<close>)
  qed
  with up show ?thesis by blast
qed

subsection \<open>The last call of a session\<close>

definition clean_run :: "'j journal_ops \<Rightarrow> 'j engine \<Rightarrow> 'j engine \<Rightarrow> bool" where
  "clean_run jops e f \<longleftrightarrow> (\<exists>calls. engine_run jops e calls f \<and> list_all clean_call calls)"

lemma clean_run_refl: "clean_run jops e e"
  by (auto simp: clean_run_def intro!: exI [of _ "[]"] run_start)

lemma clean_run_step:
  assumes "apply_request jops q e = (out, f)" "clean_call (CallApply q out)" "clean_run jops f g"
  shows "clean_run jops e g"
proof -
  obtain calls where c: "engine_run jops f calls g" "list_all clean_call calls" using assms(3) by (auto simp: clean_run_def)
  have "engine_run jops e [CallApply q out] f" using run_step [OF run_start step_apply [OF assms(1)]] by simp
  from engine_run_append [OF c(1) this] c(2) assms(2) show ?thesis
    unfolding clean_run_def by (intro exI [of _ "CallApply q out # calls"]) simp
qed

lemma clean_run_trans: "clean_run jops e f \<Longrightarrow> clean_run jops f g \<Longrightarrow> clean_run jops e g"
  unfolding clean_run_def using engine_run_append by (metis list_all_append)

text \<open>The call that ended it with success, and a clean run before it.\<close>

definition last_call :: "'j journal_ops \<Rightarrow> 'j engine \<Rightarrow> CreditRequest \<Rightarrow> CreditOutcome \<Rightarrow> 'j engine \<Rightarrow> bool" where
  "last_call jops e q out e' \<longleftrightarrow> (\<exists>f. clean_run jops e f \<and> apply_request jops q f = (out, e'))"

lemma last_call_here: "apply_request jops q e = (out, e') \<Longrightarrow> last_call jops e q out e'"
  using clean_run_refl by (auto simp: last_call_def)

lemma last_call_later:
  assumes "apply_request jops q e = (x, f)" "clean_call (CallApply q x)" "last_call jops f q' out e'"
  shows "last_call jops e q' out e'"
  using assms(3) clean_run_step [OF assms(1,2)] by (auto simp: last_call_def)

lemma reconcile_tries_last:
  "reconcile_tries jops n s e = (st, s', e') \<Longrightarrow>
     clean_run jops e e' \<and> (status_ok st \<longrightarrow> (\<exists>q out. req_op q = Reconcile \<and> out_ok out \<and> last_call jops e q out e'))"
proof (induction n arbitrary: s e)
  case 0
  then show ?case by (auto simp: clean_run_refl status_ok_def)
next
  case (Suc n)
  obtain i s1 where d: "session_attempt s = (i, s1)" by fastforce
  define q where "q = default_request\<lparr>req_op := Reconcile, req_presenter := lo_me s1,
      req_attempt := i, req_sequence := lo_sequence s1, req_authority := lo_authority s1,
      req_proof := challenge_compute (e_challenge e) (lo_me s1) (lo_authority s1)\<rparr>"
  obtain out f where a: "apply_request jops q e = (out, f)" by fastforce
  have op: "req_op q = Reconcile" "clean_call (CallApply q x)" for x by (simp_all add: q_def)
  note step = clean_run_step [OF a op(2)] and later_call = last_call_later [OF a op(2)]
  have again: "clean_run jops e e' \<and> (status_ok st \<longrightarrow> (\<exists>q out. req_op q = Reconcile \<and> out_ok out \<and> last_call jops e q out e'))"
    if "reconcile_tries jops n s2 f = (st, s', e')" for s2
    using Suc.IH [OF that] step later_call by blast
  have r: "(if out_ok out then (success, s1\<lparr>lo_sequence := lo_sequence s1 + 1, lo_reconciled := True\<rparr>, f)
      else if reason (out_status out) = SequenceGap then reconcile_tries jops n (s1\<lparr>lo_sequence := detail (out_status out)\<rparr>) f
      else if reason (out_status out) = StaleReplay then reconcile_tries jops n (s1\<lparr>lo_sequence := detail (out_status out) + 1\<rparr>) f
      else (out_status out, s1, f)) = (st, s', e')"
    using Suc.prems d a [unfolded q_def] by (simp add: Let_def split: if_splits)
  show ?case
    using r again step [OF clean_run_refl] last_call_here [OF a] op(1) by (auto split: if_splits)
qed

lemma session_reconcile_last:
  assumes "session_reconcile jops s e = (st, s', e')"
  shows "clean_run jops e e' \<and> (status_ok st \<longrightarrow> (\<exists>q out. req_op q = Reconcile \<and> out_ok out \<and> last_call jops e q out e'))"
proof (cases "ex_found (explain (lo_account s) e)")
  case False
  then show ?thesis using assms by (auto simp: session_reconcile_def Let_def clean_run_refl status_ok_def)
next
  case True
  obtain s1 q out f where a: "apply_request jops q e = (out, f)" "req_op q = Describe"
    "(if \<not> out_ok out then (out_status out, s1, f) else reconcile_tries jops 8 (s1\<lparr>lo_sequence := out_sequence out + 1\<rparr>) f) = (st, s', e')"
    using assms True by (fastforce simp: session_reconcile_def Let_def split: prod.splits)
  have c: "clean_call (CallApply q out)" using a(2) by simp
  show ?thesis
    using a(3) clean_run_step [OF a(1) c] clean_run_refl reconcile_tries_last last_call_later [OF a(1) c]
    by (auto split: if_splits) blast+
qed

text \<open>What the caller asked for, whatever presenter, attempt, sequence and authority a try gives it.\<close>

definition same_ask :: "CreditRequest \<Rightarrow> CreditRequest \<Rightarrow> bool" where
  "same_ask q q' \<longleftrightarrow> (\<exists>p i n au. q' = q\<lparr>req_presenter := p, req_attempt := i, req_sequence := n, req_authority := au\<rparr>)"

lemma same_ask_refl: "same_ask q q"
  unfolding same_ask_def by (metis CreditRequest.surjective CreditRequest.update_convs(1-5))

lemma same_ask_try: "same_ask q (session_request s (q\<lparr>req_attempt := i\<rparr>))"
  unfolding same_ask_def session_request_def
  by (intro exI [of _ "lo_me s"] exI [of _ i] exI [of _ "lo_sequence s"] exI [of _ "lo_authority s"]) (simp add: CreditRequest.defs)

lemma same_ask_trans: "same_ask q q1 \<Longrightarrow> same_ask q1 q2 \<Longrightarrow> same_ask q q2"
  unfolding same_ask_def by clarsimp blast

lemma last_call_after: "clean_run jops e f \<Longrightarrow> last_call jops f q out e' \<Longrightarrow> last_call jops e q out e'"
  using clean_run_trans unfolding last_call_def by blast

lemma same_ask_fields: "same_ask q q' \<Longrightarrow> req_op q' = req_op q \<and> req_config q' = req_config q \<and> req_count q' = req_count q"
  by (auto simp: same_ask_def)

lemma call_tries_last:
  "call_tries jops n q s e = (out, s', e') \<Longrightarrow> out_ok out \<Longrightarrow> \<exists>q'. same_ask q q' \<and> last_call jops e q' out e'"
proof (induction n arbitrary: q s e)
  case 0
  then show ?case by (auto simp: status_ok_def)
next
  case (Suc n)
  obtain i s1 where d: "session_attempt s = (i, s1)" by fastforce
  let ?q = "session_request s1 (q\<lparr>req_attempt := i\<rparr>)"
  obtain x f where a: "apply_request jops ?q e = (x, f)" by fastforce
  have again: "\<exists>q'. same_ask q q' \<and> last_call jops e q' out e'"
    if t: "call_tries jops n ?q s2 f2 = (out, s', e')" "clean_run jops f f2" "\<not> out_decided x" "reason (out_status x) \<noteq> BudgetExceeded" for s2 f2
  proof -
    obtain q' where q': "same_ask ?q q'" "last_call jops f2 q' out e'" using Suc.IH [OF t(1) Suc.prems(2)] by blast
    from last_call_later [OF a _ last_call_after [OF t(2) q'(2)]] t(3,4) same_ask_trans [OF same_ask_try q'(1)] show ?thesis by auto
  qed
  have repaired: "\<exists>q'. same_ask q q' \<and> last_call jops e q' out e'"
    if "session_reconcile jops s1 f = (st, s2, f2)" "(if \<not> status_ok st then (x\<lparr>out_status := st\<rparr>, s2, f2) else call_tries jops n ?q s2 f2) = (out, s', e')"
      "\<not> out_decided x" "reason (out_status x) \<noteq> BudgetExceeded" for st s2 f2
    using that again [of s2 f2] session_reconcile_last [OF that(1)] Suc.prems(2) by (auto split: if_splits)
  have here: "\<exists>q'. same_ask q q' \<and> last_call jops e q' out e'" if "x = out" "f = e'"
    using last_call_here [OF a] same_ask_try that by blast
  show ?case
    using Suc.prems(1) d a again [OF _ clean_run_refl] repaired here
    by (auto simp: Let_def split: if_splits prod.splits)
qed

lemma session_call_last:
  assumes "session_call jops q s e = (out, s', e')" "out_ok out"
  shows "\<exists>q'. same_ask q q' \<and> last_call jops e q' out e'"
proof (cases "lo_reconciled s")
  case True
  then show ?thesis using assms call_tries_last by (simp add: session_call_def) blast
next
  case False
  obtain st s1 f where r: "session_reconcile jops s e = (st, s1, f)" by (metis prod_cases3)
  have t: "call_tries jops 8 q s1 f = (out, s', e')"
    using assms False r by (auto simp: session_call_def split: if_splits)
  obtain q' where q: "same_ask q q'" "last_call jops f q' out e'" using call_tries_last [OF t assms(2)] by blast
  then show ?thesis using session_reconcile_last [OF r] last_call_after by blast
qed

subsection \<open>What an exit code of zero means\<close>

text \<open>The request that carries a command out.\<close>

definition carries_out :: "Options \<Rightarrow> CreditRequest \<Rightarrow> bool" where
  "carries_out options q \<longleftrightarrow>
     (if op_command options = ''open'' then req_op q = Open \<and> req_config q = options_config options
      else if op_command options = ''reconcile'' then req_op q = Reconcile
      else \<exists>r. build_request options = Some r \<and> same_ask r q)"

lemma offline_last:
  assumes "offline_command jops os options s e = Some (x, e')" "te_code x = 0"
    "op_command options \<notin> {''bench'', ''snapshot'', ''explain'', ''describe''}"
  shows "\<exists>q out. carries_out options q \<and> out_ok out \<and> req_op q \<noteq> Describe \<and> last_call jops e q out e'"
proof -
  consider (new) "op_command options = ''open''" | (reconcile) "op_command options = ''reconcile''"
    | (attempt) "op_command options \<notin> {''open'', ''reconcile''}" by blast
  then show ?thesis
  proof cases
    case new
    obtain i s1 where d: "session_attempt s = (i, s1)" by fastforce
    define au where "au = \<lparr>av_domain = cfg_domain (options_config options), av_account = cfg_account (options_config options),
      av_epoch = StrongId 1, av_generation = StrongId 1, av_incarnation = inc_id (lo_me s)\<rparr>"
    define q where "q = default_request\<lparr>req_op := Open, req_config := options_config options, req_authority := au,
      req_presenter := lo_me s, req_attempt := i, req_sequence := 1, req_proof := challenge_compute (e_challenge e) (lo_me s) au\<rparr>"
    obtain out f where a: "apply_request jops q e = (out, f)" by fastforce
    have "out_ok out \<and> f = e'"
      using assms(1,2) new d a [unfolded q_def au_def] by (auto simp: offline_command_def session_open_def exits_def Let_def split: if_splits)
    moreover have "carries_out options q" "req_op q \<noteq> Describe" using new by (simp_all add: carries_out_def q_def)
    ultimately show ?thesis using last_call_here [OF a] by blast
  next
    case reconcile
    obtain st s1 f where r: "session_reconcile jops s e = (st, s1, f)" by (metis prod_cases3)
    have "status_ok st \<and> f = e'" using assms(1,2) reconcile r by (auto simp: offline_command_def exits_def Let_def split: if_splits)
    then obtain q out where "req_op q = Reconcile" "out_ok out" "last_call jops e q out e'" using session_reconcile_last [OF r] by blast
    then show ?thesis using reconcile by (intro exI [of _ q] exI [of _ out]) (simp add: carries_out_def)
  next
    case attempt
    obtain r where r: "build_request options = Some r"
      using assms attempt by (cases "build_request options") (auto simp: offline_command_def usage_def exits_def Let_def)
    obtain out s1 f where c: "session_call jops r s e = (out, s1, f)" by (metis prod_cases3)
    have ok: "out_ok out \<and> f = e'" using assms attempt r c by (auto simp: offline_command_def exits_def Let_def split: if_splits)
    obtain q where q: "same_ask r q" "last_call jops e q out e'" using session_call_last [OF c] ok by blast
    have "req_op r \<noteq> Describe" using r assms(3) by (auto simp: build_request_def command_op_def Let_def split: if_splits)
    then show ?thesis using q ok r attempt same_ask_fields [OF q(1)] by (intro exI [of _ q] exI [of _ out]) (auto simp: carries_out_def)
  qed
qed

text \<open>C9: an operator command that exits with zero is on disk. When the offline tool, on a recovered engine whose
  journal file is ready, ends a command that asks for a decision (opening, reconciling, or any single attempt) with exit
  code zero, after however many reconciliations and retries, then the last thing it did was a call of the engine for
  exactly that command, made while the journal file was still ready, and the decision is in the journal file behind
  what the file held before that call, or in a snapshot of the accounts with it; or the answer was the remembered
  answer of an attempt decided before.\<close>

theorem successful_command_is_on_disk:
  assumes "offline_command file_ops os options s e = Some (x, e')" "te_code x = 0"
    "op_command options \<notin> {''bench'', ''snapshot'', ''explain'', ''describe''}"
    "engine_inv e" "e_journal e = Some j" "file_ready j"
  shows "\<exists>q f k out. carries_out options q \<and> apply_request file_ops q f = (out, e') \<and> out_ok out \<and> e_journal f = Some k \<and>
           file_ready k \<and>
           (out_duplicate out \<or>
            (\<exists>j' b t. e_journal e' = Some j' \<and> file_ready j' \<and> account_digest b = out_state_digest out \<and>
               t = durable_attempt q out (Some b) (req_op q = Open) (e_stats f) \<and>
               (file_log j' = file_log k @ [intent_record f q, attempt_record f t] \<and> file_snap j' = file_snap k \<or>
                (\<exists>g :: FileJournal engine. e_accounts g = fmupd (request_key q) b (e_accounts f) \<and>
                   file_snap j' = Some (e_next_sequence f + 2, lr_chain (attempt_record f t),
                     encode_durable_state_body (snapshot_state g))))))"
proof -
  obtain q out f calls where q: "carries_out options q" "out_ok out" "req_op q \<noteq> Describe" "apply_request file_ops q f = (out, e')"
    "engine_run file_ops e calls f" "list_all clean_call calls"
    using offline_last [OF assms(1-3)] by (auto simp: last_call_def clean_run_def)
  have d: "out_decided out" "\<not> e_journal_failed f" using ok_is_decided [OF q(4,2,3)] by simp_all
  have "disk.journaled e" using assms(5,6) by (simp add: disk.journaled_def)
  from disk.run_journaled [OF q(5) assms(4) this q(6) d(2)] obtain k where k: "e_journal f = Some k" "file_ready k"
    by (auto simp: disk.journaled_def)
  have "reason (out_status out) \<noteq> AttemptConflict" using q(2) by (simp add: status_ok_def)
  note durable = disk.acknowledged_durable [OF q(4) d(1) _ this k]
  show ?thesis
    by (intro exI [of _ q] exI [of _ f] exI [of _ k] exI [of _ out] conjI q(1,2,4) k) (use durable in \<open>cases "out_duplicate out"; simp\<close>)
qed

definition demo_os :: os_process where
  "demo_os = \<lparr>os_attempts = make_generator 1 1, os_boot = 1, os_nonce = demo_nonce, os_files = fj_world demo_file, os_net = prompt_net [],
     os_fuel = 1, os_bench_boots = (\<lambda>_. 1), os_bench_nonce = demo_nonce, os_elapsed = 1, os_show = (\<lambda>_. '''')\<rparr>"

theorem successful_command_is_on_disk_witness:
  "\<exists>x e' q f k out. offline_command file_ops demo_os (default_options\<lparr>op_command := ''reconcile''\<rparr>) demo_session demo_disk_engine = Some (x, e') \<and>
     te_code x = 0 \<and> req_op q = Reconcile \<and> apply_request file_ops q f = (out, e') \<and> out_ok out \<and> e_journal f = Some k \<and> file_ready k"
proof -
  let ?o = "default_options\<lparr>op_command := ''reconcile''\<rparr>"
  obtain y e' where c: "apply_request file_ops demo_reconcile demo_disk_engine = (y, e')" by fastforce
  have room: "disk_space.has_room demo_disk_engine"
    by (simp add: disk_space.has_room_def demo_disk_running file_bytes demo_file_facts) (simp add: default_limits_def)
  have "out_applied y"
    by (rule disk_space.room_acknowledges(1) [OF room c demo_reconcile_admitted [OF demo_disk_running(1)] demo_reconcile_decides [OF demo_disk_running(1)]])
  then obtain s' where r: "session_reconcile file_ops demo_session demo_disk_engine = (success, s', e')"
    using demo_session_reconciles [OF demo_disk_running(1) c] by blast
  have x: "\<exists>x. offline_command file_ops demo_os ?o demo_session demo_disk_engine = Some (x, e') \<and> te_code x = 0"
    using r by (simp add: offline_command_def exits_def default_options_def Let_def)
  then obtain x where x: "offline_command file_ops demo_os ?o demo_session demo_disk_engine = Some (x, e')" "te_code x = 0" by blast
  have inv: "engine_inv demo_disk_engine"
    using demo_disk_running demo_engine_inv by (simp add: engine_inv_def demo_running_def)
  have rd: "file_ready demo_file" using demo_file_facts(1) by (simp add: file_usable_def)
  have "op_command ?o \<notin> {''bench'', ''snapshot'', ''explain'', ''describe''}" by simp
  from successful_command_is_on_disk [OF x this inv demo_disk_running(2) rd]
  obtain q f k out where "carries_out ?o q" "apply_request file_ops q f = (out, e')" "out_ok out" "e_journal f = Some k" "file_ready k"
    by blast
  then show ?thesis using x by (intro exI [of _ x] exI [of _ e'] exI [of _ q] exI [of _ f] exI [of _ k] exI [of _ out]) (simp add: carries_out_def)
qed

subsection \<open>Which arguments are accepted\<close>

text \<open>The verdict on the numbers is the verdict on the last one that is given.\<close>

definition number_flags :: "args \<Rightarrow> string list" where
  "number_flags values =
     [''--domain'', ''--account'', ''--resource'', ''--capacity'', ''--max-capacity'', ''--max-issue'', ''--count''] @
     (if args_has values ''--to'' then [''--to''] else []) @ [''--value'', ''--limit-window'', ''--port'', ''--producer'']"

definition given_numbers :: "args \<Rightarrow> string list" where
  "given_numbers values = filter (\<lambda>t. t \<noteq> []) (map (\<lambda>flag. args_get values flag '''') (number_flags values))"

definition note_verdict :: "args \<Rightarrow> string \<Rightarrow> bool \<Rightarrow> bool" where
  "note_verdict values flag ok = (let text = args_get values flag '''' in if text = [] then ok else parse_u64 text \<noteq> None)"

lemma args_number_verdict: "snd (args_number values flag fallback ok) = note_verdict values flag ok"
  by (simp add: args_number_def note_verdict_def Let_def split: option.splits)

lemma fold_verdict:
  "fold (note_verdict values) flags ok =
     (let given = filter (\<lambda>t. t \<noteq> []) (map (\<lambda>flag. args_get values flag '''') flags)
      in if given = [] then ok else parse_u64 (List.last given) \<noteq> None)"
  by (induction flags arbitrary: ok) (auto simp: note_verdict_def Let_def)

lemma parse_numbers_verdict: "snd (parse_numbers values out) = fold (note_verdict values) (number_flags values) True"
  by (simp add: parse_numbers_def number_flags_def Let_def split_def args_number_verdict)

text \<open>C40: which arguments the operator tool accepts. Its numeric options are read in a fixed order and share one
  verdict, which every option that is given overwrites: the arguments are accepted exactly when the last numeric option
  given in that order is a decimal number that fits, and the target, if given, is hexadecimal. A malformed option
  before it is not reported; its default is used.\<close>

theorem last_number_decides:
  "parse_options values \<noteq> None \<longleftrightarrow>
     (given_numbers values = [] \<or> parse_u64 (List.last (given_numbers values)) \<noteq> None) \<and>
     (args_get values ''--target'' '''' = [] \<or> parse_hex_id (args_get values ''--target'' '''') \<noteq> None)"
proof -
  obtain out ok where p: "parse_numbers values (default_options\<lparr>op_journal := args_get values ''--journal'' '''',
      op_host := args_get values ''--host'' ''127.0.0.1''\<rparr>) = (out, ok)" by fastforce
  have "ok = (given_numbers values = [] \<or> parse_u64 (List.last (given_numbers values)) \<noteq> None)"
    using parse_numbers_verdict [of "values" "default_options\<lparr>op_journal := args_get values ''--journal'' '''',
      op_host := args_get values ''--host'' ''127.0.0.1''\<rparr>"] p by (simp add: fold_verdict given_numbers_def Let_def)
  then show ?thesis using p by (auto simp: parse_options_def Let_def split: option.splits if_splits)
qed

theorem last_number_decides_witness:
  "parse_options [''--count'', ''ten'', ''--value'', ''7'', ''issue''] \<noteq> None \<and> parse_u64 ''ten'' = None \<and>
   parse_options [''--count'', ''ten'', ''issue''] = None"
proof -
  have "given_numbers [''--count'', ''ten'', ''--value'', ''7'', ''issue''] = [''ten'', ''7'']"
    "given_numbers [''--count'', ''ten'', ''issue''] = [''ten'']" "parse_u64 ''7'' = Some 7" "parse_u64 ''ten'' = None"
    "args_get [''--count'', ''ten'', ''--value'', ''7'', ''issue''] ''--target'' '''' = []"
    by code_simp+
  then show ?thesis
    using last_number_decides [of "[''--count'', ''ten'', ''--value'', ''7'', ''issue'']"]
      last_number_decides [of "[''--count'', ''ten'', ''issue'']"] by simp
qed

subsection \<open>Identities on the command line\<close>

lemma parse_hex_digits:
  "\<forall>d\<in>set ds. d < 16 \<Longrightarrow> parse_hex_loop (map hex_digit ds) v = Some (foldl (\<lambda>v d. v * 16 + of_nat d) v ds)"
  by (induction ds arbitrary: v) (simp_all add: hex_value_digit)

lemma nibble_step: "drop_bit k (v :: u64) = drop_bit (k + 4) v * 16 + (drop_bit k v AND 15)"
proof -
  have "drop_bit k v = push_bit 4 (drop_bit 4 (drop_bit k v)) + take_bit 4 (drop_bit k v)"
    by (simp only: bits_ident)
  then show ?thesis by (simp add: push_bit_eq_mult take_bit_eq_mask mask_eq_exp_minus_1 add.commute)
qed

lemma nibbles_below:
  "m \<le> 16 \<Longrightarrow> foldl (\<lambda>v d. v * 16 + of_nat d) 0 (map (\<lambda>i. unat (drop_bit ((15 - i) * 4) v AND 15)) [0..<m]) = drop_bit ((16 - m) * 4) (v :: u64)"
proof (induction m)
  case 0
  have "drop_bit 64 v = 0" by (rule bit_word_eqI) (simp add: bit_simps)
  then show ?case by simp
next
  case (Suc m)
  have e: "(16 - m) * 4 = (15 - m) * 4 + 4" "16 - Suc m = 15 - m" using Suc.prems by auto
  show ?case using Suc nibble_step [of "(15 - m) * 4" v] by (simp add: e)
qed

text \<open>What the tool prints for an incarnation is what its \<open>--target\<close> reads.\<close>

lemma parse_hex_inverts_to_hex: "parse_hex_id (to_hex v) = Some v"
proof -
  have b: "unat (x AND 15 :: u64) < 16" for x
    using word_and_le1 [of x 15] by (simp add: word_le_nat_alt)
  have "to_hex v = map hex_digit (map (\<lambda>i. unat (drop_bit ((15 - i) * 4) v AND 15)) [0..<16])" by (simp add: to_hex_def)
  moreover have "parse_hex_loop (map hex_digit (map (\<lambda>i. unat (drop_bit ((15 - i) * 4) v AND 15)) [0..<16])) 0 = Some v"
    using nibbles_below [of 16 v] by (subst parse_hex_digits) (auto simp: b)
  ultimately have "parse_hex_loop (to_hex v) 0 = Some v" by (simp only:)
  then show ?thesis by (simp add: parse_hex_id_def) (simp add: to_hex_def)
qed

subsection \<open>The coordinator process stops\<close>

lemma coordinator_wait_ends:
  assumes "max_requests \<noteq> 0" "\<forall>i\<ge>n. \<not> sv_served (seen i) < max_requests"
  shows "\<exists>i. coordinator_wait seen max_requests k = Some i"
proof (induction "n - k" arbitrary: k rule: less_induct)
  case less
  show ?case
  proof (cases "sv_served (seen k) < max_requests")
    case True
    then have "k < n" using assms(2) by (meson not_le)
    then have "n - Suc (Suc k) < n - k" by simp
    then show ?thesis using less assms(1) True by (subst coordinator_wait.simps) auto
  next
    case False
    then show ?thesis using assms(1) by (subst coordinator_wait.simps) auto
  qed
qed

end
