(* ===== verification/Serving.thy ===== *)
theory Serving
  imports Session
begin

text \<open>
  When a session is served. An engine whose journal has room for a number of decisions applies that many: every ledger
  attempt of a placed session whose plan the ledger accepts is applied, uses one share of the room and leaves the session
  placed for its next attempt. The lemmas are stated once over \<open>journal_space\<close>, so they hold of the engine over every
  journal that interprets it; the example consumer rests on them.
\<close>

subsection \<open>Room for several decisions\<close>

lemma unat_add_bound: "unat (a + b :: u64) \<le> unat a + unat b"
  by (simp add: unat_word_ariths)

context journal_space
begin

definition room_for :: "nat \<Rightarrow> 'j engine \<Rightarrow> bool" where
  "room_for n e \<longleftrightarrow>
     (\<exists>j. e_journal e = Some j \<and> usable j \<and> 10000 * n \<le> space j \<and>
          unat (j_bytes jops j) + 10000 * n < unat (max_journal_bytes (e_limits e))) \<and>
     unat (e_journal_records e) + 2 * n < journal_records_per_snapshot (e_limits e)"

lemma room_for_has_room: "room_for (Suc n) e \<Longrightarrow> has_room e"
  using unat_add_bound [of "e_journal_records e" 2] by (auto simp: room_for_def has_room_def)

lemma room_for_same:
  "e_journal f = e_journal e \<Longrightarrow> e_limits f = e_limits e \<Longrightarrow> e_journal_records f = e_journal_records e \<Longrightarrow> room_for n f = room_for n e"
  by (simp add: room_for_def)

lemma room_for_persist:
  assumes "room_for (Suc n) e" "persist_locked jops q x (Some a) c e = (s, e')"
  shows "status_ok s" "room_for n e'"
proof -
  obtain j where j: "e_journal e = Some j" "10000 * Suc n \<le> space j"
    "unat (j_bytes jops j) + 10000 * Suc n < unat (max_journal_bytes (e_limits e))"
    "unat (e_journal_records e) + 2 * Suc n < journal_records_per_snapshot (e_limits e)"
    using assms(1) by (auto simp: room_for_def)
  obtain j' where p: "s = success" "e_journal e' = Some j'" "usable j'" "space j \<le> space j' + 10000"
    "unat (j_bytes jops j') \<le> unat (j_bytes jops j) + 10000" "e_journal_records e' = e_journal_records e + 2"
    using room_persist [OF room_for_has_room [OF assms(1)], of q x a c] assms(2) j(1) by auto
  have l: "e_limits e' = e_limits e" using persist_locked_same [OF assms(2)] by (simp add: same_decisions_def)
  show "status_ok s" using p(1) by simp
  have "unat (e_journal_records e') \<le> unat (e_journal_records e) + 2"
    using unat_add_bound [of "e_journal_records e" 2] by (simp add: p(6))
  then show "room_for n e'" using p(2-5) j(2-4) l by (auto simp: room_for_def)
qed

text \<open>A decision to apply, and an opening, use one share of the room.\<close>

lemma room_applies:
  assumes "room_for (Suc n) e" "apply_request jops q e = (out, e')" "admitted e q a" "decide e q a = DecApply b"
  shows "out_applied out" "room_for n e'"
proof -
  show "out_applied out" by (rule room_acknowledges(1) [OF room_for_has_room [OF assms(1)] assms(2-4)])
  have "enact jops (request_key q) q (bind_outcome a (initial_outcome q)) a e (decide e q a) = (out, e')"
    using assms(2)
  proof (cases rule: apply_request_cases)
    case (decided a')
    then show ?thesis using assms(3) by (simp add: admitted_def)
  qed (use assms(3) in \<open>auto simp: admitted_def\<close>)
  then obtain x s e1 where p: "persist_locked jops q x (Some b) False (put_account (request_key q) b e) = (s, e1)"
    "status_ok s \<Longrightarrow> e_journal e' = e_journal e1 \<and> e_limits e' = e_limits e1 \<and> e_journal_records e' = e_journal_records e1"
    using assms(4) by (auto simp: enact_def commit_applied_def bump_applied_def put_account_def Let_def split: prod.splits if_splits)
  have "room_for (Suc n) (put_account (request_key q) b e)" using assms(1) by (simp add: room_for_def put_account_def)
  from room_for_persist [OF this p(1)] p(2) show "room_for n e'" using room_for_same by metis
qed

lemma room_opens:
  assumes "room_for (Suc n) e" "apply_request jops q e = (out, e')" "req_op q = Open" "e_recovered e" "\<not> e_journal_failed e"
    "structural_refusal (e_limits e) q = None" "open_refusal e q = None"
  shows "out_applied out" "room_for n e'"
proof -
  define a where "a = open_account (max_attempt_window (e_limits e)) q"
  define d where "d = open_outcome q (initial_outcome q) a"
  obtain s e1 where p: "persist_locked jops q d (Some a) True (put_account (id_value (as_account a)) a e) = (s, e1)" by fastforce
  have r: "room_for (Suc n) (put_account (id_value (as_account a)) a e)" using assms(1) by (simp add: room_for_def put_account_def)
  note ok = room_for_persist [OF r p]
  have "apply_request jops q e = (d, bump_applied (put_account (id_value (as_account a)) (publish_window q d a) e1))"
    using assms(3-7) p ok(1)
    by (simp add: apply_request_def apply_locked_def create_account_locked_alt open_commit_def Let_def a_def [symmetric] d_def [symmetric])
  with assms(2) have "out = d" "e' = bump_applied (put_account (id_value (as_account a)) (publish_window q d a) e1)" by auto
  then show "out_applied out" "room_for n e'"
    using ok(2) room_for_same [of e' e1] by (simp_all add: d_def open_outcome_def bump_applied_def put_account_def)
qed

end

subsection \<open>Which attempts a window knows\<close>

definition known_attempts :: "AccountState \<Rightarrow> AttemptId set" where
  "known_attempts a = fmdom' (aw_by_attempt (as_window a))"

lemma unknown_attempt: "i \<notin> known_attempts a \<Longrightarrow> window_find_by_attempt (as_window a) i = None"
  by (simp add: known_attempts_def window_find_by_attempt_def fmdom'_notD)

lemma pop_attempts: "fmdom' (aw_by_attempt (window_pop w)) \<subseteq> fmdom' (aw_by_attempt w)"
  by (auto simp: window_pop_def Let_def split: list.splits option.splits)

lemma evict_attempts: "fmdom' (aw_by_attempt (window_evict w)) \<subseteq> fmdom' (aw_by_attempt w)"
proof (induction w rule: window_evict.induct)
  case (1 w)
  show ?case
  proof (cases "length (aw_order w) > aw_limit w")
    case True
    have "window_evict w = window_evict (window_pop w)" using True by (subst window_evict.simps) simp
    then show ?thesis using subset_trans [OF "1.IH" [OF True] pop_attempts] by simp
  qed (subst window_evict.simps, simp)
qed

lemma inserted_attempts: "fmdom' (aw_by_attempt (window_insert x w)) \<subseteq> insert (we_attempt x) (fmdom' (aw_by_attempt w))"
  by (cases "fmlookup (aw_by_key w) (we_key x)")
    (auto simp: window_insert_def dest!: subsetD [OF evict_attempts])

lemma published_attempts: "known_attempts (publish_window q out a) \<subseteq> insert (req_attempt q) (known_attempts a)"
  using inserted_attempts [of "entry_of q out" "as_window a"] by (simp add: known_attempts_def publish_window_window)

subsection \<open>A placed session is served\<close>

text \<open>An attempt on the ledger that binds no producer, consumer or grant.\<close>

definition plain_attempt :: "CreditRequest \<Rightarrow> bool" where
  "plain_attempt q \<longleftrightarrow> op_is_ledger (req_op q) \<and> req_count q \<noteq> 0 \<and> req_note q = '''' \<and> \<not> is_set (req_producer q) \<and>
     \<not> is_set (req_consumer q) \<and> \<not> is_set (req_grant q)"

lemma plain_attempt_op:
  "plain_attempt q \<Longrightarrow> req_op q \<notin> {Describe, Open, Reconcile} \<and> classify_op (req_op q) \<noteq> ControlOp"
  by (cases "req_op q") (simp_all add: plain_attempt_def)

lemma plain_attempt_request: "plain_attempt (session_request s q) = plain_attempt q"
  by (simp add: plain_attempt_def session_request_def)

lemma session_same_plan: "ledger_apply a (session_request s q) m = ledger_apply a q m"
  by (cases "req_op q") (simp_all add: ledger_apply_def session_request_def)

lemma plain_decides:
  assumes "plain_attempt q" "ledger_apply a q (make_plan (as_capacity a) (as_totals a)) = (success, p)" "\<not> as_hard_exhausted a"
    "find_incarnation a (av_incarnation (req_authority q)) \<noteq> None"
  shows "decide e q a = DecApply (count_committed q (a\<lparr>as_totals := p_totals p\<rparr>))"
proof -
  have "bind_issue q x = (None, x)" for x using assms(1) by (simp add: bind_issue_def plain_attempt_def)
  moreover have "set_incarnation (id_value k) x a = a" if "find_incarnation a k = Some x" for k x
    using that by (simp add: set_incarnation_def find_incarnation_def fmupd_same)
  ultimately show ?thesis
    using assms
    by (cases "req_op q") (auto simp: decide_def decide_data_def decide_ledger_def plain_attempt_def Let_def)
qed

text \<open>What the account then holds, and where the session stands.\<close>

lemma served_account:
  assumes "b = publish_window q out (count_committed q (a\<lparr>as_totals := t\<rparr>))"
  shows "as_totals b = t" "as_config b = as_config a" "as_capacity b = as_capacity a" "as_hard_exhausted b = as_hard_exhausted a"
    "as_domain b = as_domain a" "as_epoch b = as_epoch a" "as_generation b = as_generation a"
    "known_attempts b \<subseteq> insert (req_attempt q) (known_attempts a)"
proof -
  show "as_totals b = t" "as_config b = as_config a" "as_capacity b = as_capacity a" "as_hard_exhausted b = as_hard_exhausted a"
    "as_domain b = as_domain a" "as_epoch b = as_epoch a" "as_generation b = as_generation a"
    by (simp_all add: assms count_committed_def)
  have "known_attempts (count_committed q (a\<lparr>as_totals := t\<rparr>)) = known_attempts a"
    by (simp add: known_attempts_def count_committed_def)
  then show "known_attempts b \<subseteq> insert (req_attempt q) (known_attempts a)"
    using published_attempts [of q out "count_committed q (a\<lparr>as_totals := t\<rparr>)"] assms by simp
qed

lemma served_placed:
  assumes "session_placed s e a" "b = publish_window (session_request s q) out (count_committed (session_request s q) (a\<lparr>as_totals := t\<rparr>))"
    "e_accounts e' = fmupd (id_value (lo_account s)) b (e_accounts e)" "frame_kept e e'" "\<not> e_journal_failed e'"
  shows "session_placed (s\<lparr>lo_sequence := lo_sequence s + 1\<rparr>) e' b"
proof -
  obtain r where r: "find_incarnation a (inc_id (lo_me s)) = Some r" "is_live (as_epoch a) (as_generation a) r"
    using assms(1) by (auto simp: session_placed_def)
  have i: "av_incarnation (lo_authority s) = inc_id (lo_me s)" using assms(1) by (simp add: session_placed_def)
  have "find_incarnation b (inc_id (lo_me s)) = Some (r\<lparr>ir_committed_ops := ir_committed_ops r + 1, ir_last_sequence := lo_sequence s\<rparr>)"
    using r(1) i by (simp add: assms(2) find_incarnation_def publish_window_lookup session_request_def count_committed_def lookup_update_incarnation)
  moreover have "is_live (as_epoch a) (as_generation a) (r\<lparr>ir_committed_ops := ir_committed_ops r + 1, ir_last_sequence := lo_sequence s\<rparr>)"
    using r(2) by (simp add: is_live_def)
  ultimately show ?thesis
    using assms(1,3-5) served_account(5-7) [OF assms(2)] by (auto simp: session_placed_def watermark_of_def frame_kept_def)
qed

definition can_serve :: "LocalSession \<Rightarrow> 'j engine \<Rightarrow> AccountState \<Rightarrow> bool" where
  "can_serve s e a \<longleftrightarrow> session_placed s e a \<and> engine_inv e \<and> \<not> as_hard_exhausted a"

context journal_space
begin

lemma served_attempt:
  assumes "can_serve s e a" "room_for (Suc n) e" "plain_attempt q" "lo_sequence s \<noteq> 0" "req_attempt q \<notin> known_attempts a"
    "ledger_apply a q (make_plan (as_capacity a) (as_totals a)) = (success, p)" "apply_request jops (session_request s q) e = (out, e')"
  shows "\<exists>b. can_serve (s\<lparr>lo_sequence := lo_sequence s + 1\<rparr>) e' b \<and> room_for n e' \<and> out_ok out \<and> out_decided out \<and>
    as_totals b = p_totals p \<and> as_config b = as_config a \<and> as_capacity b = as_capacity a \<and>
    known_attempts b \<subseteq> insert (req_attempt q) (known_attempts a)"
proof -
  let ?q = "session_request s q"
  have pl: "session_placed s e a" and inv: "engine_inv e" and ex: "\<not> as_hard_exhausted a" using assms(1) by (simp_all add: can_serve_def)
  have au: "av_incarnation (lo_authority s) = inc_id (lo_me s)" "av_account (lo_authority s) = lo_account s"
    "find_incarnation a (inc_id (lo_me s)) \<noteq> None" using pl by (auto simp: session_placed_def)
  have adm: "admitted e ?q a"
    by (rule placed_admits [OF pl inv]) (use assms(3-5) plain_attempt_op [OF assms(3)] unknown_attempt in \<open>auto simp: plain_attempt_def\<close>)
  define b where "b = count_committed ?q (a\<lparr>as_totals := p_totals p\<rparr>)"
  have l: "ledger_apply a ?q (make_plan (as_capacity a) (as_totals a)) = (success, p)"
    unfolding session_same_plan by (rule assms(6))
  have dec: "decide e ?q a = DecApply b"
    unfolding b_def
  proof (rule plain_decides [OF _ l ex])
    show "plain_attempt ?q" using assms(3) by (simp only: plain_attempt_request)
  qed (use au in \<open>simp add: session_request_def\<close>)
  note room = room_applies [OF assms(2,7) adm dec]
  have key: "request_key ?q = id_value (lo_account s)" using au(2) by (simp add: request_key_def session_request_def)
  have fx: "e_accounts e' = fmupd (id_value (lo_account s)) (publish_window ?q out b) (e_accounts e) \<and> frame_kept e e' \<and>
      \<not> e_journal_failed e' \<and> out_ok out \<and> out_decided out"
    using assms(7)
  proof (cases rule: apply_cases)
    case (applied x y)
    then have "x = a" using adm by (simp add: admitted_def)
    then show ?thesis using applied dec key by simp
  qed (use room(1) adm plain_attempt_op [OF assms(3)] in \<open>auto simp: session_request_def\<close>)
  have inv': "engine_inv e'" using run_keeps_inv [OF run_step [OF run_start step_apply [OF assms(7)]] inv] .
  have "session_placed (s\<lparr>lo_sequence := lo_sequence s + 1\<rparr>) e' (publish_window ?q out b)"
    by (rule served_placed [OF pl _ _ _ _]) (use fx in \<open>simp_all add: b_def\<close>)
  then show ?thesis
    using served_account [OF refl, of ?q out "p_totals p" a, folded b_def] inv' ex room(2) fx
    by (intro exI [of _ "publish_window ?q out b"]) (simp add: can_serve_def session_request_def)
qed

end

end
