(* ===== verification/Consumer.thy ===== *)
theory Consumer
  imports Tools Serving
begin

text \<open>
  The example consumer of the installed library (\<open>examples/consumer/main.cpp\<close>): it recovers an engine over an empty
  journal in memory, opens an account, issues, consumes and returns credit and checks the explanation of the account. The
  build profile and the random number behind the engine's challenge are parameters. Shown here: the program succeeds.
\<close>

subsection \<open>The program\<close>

definition consumer_me :: Incarnation where
  "consumer_me = make_incarnation (StrongId 0x1000) (StrongId 0x2000)"

definition consumer_config :: AccountConfig where
  "consumer_config =
     default_config\<lparr>cfg_domain := StrongId 0xC0DE, cfg_account := StrongId 0xFEED, cfg_resource := StrongId 1,
       cfg_policy := StrongId 1, cfg_capacity := 1000, cfg_max_capacity := 1000, cfg_profile := Synthetic,
       cfg_rules := default_policy\<lparr>max_issue_per_attempt := 1000\<rparr>\<rparr>"

definition consumer_authority :: AuthorityVector where
  "consumer_authority =
     \<lparr>av_domain = StrongId 0xC0DE, av_account = StrongId 0xFEED, av_epoch = StrongId 1, av_generation = StrongId 1,
      av_incarnation = inc_id consumer_me\<rparr>"

definition consumer_engine :: "Digest128 \<Rightarrow> InMemoryJournal engine" where
  "consumer_engine nonce = make_engine default_limits (Some (make_in_memory 0x4000000)) consumer_me nonce"

text \<open>What the lambda \<open>submit\<close> captures.\<close>

record consumer =
  co_engine :: "InMemoryJournal engine"
  co_attempts :: AttemptIdGenerator
  co_sequence :: u64

definition consumer_submit :: "OpKind \<Rightarrow> u64 \<Rightarrow> consumer \<Rightarrow> CreditOutcome \<times> consumer" where
  "consumer_submit oper count c =
     (case attempt_next (co_attempts c) of
        (attempt, attempts1) \<Rightarrow>
          let request = default_request\<lparr>req_op := oper, req_count := count, req_presenter := consumer_me,
                req_authority := consumer_authority, req_attempt := attempt, req_sequence := co_sequence c\<rparr> in
          (case apply_request in_memory_ops request (co_engine c) of
             (outcome, e1) \<Rightarrow>
               (outcome, \<lparr>co_engine = e1, co_attempts = attempts1,
                 co_sequence = (if out_decided outcome then req_sequence request + 1 else co_sequence c)\<rparr>)))"

definition consumer_open :: "consumer \<Rightarrow> CreditOutcome \<times> consumer" where
  "consumer_open c =
     (case attempt_next (co_attempts c) of
        (attempt, attempts1) \<Rightarrow>
          (case apply_request in_memory_ops (default_request\<lparr>req_op := Open, req_config := consumer_config,
                  req_presenter := consumer_me, req_authority := consumer_authority, req_attempt := attempt,
                  req_sequence := co_sequence c,
                  req_proof := challenge_compute (e_challenge (co_engine c)) consumer_me consumer_authority\<rparr>) (co_engine c) of
             (opened, e1) \<Rightarrow> (opened, \<lparr>co_engine = e1, co_attempts = attempts1, co_sequence = co_sequence c\<rparr>)))"

definition consumer_fail :: "string \<Rightarrow> string \<Rightarrow> tool_exit" where
  "consumer_fail printed message = exits 1 printed (''consumer: '' @ message @ newline)"

definition consumer_verdict :: "string \<Rightarrow> CreditView \<Rightarrow> tool_exit" where
  "consumer_verdict printed view =
     (if \<not> v_closed view then consumer_fail printed ''accounting does not close''
      else if v_in_flight view \<noteq> 0 then consumer_fail printed ''credit is still in flight after the round trip''
      else if v_available view \<noteq> v_capacity view then consumer_fail printed ''capacity was not recycled''
      else if v_consumed view \<noteq> 150 then consumer_fail printed ''consumed total is wrong''
      else exits 0 (printed @ ''consumer: OK'' @ newline) '''')"

definition consumer_rounds :: "string \<Rightarrow> consumer \<Rightarrow> tool_exit" where
  "consumer_rounds printed c0 =
     (case consumer_submit Issue 400 c0 of
        (issued_400, c1) \<Rightarrow>
          if \<not> out_ok issued_400 then consumer_fail printed ''issue refused''
          else case consumer_submit Consume 150 c1 of
            (consumed_150, c2) \<Rightarrow>
              if \<not> out_ok consumed_150 then consumer_fail printed ''consume refused''
              else case consumer_submit Return 400 c2 of
                (returned_400, c3) \<Rightarrow>
                  if \<not> out_ok returned_400 then consumer_fail printed ''return refused''
                  else let explanation = explain (StrongId 0xFEED) (co_engine c3) in
                       consumer_verdict (printed @ render explanation) (ex_view explanation))"

definition consumer_banner :: "bool \<Rightarrow> string" where
  "consumer_banner ndebug = ''creditfabric version '' @ version_string @ '' ('' @ build_profile ndebug @ '')'' @ newline"

definition consumer_main :: "bool \<Rightarrow> Digest128 \<Rightarrow> nat \<Rightarrow> tool_exit option" where
  "consumer_main ndebug nonce fuel =
     Option.bind (recover in_memory_ops fuel (consumer_engine nonce)) (\<lambda>(recovered, e1).
       Some (let printed = consumer_banner ndebug in
         if \<not> status_ok recovered then consumer_fail printed ''recovery refused''
         else case consumer_open \<lparr>co_engine = e1, co_attempts = make_generator 0 0x1234, co_sequence = 1\<rparr> of
           (opened, c) \<Rightarrow>
             if \<not> out_ok opened then consumer_fail printed ''open refused''
             else consumer_rounds printed (c\<lparr>co_sequence := 2\<rparr>)))"

subsection \<open>Recovery\<close>

text \<open>An empty journal in memory recovers at once, to an engine with no account and all the room.\<close>

lemma empty_recovers:
  "recover in_memory_ops (Suc fuel) (make_engine l (Some (make_in_memory n)) me nonce) =
     Some (success, recover_finish in_memory_ops
       ((make_engine l (Some (make_in_memory n)) me nonce)\<lparr>e_next_sequence := 1\<rparr>))"
  by (simp add: recover_def recover_snapshot_def in_memory_ops_def with_journal_def make_engine_def make_in_memory_def
      mem_open_def mem_read_snapshot_def mem_begin_replay_def mem_end_replay_def mem_next_record_def
      default_journal_record_def Let_def)

definition consumer_start :: "Digest128 \<Rightarrow> InMemoryJournal engine" where
  "consumer_start nonce = recover_finish in_memory_ops ((consumer_engine nonce)\<lparr>e_next_sequence := 1\<rparr>)"

lemma consumer_start_fields:
  "e_accounts (consumer_start nonce) = fmempty" "e_recovered (consumer_start nonce)" "\<not> e_journal_failed (consumer_start nonce)"
  "e_limits (consumer_start nonce) = default_limits" "e_challenge (consumer_start nonce) = nonce"
  "e_journal (consumer_start nonce) = Some (make_in_memory 0x4000000)" "e_journal_records (consumer_start nonce) = 0"
  by (simp_all add: consumer_start_def consumer_engine_def recover_finish_def make_engine_def clamp_limits_def default_limits_def at_least_def Let_def)

lemma consumer_start_inv: "engine_inv (consumer_start nonce)"
  by (simp add: engine_inv_def fcard_fempty consumer_start_fields clamp_limits_def default_limits_def at_least_def)

lemma consumer_start_room: "mem_space.room_for 4 (consumer_start nonce)"
  by (simp add: mem_space.room_for_def consumer_start_fields default_limits_def make_in_memory_def in_memory_bytes)

lemma consumer_recovers: "recover in_memory_ops (Suc fuel) (consumer_engine nonce) = Some (success, consumer_start nonce)"
  by (simp add: consumer_engine_def empty_recovers consumer_start_def)

subsection \<open>The attempts\<close>

text \<open>Where the program stands after \<open>n\<close> attempts.\<close>

definition consumer_session :: "nat \<Rightarrow> LocalSession" where
  "consumer_session n =
     \<lparr>lo_me = consumer_me, lo_domain = StrongId 0xC0DE, lo_account = StrongId 0xFEED, lo_authority = consumer_authority,
      lo_attempts = make_generator 0 0x1234, lo_sequence = of_nat (Suc n), lo_reconciled = True\<rparr>"

definition consumer_id :: "nat \<Rightarrow> AttemptId" where
  "consumer_id n = attempt_stream n (make_generator 0 0x1234)"

definition consumer_at :: "nat \<Rightarrow> CreditTotals \<Rightarrow> consumer \<Rightarrow> AccountState \<Rightarrow> bool" where
  "consumer_at n t c a \<longleftrightarrow>
     can_serve (consumer_session n) (co_engine c) a \<and> mem_space.room_for (4 - n) (co_engine c) \<and>
     co_attempts c = (make_generator 0 0x1234)\<lparr>gen_counter := of_nat n\<rparr> \<and> co_sequence c = of_nat (Suc n) \<and>
     known_attempts a \<subseteq> consumer_id ` {..<n} \<and> as_totals a = t \<and> as_config a = consumer_config \<and> as_capacity a = 1000"

definition consumer_plan :: "OpKind \<Rightarrow> u64 \<Rightarrow> CreditTotals \<Rightarrow> Status \<times> LedgerPlan" where
  "consumer_plan oper k t =
     ledger_apply ((make_account 0)\<lparr>as_config := consumer_config\<rparr>) (default_request\<lparr>req_op := oper, req_count := k\<rparr>) (make_plan 1000 t)"

lemma consumer_same_plan:
  "as_config a = consumer_config \<Longrightarrow>
     ledger_apply a (default_request\<lparr>req_op := oper, req_count := k, req_attempt := i\<rparr>) (make_plan 1000 t) = consumer_plan oper k t"
  by (cases oper) (simp_all add: consumer_plan_def ledger_apply_def)

lemma consumer_ids: "distinct (map consumer_id [0, 1, 2, 3])"
  by code_simp

lemma consumer_fresh: "n < 4 \<Longrightarrow> consumer_id n \<notin> consumer_id ` {..<n}"
proof -
  have "inj_on consumer_id {0, 1, 2, 3}" using consumer_ids by (simp add: distinct_map)
  then have "inj_on consumer_id {..<4}" by (rule inj_on_subset) auto
  then show "n < 4 \<Longrightarrow> ?thesis" by (auto dest: inj_onD)
qed

lemma consumer_next:
  "attempt_next ((make_generator 0 0x1234)\<lparr>gen_counter := of_nat n\<rparr>) =
     (consumer_id n, (make_generator 0 0x1234)\<lparr>gen_counter := of_nat (Suc n)\<rparr>)"
  by (simp add: consumer_id_def attempt_stream_counter make_generator_def attempt_next_def Let_def add.commute)

lemma consumer_step:
  assumes "consumer_at n t c a" "n < 4" "op_is_ledger oper" "k \<noteq> 0" "consumer_plan oper k t = (success, p)"
  obtains out c' b where "consumer_submit oper k c = (out, c')" "out_ok out" "consumer_at (Suc n) (p_totals p) c' b"
proof -
  define q where "q = default_request\<lparr>req_op := oper, req_count := k, req_attempt := consumer_id n\<rparr>"
  have "Suc (3 - n) = 4 - n" using assms(2) by simp
  then have at: "can_serve (consumer_session n) (co_engine c) a" "mem_space.room_for (Suc (3 - n)) (co_engine c)"
    "co_attempts c = (make_generator 0 0x1234)\<lparr>gen_counter := of_nat n\<rparr>" "co_sequence c = of_nat (Suc n)"
    "known_attempts a \<subseteq> consumer_id ` {..<n}" "as_totals a = t" "as_config a = consumer_config" "as_capacity a = 1000"
    using assms(1) by (simp_all add: consumer_at_def)
  obtain out e' where r: "apply_request in_memory_ops (session_request (consumer_session n) q) (co_engine c) = (out, e')" by fastforce
  have "plain_attempt q" using assms(3,4) by (simp add: plain_attempt_def q_def default_request_def)
  moreover have "lo_sequence (consumer_session n) \<noteq> 0"
  proof -
    have "n = 0 \<or> n = 1 \<or> n = 2 \<or> n = 3" using assms(2) by linarith
    then show ?thesis by (auto simp: consumer_session_def)
  qed
  moreover have "req_attempt q \<notin> known_attempts a" using at(5) consumer_fresh [OF assms(2)] by (auto simp: q_def)
  moreover have "ledger_apply a q (make_plan (as_capacity a) (as_totals a)) = (success, p)"
    unfolding q_def at(6,8) consumer_same_plan [OF at(7)] by (rule assms(5))
  ultimately obtain b where b: "can_serve ((consumer_session n)\<lparr>lo_sequence := lo_sequence (consumer_session n) + 1\<rparr>) e' b"
    "mem_space.room_for (3 - n) e'" "out_ok out" "out_decided out" "as_totals b = p_totals p" "as_config b = as_config a"
    "as_capacity b = as_capacity a" "known_attempts b \<subseteq> insert (req_attempt q) (known_attempts a)"
    using mem_space.served_attempt [OF at(1,2) _ _ _ _ r] by blast
  let ?c = "\<lparr>co_engine = e', co_attempts = (make_generator 0 0x1234)\<lparr>gen_counter := of_nat (Suc n)\<rparr>, co_sequence = of_nat (Suc (Suc n))\<rparr>"
  have "session_request (consumer_session n) q =
      default_request\<lparr>req_op := oper, req_count := k, req_presenter := consumer_me, req_authority := consumer_authority,
        req_attempt := consumer_id n, req_sequence := of_nat (Suc n)\<rparr>"
    by (simp add: q_def session_request_def consumer_session_def default_request_def)
  then have "consumer_submit oper k c = (out, ?c)"
    using r b(4) by (simp add: consumer_submit_def at(3,4) consumer_next Let_def)
  moreover have "known_attempts b \<subseteq> consumer_id ` {..<Suc n}" using b(8) at(5) by (auto simp: q_def lessThan_Suc)
  ultimately show ?thesis
    using b at(7,8) that [of out ?c b] by (simp add: consumer_at_def consumer_session_def add.commute)
qed

subsection \<open>Opening\<close>

definition consumer_opening :: "Digest128 \<Rightarrow> CreditRequest" where
  "consumer_opening nonce =
     default_request\<lparr>req_op := Open, req_config := consumer_config, req_presenter := consumer_me,
       req_authority := consumer_authority, req_attempt := consumer_id 0, req_sequence := 1,
       req_proof := challenge_compute nonce consumer_me consumer_authority\<rparr>"

lemma consumer_me_set: "is_set (inc_id consumer_me)"
  by code_simp

lemma consumer_me_derived: "make_incarnation_id (inc_publisher consumer_me) (inc_boot consumer_me) = inc_id consumer_me"
  by (simp add: consumer_me_def make_incarnation_def)

lemma consumer_opening_admitted:
  "structural_refusal default_limits (consumer_opening nonce) = None" "open_refusal (consumer_start nonce) (consumer_opening nonce) = None"
proof -
  show "structural_refusal default_limits (consumer_opening nonce) = None"
    using consumer_me_set consumer_me_derived
    by (simp add: structural_refusal_def consumer_opening_def consumer_authority_def default_request_def is_set_def Let_def)
  show "open_refusal (consumer_start nonce) (consumer_opening nonce) = None"
    by (simp add: open_refusal_def consumer_opening_def consumer_start_fields consumer_authority_def consumer_config_def
        default_config_def default_policy_def default_limits_def is_set_def fcard_fempty verify_computed Let_def)
qed

lemma consumer_open_account:
  assumes "a = publish_window (consumer_opening nonce) out (open_account n (consumer_opening nonce))"
  shows "as_totals a = zero_totals" "as_config a = consumer_config" "as_capacity a = 1000" "\<not> as_hard_exhausted a"
    "as_domain a = StrongId 0xC0DE" "as_epoch a = StrongId 1" "as_generation a = StrongId 1"
    "known_attempts a \<subseteq> {consumer_id 0}"
    "\<exists>r. find_incarnation a (inc_id consumer_me) = Some r \<and> is_live (StrongId 1) (StrongId 1) r \<and> ir_last_sequence r = 1"
proof -
  show "as_totals a = zero_totals" "as_config a = consumer_config" "as_capacity a = 1000" "\<not> as_hard_exhausted a"
    "as_domain a = StrongId 0xC0DE" "as_epoch a = StrongId 1" "as_generation a = StrongId 1"
    by (simp_all add: assms open_account_def consumer_opening_def consumer_config_def consumer_authority_def set_incarnation_def Let_def)
  have "known_attempts (open_account n (consumer_opening nonce)) = {}"
    by (simp add: known_attempts_def open_account_def set_incarnation_def make_account_def make_window_def Let_def)
  then show "known_attempts a \<subseteq> {consumer_id 0}"
    using published_attempts [of "consumer_opening nonce" out "open_account n (consumer_opening nonce)"]
    by (simp add: assms consumer_opening_def)
  show "\<exists>r. find_incarnation a (inc_id consumer_me) = Some r \<and> is_live (StrongId 1) (StrongId 1) r \<and> ir_last_sequence r = 1"
    by (simp add: assms find_incarnation_def publish_window_lookup open_account_def set_incarnation_def opener_record_def
        consumer_opening_def consumer_authority_def is_live_def default_incarnation_record_def Let_def)
qed

lemma consumer_opens:
  obtains out c a where
    "consumer_open \<lparr>co_engine = consumer_start nonce, co_attempts = make_generator 0 0x1234, co_sequence = 1\<rparr> = (out, c)" "out_ok out"
    "consumer_at 1 zero_totals (c\<lparr>co_sequence := 2\<rparr>) a"
proof -
  let ?e = "consumer_start nonce" and ?q = "consumer_opening nonce"
  obtain out e' where r: "apply_request in_memory_ops ?q ?e = (out, e')" by fastforce
  have o: "req_op ?q = Open" by (simp add: consumer_opening_def)
  have room: "mem_space.room_for (Suc 3) ?e" using consumer_start_room by simp
  note op = mem_space.room_opens [OF room r o consumer_start_fields(2,3), unfolded consumer_start_fields(4), OF consumer_opening_admitted]
  define a where "a = publish_window ?q out (open_account (max_attempt_window default_limits) ?q)"
  have fx: "e_accounts e' = fmupd 0xFEED a fmempty \<and> frame_kept ?e e' \<and> \<not> e_journal_failed e' \<and> out_ok out"
    using r
  proof (cases rule: apply_cases)
    case opened
    then show ?thesis
      by (simp add: a_def consumer_start_fields request_key_def consumer_opening_def [of nonce] consumer_authority_def)
  qed (use op(1) o in \<open>auto simp: admitted_def\<close>)
  have inv: "engine_inv e'" using run_keeps_inv [OF run_step [OF run_start step_apply [OF r]] consumer_start_inv] .
  note acc = consumer_open_account [OF a_def]
  have "session_placed (consumer_session 1) e' a"
    using fx acc(5-7,9) consumer_me_set consumer_me_derived consumer_start_fields(2) [of nonce]
    by (auto simp: session_placed_def consumer_session_def consumer_authority_def frame_kept_def watermark_of_def is_set_def)
  then have "consumer_at 1 zero_totals \<lparr>co_engine = e', co_attempts = snd (attempt_next (make_generator 0 0x1234)), co_sequence = 2\<rparr> a"
    using inv acc(1-4,8) op(2) consumer_next [of 0]
    by (simp add: consumer_at_def can_serve_def make_generator_def lessThan_Suc)
  moreover have "consumer_open \<lparr>co_engine = ?e, co_attempts = make_generator 0 0x1234, co_sequence = 1\<rparr> =
      (out, \<lparr>co_engine = e', co_attempts = snd (attempt_next (make_generator 0 0x1234)), co_sequence = 1\<rparr>)"
    using r consumer_next [of 0]
    by (simp add: consumer_open_def consumer_opening_def consumer_start_fields make_generator_def)
  ultimately show ?thesis using fx that by simp
qed

subsection \<open>The round trip\<close>

lemma consumer_issue_plan:
  "consumer_plan Issue 400 zero_totals = (success, snd (consumer_plan Issue 400 zero_totals))"
  "p_totals (snd (consumer_plan Issue 400 zero_totals)) = zero_totals\<lparr>issued := 400\<rparr>"
  by code_simp+

lemma consumer_consume_plan:
  fixes t defines "t \<equiv> zero_totals\<lparr>issued := 400\<rparr>"
  shows "consumer_plan Consume 150 t = (success, snd (consumer_plan Consume 150 t))"
  "p_totals (snd (consumer_plan Consume 150 t)) = zero_totals\<lparr>issued := 400, consumed := 150, spent := 150\<rparr>"
  unfolding t_def by code_simp+

lemma consumer_return_plan:
  fixes t defines "t \<equiv> zero_totals\<lparr>issued := 400, consumed := 150, spent := 150\<rparr>"
  shows "consumer_plan Return 400 t = (success, snd (consumer_plan Return 400 t))"
  "p_totals (snd (consumer_plan Return 400 t)) = zero_totals\<lparr>issued := 400, consumed := 150, returned := 400\<rparr>"
  unfolding t_def by code_simp+

lemma consumer_balance:
  "compute_view 1000 (zero_totals\<lparr>issued := 400, consumed := 150, returned := 400\<rparr>) =
     zero_view\<lparr>v_capacity := 1000, v_issued := 400, v_consumed := 150, v_returned := 400, v_available := 1000, v_closed := True\<rparr>"
  by code_simp

lemma consumer_explains:
  assumes "consumer_at n t c a"
  shows "ex_view (explain (StrongId 0xFEED) (co_engine c)) = compute_view 1000 t" "ex_found (explain (StrongId 0xFEED) (co_engine c))"
  using assms by (auto simp: consumer_at_def can_serve_def session_placed_def consumer_session_def explain_def account_view_def Let_def)

lemma consumer_rounds_succeed:
  assumes "consumer_at 1 zero_totals c a"
  shows "\<exists>x. consumer_rounds printed c = exits 0 (printed @ render x @ ''consumer: OK'' @ newline) '''' \<and> ex_found x \<and>
    ex_view x = zero_view\<lparr>v_capacity := 1000, v_issued := 400, v_consumed := 150, v_returned := 400, v_available := 1000, v_closed := True\<rparr>"
proof -
  obtain o1 c1 a1 where s1: "consumer_submit Issue 400 c = (o1, c1)" "out_ok o1" "consumer_at (Suc 1) (zero_totals\<lparr>issued := 400\<rparr>) c1 a1"
    by (rule consumer_step [OF assms _ _ _ consumer_issue_plan(1), unfolded consumer_issue_plan(2)]) simp_all
  obtain o2 c2 a2 where s2: "consumer_submit Consume 150 c1 = (o2, c2)" "out_ok o2"
    "consumer_at (Suc (Suc 1)) (zero_totals\<lparr>issued := 400, consumed := 150, spent := 150\<rparr>) c2 a2"
    by (rule consumer_step [OF s1(3) _ _ _ consumer_consume_plan(1), unfolded consumer_consume_plan(2)]) simp_all
  obtain o3 c3 a3 where s3: "consumer_submit Return 400 c2 = (o3, c3)" "out_ok o3"
    "consumer_at (Suc (Suc (Suc 1))) (zero_totals\<lparr>issued := 400, consumed := 150, returned := 400\<rparr>) c3 a3"
    by (rule consumer_step [OF s2(3) _ _ _ consumer_return_plan(1), unfolded consumer_return_plan(2)]) simp_all
  show ?thesis
    by (rule exI [of _ "explain (StrongId 0xFEED) (co_engine c3)"])
      (simp add: consumer_rounds_def s1(1,2) s2(1,2) s3(1,2) consumer_verdict_def consumer_explains [OF s3(3)] consumer_balance zero_view_def Let_def)
qed

text \<open>C38: The example program succeeds. Over an empty in-memory journal, for every random challenge of the engine, its
  recovery, its opening of the account and its three attempts (issue 400, consume 150, return 400) are all accepted; it
  prints the version line, the explanation of the account and its last line, writes nothing to the error stream and exits
  with 0. The explained account is found and its books are closed, nothing is in flight, all 1000 credits are available
  again and 150 stay counted as consumed. One step of fuel is enough, since the journal is empty.\<close>

theorem consumer_succeeds:
  "\<exists>x. consumer_main ndebug nonce (Suc fuel) = Some (exits 0 (consumer_banner ndebug @ render x @ ''consumer: OK'' @ newline) '''') \<and>
     ex_found x \<and> v_closed (ex_view x) \<and> v_in_flight (ex_view x) = 0 \<and> v_available (ex_view x) = 1000 \<and> v_issued (ex_view x) = 400 \<and>
     v_consumed (ex_view x) = 150 \<and> v_returned (ex_view x) = 400"
proof -
  obtain out c a where op: "consumer_open \<lparr>co_engine = consumer_start nonce, co_attempts = make_generator 0 0x1234, co_sequence = 1\<rparr> = (out, c)"
    "out_ok out" "consumer_at 1 zero_totals (c\<lparr>co_sequence := 2\<rparr>) a" by (rule consumer_opens)
  obtain x where x: "consumer_rounds (consumer_banner ndebug) (c\<lparr>co_sequence := 2\<rparr>) =
      exits 0 (consumer_banner ndebug @ render x @ ''consumer: OK'' @ newline) ''''" "ex_found x"
    "ex_view x = zero_view\<lparr>v_capacity := 1000, v_issued := 400, v_consumed := 150, v_returned := 400, v_available := 1000, v_closed := True\<rparr>"
    using consumer_rounds_succeed [OF op(3)] by blast
  show ?thesis
    by (rule exI [of _ x]) (simp add: consumer_main_def consumer_recovers op(1,2) x zero_view_def)
qed

end
