(* ===== verification/Spec2Isabelle.thy ===== *)
theory Spec2Isabelle
  imports Disk Consumer
begin

text \<open>
  Verification of Credit Fabric, a credit authority: accounts with a capacity of credits are issued to, consumed by
  and returned from worker processes, every decision is made by one engine, is durable in a journal before it is
  acknowledged, and is applied at most once however often it is asked for.

  \<^bold>\<open>The program and its theories.\<close> Paths are relative to \<open>src/\<close>; the theories are listed in the order they build on
  each other.

  \<^item> \<open>CF_Prelude\<close>: machine integers (\<open>std::uint64_t\<close> is \<open>64 word\<close> and wraps), rule collections, shared lemmas.
  \<^item> \<open>Checked\<close> (\<open>include/creditfabric/checked.hpp\<close>): overflow-checked arithmetic; exact, or flagged.
  \<^item> \<open>Strong\<close> (\<open>strong.hpp\<close>, \<open>strong.cpp\<close>): typed identities, binding digests, attempt identities, randomness, text
    forms.
  \<^item> \<open>Status\<close> (\<open>status.hpp\<close>, \<open>status.cpp\<close>): the 53 reasons, their classes, status values.
  \<^item> \<open>Ledger\<close> (\<open>ledger.hpp\<close>, \<open>ledger.cpp\<close>): totals, view, closure check and \<open>LedgerPlan\<close>; refinement of an abstract
    pool of whole credits.
  \<^item> \<open>Authority\<close> (\<open>authority.hpp\<close>, \<open>policy.hpp\<close> and sources): incarnations, authority vectors, challenge, limits.
  \<^item> \<open>Messages\<close> (\<open>engine.hpp\<close>, \<open>engine.cpp\<close>): operations, requests, outcomes, digests, explanation text.
  \<^item> \<open>Bytes\<close>, \<open>Crc32c\<close>, \<open>Wire\<close>, \<open>Durable\<close> (\<open>bytes.hpp\<close>, \<open>crc32c.cpp\<close>, \<open>wire.cpp\<close>, \<open>record.cpp\<close>, \<open>version.cpp\<close>): the byte codec, the
    checksum, frames and messages, journal records and snapshots.
  \<^item> \<open>Journal\<close> (\<open>journal.hpp\<close>, \<open>journal.cpp\<close>): the virtual interface as a record of operations, and the in-memory one.
  \<^item> \<open>Window\<close>, \<open>Account\<close>, \<open>Engine\<close>, \<open>Recovery\<close> (\<open>engine.cpp\<close>): the memory of decided attempts, one account and its
    transitions, live decisions and durability, replay and the projections.
  \<^item> \<open>Decisions\<close>, \<open>Transactions\<close>, \<open>Runs\<close>, \<open>Durability\<close>: no code of their own, but the proofs on the engine: what a
    call decides, what it leaves, what histories of calls do, and what the journal then holds.
  \<^item> \<open>Platform\<close>, \<open>FileJournal\<close>, \<open>FileLog\<close>, \<open>Disk\<close> (\<open>platform.cpp\<close>, \<open>file_journal.cpp\<close>): files with a schedule of
    faults, the file journal, its contract, and the engine on it.
  \<^item> \<open>Transport\<close>, \<open>Coordinator\<close>, \<open>Client\<close> (\<open>transport.cpp\<close>, \<open>coordinator.cpp\<close>): sockets with a schedule of events, the
    server with its accept loop and connections, and the client.
  \<^item> \<open>Session\<close>, \<open>Bench\<close>, \<open>Tools\<close> (\<open>apps/\<close>, \<open>bench.cpp\<close>): the in-process session, the benchmark, the command line tools.
  \<^item> \<open>Serving\<close>, \<open>Consumer\<close> (\<open>examples/consumer/main.cpp\<close>): when a session is served, and the example program.

  \<^bold>\<open>State and operations.\<close> Every class is a record with the source's members (\<open>engine\<close> for \<open>CreditEngine\<close>, \<open>AccountState\<close>,
  \<open>FileJournal\<close>, \<open>Socket\<close>, \<open>server\<close> for \<open>CoordinatorServer\<close>, \<open>CoordinatorClient\<close>, \<open>LocalSession\<close>) and every method a
  function that returns its result and the object after the call. A call of the engine is atomic, since it holds the
  engine's mutex, so concurrent callers are a sequence of calls (\<open>engine_run\<close>); connections of the server interleave at
  whole turns of their loops (\<open>served\<close>). Refusals are \<open>Status\<close> values as in the source; a decoder returns a sum.

  \<^bold>\<open>Interfaces.\<close> \<open>codec\<close> and \<open>counted_codec\<close> (a decoder accepts exactly the encodings of well-formed values) are
  interpreted for every field, message and record codec; \<open>bounded_note\<close> adds the bound on notes. \<open>replay_memory\<close> is what
  the engine needs of the attempt window. \<open>journal_writer\<close>, \<open>journal_contract\<close> (an append leaves the record in the log,
  a failure leaves the durable contents alone, a replay reads the log back) and \<open>journal_space\<close> (with room, an append
  succeeds) are what the engine needs of a journal; they are interpreted for the in-memory journal (\<open>mem\<close>,
  \<open>mem_space\<close>) and for the file journal (\<open>disk\<close>, \<open>disk_space\<close>), and the engine's durability lemmas are proved inside them.

  \<^bold>\<open>What is shown.\<close>
  \<^item> The engine keeps its invariant in every run; the counters of an account are the fold of the acknowledged requests;
    a sequence number is applied at most once; only under the current authority; fences are permanent; an epoch change
    quarantines; retries are absorbed and altered retries conflict.
  \<^item> No acknowledgement before the journal: an acknowledged decision is in the log behind its intent or in a snapshot; a
    journal failure is never acknowledged; a healthy disk acknowledges everything; recovery ends, trusts nobody and
    rebuilds the accounts of the run.
  \<^item> The file journal is atomic under any faults: an append is there or not, a snapshot is the old or the new one, a torn
    tail is cut off, a damaged record is never replayed.
  \<^item> The codecs are round trips that accept nothing else; the table of the checksum is the shift register; corruption
    within four bytes is detected.
  \<^item> Frames cross any link however it cuts them; a stopped server's threads end; a remote call is a call of the engine;
    admissions, retries and engine calls are bounded.
  \<^item> End to end (below, and in \<open>Tools\<close>): what a remote caller or an operator is told was decided is on the disk of the
    engine's process, and what a coordinator served survives it; the example program, started on an empty journal, always
    succeeds (\<open>Consumer\<close>).

  \<^bold>\<open>Bounds.\<close> The replay loop takes fuel: one unit for each record of the log and one for its end suffice
  (\<open>recovery_ends_and_trusts_nobody\<close>), and every recovery theorem assumes only that. Waits on the network are partial
  functions in which not returning is \<open>None\<close>; that they return is proved where the code promises it (a stop flag, a link
  on which calls complete). The retry loops of sessions have eight tries, as in the source.

  \<^bold>\<open>Not modelled.\<close> The Windows branches; the clock, the entropy source and the process identity, which are parameters;
  the scheduling of threads below a call of the engine and a turn of a connection; \<open>std::hash\<close> specialisations, which only
  place map buckets; the printing of doubles, which is a parameter. Hash maps whose iteration order the
  source does not fix are iterated in ascending order.
\<close>

text \<open>C7: what a remote caller is told was decided is on the coordinator's disk. When a client's exchange and one turn
  of the server's loop are connected (the bytes each writes are the bytes the other reads, over links that deliver,
  split and delay them as they like), and the answer the client gets is a new decision, then the coordinator's journal
  file holds it: the intent and the attempt record whose state digest is the one the client was told follow what the
  log held before, or a snapshot written after the decision holds the account.\<close>

theorem remote_acknowledgement_is_on_disk:
  assumes "exchange q c = Some (out, c')" "cc_connected c" "cc_connected c'" "sk_valid (cc_socket c)" "cl_max_payload (cc_options c) \<le> 0xFFFFFFFF"
    "serve_turn file_ops n sv s = Some (Inr (m, sv', s'))" "sk_valid s" "server_payload sv \<le> 0xFFFFFFFF"
    "max_note_bytes (co_limits (sv_options sv)) \<le> 4096" "length (req_note q) \<le> max_note_bytes (co_limits (sv_options sv))"
    "nt_out (sk_net (cc_socket c')) = nt_out (sk_net (cc_socket c)) @ asked" "nt_in (sk_net s) = asked @ tail"
    "nt_out (sk_net s') = nt_out (sk_net s) @ answer" "nt_in (sk_net (cc_socket c)) = answer @ behind"
    "out_decided out" "\<not> out_duplicate out" "reason (out_status out) \<noteq> AttemptConflict"
    "e_journal (sv_engine sv) = Some j" "file_ready j"
  shows "\<exists>j' b t. e_journal (sv_engine sv') = Some j' \<and> file_ready j' \<and> account_digest b = out_state_digest out \<and>
           t = durable_attempt q out (Some b) (req_op q = Open) (e_stats (sv_engine sv)) \<and>
           (file_log j' = file_log j @ [intent_record (sv_engine sv) q, attempt_record (sv_engine sv) t] \<and> file_snap j' = file_snap j \<or>
            (\<exists>f :: FileJournal engine. e_accounts f = fmupd (request_key q) b (e_accounts (sv_engine sv)) \<and>
               file_snap j' = Some (e_next_sequence (sv_engine sv) + 2, lr_chain (attempt_record (sv_engine sv) t),
                 encode_durable_state_body (snapshot_state f))))"
  using disk.acknowledged_durable [OF remote_apply [OF assms(1-14)] assms(15-19)] .

definition demo_disk_server :: "FileJournal server" where
  "demo_disk_server = make_server demo_disk_engine demo_options (prompt_net [])"

lemma demo_disk_server_sel:
  "sv_engine demo_disk_server = demo_disk_engine" "co_limits (sv_options demo_disk_server) = default_limits"
  "co_max_requests (sv_options demo_disk_server) = 0"
  by (simp_all add: demo_disk_server_def make_server_def clamp_options_def demo_options_def default_limits_def)

theorem remote_acknowledgement_is_on_disk_witness:
  "\<exists>out c' sv' j' asked answer.
     exchange (demo_request Issue 2 10) (demo_client\<lparr>cc_socket := prompt_socket answer\<rparr>) = Some (out, c') \<and> out_applied out \<and>
     (\<exists>s'. serve_turn file_ops 0 demo_disk_server (prompt_socket asked) = Some (Inr (1, sv', s'))) \<and>
     e_journal (sv_engine sv') = Some j' \<and> file_ready j' \<and> (file_snap j' = None \<longrightarrow> length (file_log j') = 2)"
proof -
  let ?q = "demo_request Issue 2 10"
  obtain asked where a: "encode_frame Request (encode_request_body ?q) = Inr asked" "length (encode_request_body ?q) \<le> 65536" by (rule request_frame)
  have b: "length (encode_request_body ?q) \<le> server_payload demo_disk_server" "server_payload demo_disk_server \<le> 0xFFFFFFFF"
    "max_note_bytes (co_limits (sv_options demo_disk_server)) \<le> 4096" "length (req_note ?q) = 0"
    using a(2) by (simp_all add: demo_disk_server_sel default_limits_def demo_request_def)
  obtain out e where ap: "apply_request file_ops ?q demo_disk_engine = (out, e)" by fastforce
  obtain sv' s' answer c' where r: "serve_turn file_ops 0 demo_disk_server (prompt_socket asked) = Some (Inr (1, sv', s'))"
    "nt_out (sk_net s') = answer" "exchange ?q (demo_client\<lparr>cc_socket := prompt_socket answer\<rparr>) = Some (out, c')" "cc_connected c'"
    "nt_out (sk_net (cc_socket c')) = asked"
    using remote_call [of "prompt_socket asked" "prompt_net []" demo_client ?q demo_disk_server asked "[]" file_ops out e 0 "[]"] a b ap
    by (auto simp: demo_disk_server_sel)
  have room: "disk_space.has_room demo_disk_engine"
    by (simp add: disk_space.has_room_def demo_disk_running file_bytes demo_file_facts) (simp add: default_limits_def)
  have adm: "admitted demo_disk_engine ?q demo_account" by (rule demo_running_admits [OF demo_disk_running(1)]) simp_all
  obtain x where "decide demo_disk_engine ?q demo_account = DecApply x" using demo_running_issues [OF demo_disk_running(1)] by blast
  then have app: "out_applied out" by (rule disk_space.room_acknowledges(1) [OF room ap adm])
  from ap have d: "out_decided out \<and> \<not> out_duplicate out \<and> out_status out = success"
  proof (cases rule: apply_cases)
  qed (use app in simp_all)
  have rd: "file_ready demo_file" using demo_file_facts(1) by (simp add: file_usable_def)
  have "\<exists>j'. e_journal (sv_engine sv') = Some j' \<and> file_ready j' \<and> (file_snap j' = None \<longrightarrow> length (file_log j') = 2)"
    using remote_acknowledgement_is_on_disk [OF r(3) _ r(4) _ _ r(1), of asked "[]" answer "[]" demo_file] r(2,5) b d rd
      demo_disk_running(2) demo_file_facts(4) by (auto simp: demo_disk_server_sel)
  then obtain j' where j: "e_journal (sv_engine sv') = Some j' \<and> file_ready j' \<and> (file_snap j' = None \<longrightarrow> length (file_log j') = 2)"
    by (elim exE)
  show ?thesis
    by (intro exI [of _ out] exI [of _ c'] exI [of _ sv'] exI [of _ j'] exI [of _ asked] exI [of _ answer] conjI exI [of _ s'])
      (rule r(3) app r(1) j [THEN conjunct1] j [THEN conjunct2, THEN conjunct1] j [THEN conjunct2, THEN conjunct2])+
qed


definition demo_fresh_server :: "FileJournal server" where
  "demo_fresh_server = make_server (demo_start demo_file) demo_options (prompt_net [])"

lemma demo_fresh_server_sel:
  "sv_engine demo_fresh_server = demo_start demo_file" "co_limits (sv_options demo_fresh_server) = default_limits"
  "co_max_requests (sv_options demo_fresh_server) = 0"
  by (simp_all add: demo_fresh_server_def make_server_def clamp_options_def demo_options_def default_limits_def)


end
